(* ===== verification/Prelude.thy ===== *)
theory Prelude
  imports Main "HOL-Library.Sublist" "HOL-Library.Multiset"
begin

text \<open>
  Shared vocabulary of the development: results as sums (\<open>Inl\<close> is a thrown error, \<open>Inr\<close> a
  returned value), insertion-ordered association lists (the JavaScript \<open>Map\<close> and plain
  object), and the list facts that several components use.  The collections declared here are
  the simp sets the component proofs name.
\<close>

named_theorems js_simps "evaluation of the JavaScript string, object and regexp primitives"
named_theorems obj_simps "lookups after updates of insertion-ordered maps"
named_theorems res_simps "sequencing of results that may be errors"


section \<open>Results\<close>

definition res_bind :: "'e + 'a \<Rightarrow> ('a \<Rightarrow> 'e + 'b) \<Rightarrow> 'e + 'b" where
  "res_bind r f = (case r of Inl e \<Rightarrow> Inl e | Inr x \<Rightarrow> f x)"

lemma res_bind_Inl [simp, res_simps]: "res_bind (Inl e) f = Inl e"
  by (simp add: res_bind_def)

lemma res_bind_Inr [simp, res_simps]: "res_bind (Inr x) f = f x"
  by (simp add: res_bind_def)

lemma res_bind_eq_Inr:
  "res_bind r f = Inr y \<longleftrightarrow> (\<exists>x. r = Inr x \<and> f x = Inr y)"
  by (cases r) auto

lemma res_bind_eq_Inl:
  "res_bind r f = Inl e \<longleftrightarrow> r = Inl e \<or> (\<exists>x. r = Inr x \<and> f x = Inl e)"
  by (cases r) auto

text \<open>\<open>res_map f xs\<close> applies a throwing function along a list and stops at the first error.\<close>

fun res_map :: "('a \<Rightarrow> 'e + 'b) \<Rightarrow> 'a list \<Rightarrow> 'e + 'b list" where
  "res_map f [] = Inr []"
| "res_map f (x # xs) =
     (case f x of Inl e \<Rightarrow> Inl e
      | Inr y \<Rightarrow> (case res_map f xs of Inl e \<Rightarrow> Inl e | Inr ys \<Rightarrow> Inr (y # ys)))"

lemma res_map_cong [fundef_cong]:
  "xs = ys \<Longrightarrow> (\<And>x. x \<in> set ys \<Longrightarrow> f x = g x) \<Longrightarrow> res_map f xs = res_map g ys"
  by (induction xs arbitrary: ys) (auto split: sum.splits)

lemma res_map_length: "res_map f xs = Inr ys \<Longrightarrow> length ys = length xs"
  by (induction xs arbitrary: ys) (auto split: sum.splits)

lemma res_map_nth:
  "res_map f xs = Inr ys \<Longrightarrow> i < length xs \<Longrightarrow> f (xs ! i) = Inr (ys ! i)"
  by (induction xs arbitrary: ys i) (auto simp: nth_Cons' split: sum.splits)

lemma res_map_all_Inr: "(\<And>x. x \<in> set xs \<Longrightarrow> f x = Inr (g x)) \<Longrightarrow> res_map f xs = Inr (map g xs)"
  by (induction xs) auto


section \<open>Insertion-ordered maps\<close>

text \<open>
  A JavaScript \<open>Map\<close> and a plain object keep their keys in insertion order; writing an existing
  key keeps its place.  (Integer-like keys of plain objects, which JavaScript moves to the
  front, are not reordered here.)
\<close>

type_synonym ('k, 'v) omap = "('k \<times> 'v) list"

fun oset :: "'k \<Rightarrow> 'v \<Rightarrow> ('k, 'v) omap \<Rightarrow> ('k, 'v) omap" where
  "oset k v [] = [(k, v)]"
| "oset k v ((k', v') # m) = (if k = k' then (k, v) # m else (k', v') # oset k v m)"

fun odel :: "'k \<Rightarrow> ('k, 'v) omap \<Rightarrow> ('k, 'v) omap" where
  "odel k [] = []"
| "odel k ((k', v') # m) = (if k = k' then odel k m else (k', v') # odel k m)"

abbreviation oget :: "('k, 'v) omap \<Rightarrow> 'k \<Rightarrow> 'v option" where
  "oget m k \<equiv> map_of m k"

abbreviation okeys :: "('k, 'v) omap \<Rightarrow> 'k list" where
  "okeys m \<equiv> map fst m"

text \<open>Object spread \<open>{...a, ...b}\<close>: the entries of \<open>b\<close> written over \<open>a\<close> in order.\<close>

definition omerge :: "('k, 'v) omap \<Rightarrow> ('k, 'v) omap \<Rightarrow> ('k, 'v) omap" where
  "omerge a b = foldl (\<lambda>m (k, v). oset k v m) a b"

lemma oget_oset [simp, obj_simps]: "oget (oset k v m) k' = (if k' = k then Some v else oget m k')"
  by (induction m) auto

lemma oget_odel [simp, obj_simps]: "oget (odel k m) k' = (if k' = k then None else oget m k')"
  by (induction m) auto

lemma fst_set_oset [simp]: "fst ` set (oset k v m) = insert k (fst ` set m)"
  by (induction k v m rule: oset.induct) auto

lemma fst_set_odel [simp]: "fst ` set (odel k m) = fst ` set m - {k}"
  by (induction k m rule: odel.induct) auto

lemma mem_odel: "(a, b) \<in> set (odel k m) \<longleftrightarrow> a \<noteq> k \<and> (a, b) \<in> set m"
  by (induction k m rule: odel.induct) auto

lemma okeys_oset_mem: "k \<in> set (okeys m) \<Longrightarrow> okeys (oset k v m) = okeys m"
  by (induction k v m rule: oset.induct) auto

lemma oset_fresh: "k \<notin> set (okeys m) \<Longrightarrow> oset k v m = m @ [(k, v)]"
  by (induction k v m rule: oset.induct) auto

lemma distinct_oset: "distinct (okeys m) \<Longrightarrow> distinct (okeys (oset k v m))"
  by (cases "k \<in> set (okeys m)") (simp add: okeys_oset_mem, simp add: oset_fresh)

lemma odel_filter: "odel k m = filter (\<lambda>e. fst e \<noteq> k) m"
  by (induction k m rule: odel.induct) auto

lemma distinct_odel: "distinct (okeys m) \<Longrightarrow> distinct (okeys (odel k m))"
  by (simp add: odel_filter distinct_map_filter)

lemma length_odel: "length (odel k m) \<le> length m"
  by (induction m) auto

lemma omerge_Nil [simp]: "omerge a [] = a"
  by (simp add: omerge_def)

lemma omerge_snoc [simp]: "omerge a (b @ [(k, v)]) = oset k v (omerge a b)"
  by (simp add: omerge_def)

lemma omerge_Cons: "omerge a ((k, v) # b) = omerge (oset k v a) b"
  by (simp add: omerge_def)

lemma oget_omerge:
  "distinct (okeys b) \<Longrightarrow>
   oget (omerge a b) k = (case oget b k of Some v \<Rightarrow> Some v | None \<Rightarrow> oget a k)"
proof (induction b arbitrary: a)
  case Nil
  then show ?case by simp
next
  case (Cons x b)
  obtain k' v where x: "x = (k', v)" by (cases x)
  from Cons.prems x have "k' \<notin> set (okeys b)" and d: "distinct (okeys b)" by auto
  then have "oget b k' = None" by (metis map_of_eq_None_iff list.set_map)
  then show ?case
    using Cons.IH [OF d, of "oset k' v a"] by (auto simp: x omerge_Cons split: option.splits)
qed

lemma oget_mem_keys: "oget m k = Some v \<Longrightarrow> k \<in> set (okeys m)"
  by (induction m) (auto split: if_splits)

lemma oget_None_iff: "oget m k = None \<longleftrightarrow> k \<notin> set (okeys m)"
  by (induction m) auto


section \<open>The store interface\<close>

text \<open>
  What the code relies on when it uses a \<open>Map\<close>, a context object or a keyed table: reading
  after a write returns the value written, other keys are untouched, and deletion forgets
  exactly one key.  Facts proved here are used wherever two writes meet.
\<close>

locale kv_store =
  fixes get :: "'m \<Rightarrow> 'k \<Rightarrow> 'v option"
    and put :: "'k \<Rightarrow> 'v \<Rightarrow> 'm \<Rightarrow> 'm"
    and del :: "'k \<Rightarrow> 'm \<Rightarrow> 'm"
  assumes get_put: "get (put k v m) k' = (if k' = k then Some v else get m k')"
    and get_del: "get (del k m) k' = (if k' = k then None else get m k')"
begin

lemma put_put_same: "get (put k v (put k w m)) k' = get (put k v m) k'"
  by (simp add: get_put)

lemma put_commute: "k \<noteq> l \<Longrightarrow> get (put k v (put l w m)) k' = get (put l w (put k v m)) k'"
  by (simp add: get_put)

lemma del_put: "get (del k (put k v m)) k' = get (del k m) k'"
  by (simp add: get_put get_del)

lemma foldl_put_other:
  "k \<notin> set (map fst kvs) \<Longrightarrow> get (foldl (\<lambda>m (k, v). put k v m) m kvs) k = get m k"
  by (induction kvs arbitrary: m) (auto simp: get_put)

end

interpretation omap_kv: kv_store map_of oset odel
  by unfold_locales auto


section \<open>The upsert interface\<close>

text \<open>
  \<open>INSERT ... ON CONFLICT (key) DO UPDATE\<close>: the row of one key is created from the proposal, or
  merged with it; every other row stays.  Several tables are written this way.
\<close>

definition upsert :: "('p \<Rightarrow> 'r) \<Rightarrow> ('p \<Rightarrow> 'r \<Rightarrow> 'r) \<Rightarrow> 'k \<Rightarrow> 'p \<Rightarrow> ('k, 'r) omap \<Rightarrow> ('k, 'r) omap" where
  "upsert ins mrg k p m = oset k (case oget m k of None \<Rightarrow> ins p | Some r \<Rightarrow> mrg p r) m"

lemma oget_upsert [simp, obj_simps]:
  "oget (upsert ins mrg k p m) k' =
     (if k' = k then Some (case oget m k of None \<Rightarrow> ins p | Some r \<Rightarrow> mrg p r) else oget m k')"
  by (simp add: upsert_def)

lemma distinct_upsert: "distinct (okeys m) \<Longrightarrow> distinct (okeys (upsert ins mrg k p m))"
  by (simp add: upsert_def distinct_oset)

locale upsert_table =
  fixes look :: "'m \<Rightarrow> 'k \<Rightarrow> 'r option"
    and ups :: "'k \<Rightarrow> 'p \<Rightarrow> 'm \<Rightarrow> 'm"
    and ins :: "'p \<Rightarrow> 'r"
    and mrg :: "'p \<Rightarrow> 'r \<Rightarrow> 'r"
  assumes look_ups: "look (ups k p m) k' =
    (if k' = k then Some (case look m k of None \<Rightarrow> ins p | Some r \<Rightarrow> mrg p r) else look m k')"
begin

text \<open>After any sequence of writes the row of a key depends only on the writes to that key.\<close>

lemma replay_key:
  "look (foldl (\<lambda>m (k, p). ups k p m) m ws) k = look (foldl (\<lambda>m (k, p). ups k p m) m (filter (\<lambda>w. fst w = k) ws)) k"
proof (induction ws rule: rev_induct)
  case (snoc w ws)
  then show ?case by (cases w) (auto simp: look_ups)
qed simp

lemma replay_other: "k \<notin> fst ` set ws \<Longrightarrow> look (foldl (\<lambda>m (k, p). ups k p m) m ws) k = look m k"
  by (induction ws arbitrary: m) (auto simp: look_ups)

lemma row_kept: "look m k \<noteq> None \<Longrightarrow> look (ups k' p m) k \<noteq> None"
  by (simp add: look_ups)

text \<open>A merge that keeps what it wrote makes repeating a write harmless.\<close>

lemma repeat_write:
  assumes "\<And>r. mrg p (mrg p r) = mrg p r" "mrg p (ins p) = ins p"
  shows "look (ups k p (ups k p m)) k' = look (ups k p m) k'"
  using assms by (simp add: look_ups split: option.splits)

lemma writes_commute: "k \<noteq> l \<Longrightarrow> look (ups k p (ups l r m)) k' = look (ups l r (ups k p m)) k'"
  by (simp add: look_ups)

end

section \<open>List facts\<close>

lemma distinct_filter_length_le: "length (filter P xs) \<le> length xs"
  by simp

lemma foldl_add_nat: "foldl (\<lambda>(n::nat) x. n + f x) a xs = a + sum_list (map f xs)"
  by (induction xs arbitrary: a) auto

lemma sum_list_mono_nat: "(\<And>x. x \<in> set xs \<Longrightarrow> (f x :: nat) \<le> g x) \<Longrightarrow> sum_list (map f xs) \<le> sum_list (map g xs)"
  by (induction xs) (auto intro: add_mono)

lemma find_Some_mem: "find P xs = Some x \<Longrightarrow> x \<in> set xs \<and> P x"
  by (induction xs) (auto split: if_splits)

lemma count_list_pos_iff: "0 < count_list xs x \<longleftrightarrow> x \<in> set xs"
  using count_list_0_iff [of xs x] by auto

text \<open>A stable sort on distinct keys is determined by the keys.\<close>

lemma distinct_key_filter: "distinct (map f rs) \<Longrightarrow> x \<in> set rs \<Longrightarrow> filter (\<lambda>y. f x = f y) rs = [x]"
proof (induction rs)
  case (Cons r rs)
  show ?case
  proof (cases "x = r")
    case True
    then have "filter (\<lambda>y. f x = f y) rs = []" using Cons.prems(1) by (auto simp: filter_empty_conv)
    then show ?thesis using True by simp
  next
    case False
    then have "x \<in> set rs" using Cons.prems(2) by simp
    moreover from this have "f x \<noteq> f r" using Cons.prems(1) by (metis distinct.simps(2) image_eqI list.set_map list.simps(9))
    ultimately show ?thesis using Cons by simp
  qed
qed simp

lemma sort_key_strict:
  assumes "mset ys = mset xs" "sorted_wrt (<) (map f ys)"
  shows "sort_key f xs = (ys :: 'a list)"
proof (rule properties_for_sort_key)
  show "mset ys = mset xs" by (rule assms(1))
  have d: "distinct (map f ys)" "sorted (map f ys)" using assms(2) by (simp_all add: strict_sorted_iff)
  then show "sorted (map f ys)" by simp
  have "mset (map f xs) = mset (map f ys)" using assms(1) by simp
  then have dx: "distinct (map f xs)" using d(1) by (metis mset_eq_imp_distinct_iff)
  fix k assume k: "k \<in> set ys"
  then have "k \<in> set xs" using assms(1) by (metis set_mset_mset)
  then show "filter (\<lambda>x. f k = f x) ys = filter (\<lambda>x. f k = f x) xs"
    using distinct_key_filter [OF d(1) k] distinct_key_filter [OF dx] by simp
qed

end
