(* ===== verification/JsValue.thy ===== *)
theory JsValue
  imports Prelude Complex_Main "HOL-Library.Code_Target_Nat"
begin

text \<open>
  The JavaScript values that workflows, contexts and plugin outputs are made of, with the
  language operations the sources apply to them: truthiness, \<open>typeof\<close>, nullishness, own
  property reads, the \<open>in\<close> operator, \<open>Object.entries\<close>, spreads, and the conversions \<open>String(v)\<close>
  and \<open>Number(v)\<close>.

  Numbers are exact rationals (plus \<open>NaN\<close> and the infinities as a conversion result): the
  counts, milliseconds and scores of the program are small, so the rounding of doubles is not
  modelled.  Strings are lists of characters, one per UTF-16 code unit below 256.
  Functions, symbols and class instances other than plain objects and arrays do not occur.
\<close>

datatype js =
    JUndef
  | JNull
  | JBool bool
  | JNum rat
  | JStr string
  | JArr "js list"
  | JObj "(string \<times> js) list"

datatype jsnum = NaN | PosInf | NegInf | Fin rat

section \<open>Tests\<close>

fun nullish :: "js \<Rightarrow> bool" where
  "nullish JUndef = True"
| "nullish JNull = True"
| "nullish _ = False"

fun truthy :: "js \<Rightarrow> bool" where
  "truthy JUndef = False"
| "truthy JNull = False"
| "truthy (JBool b) = b"
| "truthy (JNum r) = (r \<noteq> 0)"
| "truthy (JStr s) = (s \<noteq> [])"
| "truthy (JArr _) = True"
| "truthy (JObj _) = True"

fun js_typeof :: "js \<Rightarrow> string" where
  "js_typeof JUndef = ''undefined''"
| "js_typeof JNull = ''object''"
| "js_typeof (JBool _) = ''boolean''"
| "js_typeof (JNum _) = ''number''"
| "js_typeof (JStr _) = ''string''"
| "js_typeof (JArr _) = ''object''"
| "js_typeof (JObj _) = ''object''"

fun is_array :: "js \<Rightarrow> bool" where
  "is_array (JArr _) = True"
| "is_array _ = False"

text \<open>\<open>typeof v === "object"\<close> for a truthy \<open>v\<close>: an object or an array.\<close>

fun is_objlike :: "js \<Rightarrow> bool" where
  "is_objlike (JArr _) = True"
| "is_objlike (JObj _) = True"
| "is_objlike _ = False"

text \<open>The operators \<open>a || b\<close> and \<open>a ?? b\<close>.\<close>

definition js_or :: "js \<Rightarrow> js \<Rightarrow> js" where
  "js_or a b = (if truthy a then a else b)"

definition js_nullish :: "js \<Rightarrow> js \<Rightarrow> js" where
  "js_nullish a b = (if nullish a then b else a)"

section \<open>Decimal numerals\<close>

definition digit_char :: "nat \<Rightarrow> char" where
  "digit_char n = char_of (48 + n)"

definition is_digit :: "char \<Rightarrow> bool" where
  "is_digit c = (48 \<le> (of_char c :: nat) \<and> (of_char c :: nat) \<le> 57)"

definition digit_val :: "char \<Rightarrow> nat" where
  "digit_val c = of_char c - 48"

fun show_nat :: "nat \<Rightarrow> string" where
  "show_nat n = (if n < 10 then [digit_char n] else show_nat (n div 10) @ [digit_char (n mod 10)])"

declare show_nat.simps [simp del]

definition show_int :: "int \<Rightarrow> string" where
  "show_int i = (if i < 0 then CHR ''-'' # show_nat (nat (- i)) else show_nat (nat i))"

text \<open>The value of a string of digits (\<open>parseInt(s, 10)\<close> on digits only).\<close>

definition digits_val :: "string \<Rightarrow> nat" where
  "digits_val ds = foldl (\<lambda>n c. 10 * n + digit_val c) 0 ds"

lemma is_digit_digit_char [simp]: "n < 10 \<Longrightarrow> is_digit (digit_char n)"
  by (simp add: is_digit_def digit_char_def)

lemma digit_val_digit_char [simp]: "n < 10 \<Longrightarrow> digit_val (digit_char n) = n"
  by (simp add: digit_val_def digit_char_def)

lemma digits_val_snoc [simp]: "digits_val (ds @ [c]) = 10 * digits_val ds + digit_val c"
  by (simp add: digits_val_def)

lemma show_nat_digits: "\<forall>c \<in> set (show_nat n). is_digit c"
proof (induction n rule: show_nat.induct)
  case (1 n)
  then show ?case by (subst show_nat.simps) auto
qed

lemma show_nat_nonempty [simp]: "show_nat n \<noteq> []"
  by (subst show_nat.simps) auto

theorem digits_val_show_nat [simp]: "digits_val (show_nat n) = n"
proof (induction n rule: show_nat.induct)
  case (1 n)
  show ?case
  proof (cases "n < 10")
    case True
    then show ?thesis by (subst show_nat.simps) (simp add: digits_val_def)
  next
    case False
    then show ?thesis using 1 by (subst show_nat.simps) simp
  qed
qed

lemma show_nat_inj: "show_nat m = show_nat n \<Longrightarrow> m = n"
  by (metis digits_val_show_nat)

section \<open>Conversions\<close>

text \<open>
  \<open>String(r)\<close> for a number: the decimal expansion, cut after twenty fraction digits (a double
  with a short decimal form prints exactly so).
\<close>

fun frac_digits :: "nat \<Rightarrow> rat \<Rightarrow> string" where
  "frac_digits 0 r = []"
| "frac_digits (Suc k) r =
     (if r = 0 then [] else
        (let d = nat \<lfloor>10 * r\<rfloor> in digit_char d # frac_digits k (10 * r - of_nat d)))"

definition show_num :: "rat \<Rightarrow> string" where
  "show_num r =
     (let a = \<bar>r\<bar>; i = nat \<lfloor>a\<rfloor>; f = a - of_nat i;
          body = show_nat i @ (if f = 0 then [] else CHR ''.'' # frac_digits 20 f)
      in if r < 0 then CHR ''-'' # body else body)"

lemma show_num_nat [simp]: "show_num (of_nat n) = show_nat n"
  by (simp add: show_num_def Let_def)

fun join_str :: "string \<Rightarrow> string list \<Rightarrow> string" where
  "join_str sep [] = []"
| "join_str sep [x] = x"
| "join_str sep (x # xs) = x @ sep @ join_str sep xs"

text \<open>\<open>String(v)\<close>: arrays join their elements with commas, nullish elements being empty.\<close>

fun js_string :: "js \<Rightarrow> string" where
  "js_string JUndef = ''undefined''"
| "js_string JNull = ''null''"
| "js_string (JBool b) = (if b then ''true'' else ''false'')"
| "js_string (JNum r) = show_num r"
| "js_string (JStr s) = s"
| "js_string (JArr vs) = join_str '','' (map (\<lambda>v. if nullish v then [] else js_string v) vs)"
| "js_string (JObj _) = ''[object Object]''"

section \<open>Properties\<close>

text \<open>
  The names every plain object inherits from \<open>Object.prototype\<close>; the operator \<open>in\<close> sees them,
  \<open>Object.entries\<close> and \<open>hasOwnProperty\<close> do not.
\<close>

definition object_prototype_keys :: "string list" where
  "object_prototype_keys =
     [''constructor'', ''__defineGetter__'', ''__defineSetter__'', ''hasOwnProperty'',
      ''__lookupGetter__'', ''__lookupSetter__'', ''isPrototypeOf'', ''propertyIsEnumerable'',
      ''toString'', ''valueOf'', ''__proto__'', ''toLocaleString'']"

definition obj_in :: "string \<Rightarrow> (string \<times> js) list \<Rightarrow> bool" where
  "obj_in k kvs = (k \<in> set (okeys kvs) \<or> k \<in> set object_prototype_keys)"

text \<open>The array index a property name denotes: a canonical decimal numeral.\<close>

definition array_index :: "string \<Rightarrow> nat option" where
  "array_index k =
     (if k \<noteq> [] \<and> list_all is_digit k \<and> show_nat (digits_val k) = k then Some (digits_val k) else None)"

text \<open>
  \<open>v[k]\<close> on own properties, for a non-nullish \<open>v\<close> (reading a property of a nullish value throws;
  every caller tests for it first).  Properties inherited from a prototype are functions and
  are read as undefined here.
\<close>

fun js_get :: "js \<Rightarrow> string \<Rightarrow> js" where
  "js_get (JObj kvs) k = (case oget kvs k of Some v \<Rightarrow> v | None \<Rightarrow> JUndef)"
| "js_get (JArr vs) k =
     (if k = ''length'' then JNum (of_nat (length vs))
      else case array_index k of
             Some i \<Rightarrow> if i < length vs then vs ! i else JUndef
           | None \<Rightarrow> JUndef)"
| "js_get (JStr s) k =
     (if k = ''length'' then JNum (of_nat (length s))
      else case array_index k of
             Some i \<Rightarrow> if i < length s then JStr [s ! i] else JUndef
           | None \<Rightarrow> JUndef)"
| "js_get _ k = JUndef"

text \<open>\<open>k in v\<close> for an object or array.\<close>

fun js_in :: "string \<Rightarrow> js \<Rightarrow> bool" where
  "js_in k (JObj kvs) = obj_in k kvs"
| "js_in k (JArr vs) =
     (k = ''length'' \<or> k \<in> set object_prototype_keys
      \<or> (case array_index k of Some i \<Rightarrow> i < length vs | None \<Rightarrow> False))"
| "js_in k _ = False"

text \<open>\<open>Object.entries(v)\<close>.\<close>

fun js_entries :: "js \<Rightarrow> (string \<times> js) list" where
  "js_entries (JObj kvs) = kvs"
| "js_entries (JArr vs) = map (\<lambda>(i, v). (show_nat i, v)) (enumerate 0 vs)"
| "js_entries (JStr s) = map (\<lambda>(i, c). (show_nat i, JStr [c])) (enumerate 0 s)"
| "js_entries _ = []"

text \<open>A path walk \<open>cur = cur[p]\<close> that stops with undefined at a nullish value.\<close>

fun js_walk :: "js \<Rightarrow> string list \<Rightarrow> js" where
  "js_walk cur [] = cur"
| "js_walk cur (p # ps) = (if nullish cur then JUndef else js_walk (js_get cur p) ps)"

lemma js_walk_append:
  "js_walk cur (ps @ qs) =
     (if nullish (js_walk cur ps) \<and> qs \<noteq> [] then JUndef else js_walk (js_walk cur ps) qs)"
proof (induction ps arbitrary: cur)
  case Nil
  then show ?case by (cases qs) auto
next
  case (Cons p ps)
  then show ?case by (cases qs) auto
qed

lemma js_walk_nullish: "nullish cur \<Longrightarrow> ps \<noteq> [] \<Longrightarrow> js_walk cur ps = JUndef"
  by (cases ps) auto

lemma array_index_show_nat [simp]: "array_index (show_nat n) = Some n"
  using show_nat_digits by (simp add: array_index_def list_all_iff)

lemma js_get_arr_nth [js_simps]: "i < length vs \<Longrightarrow> js_get (JArr vs) (show_nat i) = vs ! i"
proof -
  assume i: "i < length vs"
  have "show_nat i \<noteq> ''length''"
  proof
    assume "show_nat i = ''length''"
    then have "is_digit (CHR ''l'')" using show_nat_digits [of i] by simp
    then show False by (simp add: is_digit_def)
  qed
  with i show ?thesis by simp
qed

end
