(* ===== verification/JsString.thy ===== *)
theory JsString
  imports JsValue
begin

text \<open>
  The \<open>String\<close> methods the sources call (\<open>trim\<close>, \<open>split\<close>, \<open>indexOf\<close>, \<open>slice\<close>, \<open>includes\<close>,
  \<open>startsWith\<close>, \<open>endsWith\<close>, \<open>toLowerCase\<close>, \<open>toUpperCase\<close>, \<open>join\<close>) and the conversions \<open>parseInt(s, 10)\<close>
  and \<open>Number(v)\<close>.
\<close>

section \<open>Character classes\<close>

text \<open>White space as \<open>trim\<close> and the class \<open>\s\<close> see it.\<close>

definition is_space :: "char \<Rightarrow> bool" where
  "is_space c = ((of_char c :: nat) \<in> {9, 10, 11, 12, 13, 32, 160})"

definition to_lower :: "char \<Rightarrow> char" where
  "to_lower c = (let n = (of_char c :: nat) in
     if 65 \<le> n \<and> n \<le> 90 \<or> 192 \<le> n \<and> n \<le> 222 \<and> n \<noteq> 215 then char_of (n + 32) else c)"

text \<open>Upper case is only applied to ASCII text in the sources.\<close>

definition to_upper :: "char \<Rightarrow> char" where
  "to_upper c = (let n = (of_char c :: nat) in
     if 97 \<le> n \<and> n \<le> 122 then char_of (n - 32) else c)"

definition lower_str :: "string \<Rightarrow> string" where
  "lower_str s = map to_lower s"

definition upper_str :: "string \<Rightarrow> string" where
  "upper_str s = map to_upper s"

lemma length_lower_str [simp]: "length (lower_str s) = length s"
  by (simp add: lower_str_def)

lemma to_lower_idem [simp]: "to_lower (to_lower c) = to_lower c"
proof -
  have b: "(of_char c :: nat) < 256" by simp
  show ?thesis
    using b by (auto simp: to_lower_def Let_def)
qed

lemma lower_str_idem [simp]: "lower_str (lower_str s) = lower_str s"
  by (simp add: lower_str_def)

lemma is_digit_not_space: "is_digit c \<Longrightarrow> \<not> is_space c"
  by (auto simp: is_digit_def is_space_def)

section \<open>Trimming\<close>

definition trim :: "string \<Rightarrow> string" where
  "trim s = rev (dropWhile is_space (rev (dropWhile is_space s)))"

lemma dropWhile_rev_dropWhile:
  "(s = [] \<or> \<not> P (hd s)) \<Longrightarrow> (let t = rev (dropWhile P (rev s)) in t = [] \<or> \<not> P (hd t))"
proof (cases s)
  case Nil
  then show ?thesis by simp
next
  case (Cons a list)
  assume "s = [] \<or> \<not> P (hd s)"
  with Cons have a: "\<not> P a" by simp
  show ?thesis
  proof (cases "\<forall>x \<in> set list. P x")
    case True
    then have "dropWhile P (rev list @ [a]) = [a]" using a by (auto simp: dropWhile_append)
    then show ?thesis using Cons a by simp
  next
    case False
    then obtain x where "x \<in> set (rev list)" "\<not> P x" by auto
    then have "dropWhile P (rev list @ [a]) = dropWhile P (rev list) @ [a]"
      by (meson dropWhile_append1)
    then show ?thesis using Cons a by (simp add: Let_def)
  qed
qed

lemma dropWhile_hd_id: "xs = [] \<or> \<not> P (hd xs) \<Longrightarrow> dropWhile P xs = xs"
  by (cases xs) auto

lemma trim_Nil [simp]: "trim [] = []"
  by (simp add: trim_def)

lemma trim_hd: "trim s = [] \<or> \<not> is_space (hd (trim s))"
proof -
  have "dropWhile is_space s = [] \<or> \<not> is_space (hd (dropWhile is_space s))"
    using hd_dropWhile by blast
  from dropWhile_rev_dropWhile [where P = is_space, OF this] show ?thesis
    by (simp add: trim_def Let_def)
qed

lemma trim_last: "trim s = [] \<or> \<not> is_space (last (trim s))"
proof -
  let ?r = "dropWhile is_space (rev (dropWhile is_space s))"
  have "?r = [] \<or> \<not> is_space (hd ?r)" using hd_dropWhile by blast
  then show ?thesis by (auto simp: trim_def last_rev)
qed

lemma trim_id: "s = [] \<or> \<not> is_space (hd s) \<and> \<not> is_space (last s) \<Longrightarrow> trim s = s"
  by (cases "s = []") (auto simp: trim_def dropWhile_hd_id hd_rev)

theorem trim_idem [simp]: "trim (trim s) = trim s"
  using trim_hd [of s] trim_last [of s] by (intro trim_id) auto

lemma length_dropWhile_le: "length (dropWhile P xs) \<le> length xs"
  by (induction xs) auto

lemma length_trim: "length (trim s) \<le> length s"
  unfolding trim_def
  by (metis length_dropWhile_le length_rev order_trans)

lemma set_trim: "set (trim s) \<subseteq> set s"
  by (auto simp: trim_def dest!: set_dropWhileD)

lemma trim_digits: "list_all is_digit s \<Longrightarrow> trim s = s"
proof (intro trim_id)
  assume a: "list_all is_digit s"
  show "s = [] \<or> \<not> is_space (hd s) \<and> \<not> is_space (last s)"
    using a by (auto simp: list_all_iff is_digit_not_space)
qed

section \<open>Searching, slicing and splitting\<close>

fun starts_with :: "string \<Rightarrow> string \<Rightarrow> bool" where
  "starts_with s [] = True"
| "starts_with [] (p # ps) = False"
| "starts_with (c # cs) (p # ps) = (c = p \<and> starts_with cs ps)"

lemma starts_with_iff: "starts_with s p \<longleftrightarrow> (\<exists>t. s = p @ t)"
  by (induction s p rule: starts_with.induct) auto

lemma starts_with_append [simp]: "starts_with (p @ t) p"
  by (auto simp: starts_with_iff)

lemma starts_with_take: "starts_with s p \<longleftrightarrow> take (length p) s = p"
  by (induction s p rule: starts_with.induct) auto

definition ends_with :: "string \<Rightarrow> string \<Rightarrow> bool" where
  "ends_with s p = starts_with (rev s) (rev p)"

text \<open>\<open>s.indexOf(p)\<close>, with None for -1.\<close>

fun index_of :: "string \<Rightarrow> string \<Rightarrow> nat option" where
  "index_of [] p = (if p = [] then Some 0 else None)"
| "index_of (c # cs) p = (if starts_with (c # cs) p then Some 0 else map_option Suc (index_of cs p))"

definition str_includes :: "string \<Rightarrow> string \<Rightarrow> bool" where
  "str_includes s p = (index_of s p \<noteq> None)"

lemma index_of_Some: "index_of s p = Some i \<Longrightarrow> i \<le> length s \<and> starts_with (drop i s) p"
proof (induction s arbitrary: i)
  case Nil
  then show ?case by (auto split: if_splits)
next
  case (Cons c cs)
  then show ?case by (auto split: if_splits)
qed

lemma index_of_first: "index_of s p = Some i \<Longrightarrow> j < i \<Longrightarrow> \<not> starts_with (drop j s) p"
proof (induction s arbitrary: i j)
  case Nil
  then show ?case by (auto split: if_splits)
next
  case (Cons c cs)
  then show ?case by (cases j) (auto split: if_splits)
qed

lemma str_includes_iff: "str_includes s p \<longleftrightarrow> (\<exists>a b. s = a @ p @ b)"
proof (induction s)
  case Nil
  then show ?case by (auto simp: str_includes_def)
next
  case (Cons c cs)
  have "str_includes (c # cs) p \<longleftrightarrow> starts_with (c # cs) p \<or> str_includes cs p"
    by (auto simp: str_includes_def)
  also have "\<dots> \<longleftrightarrow> (\<exists>b. c # cs = p @ b) \<or> (\<exists>a b. cs = a @ p @ b)"
    by (simp add: Cons.IH starts_with_iff)
  also have "\<dots> \<longleftrightarrow> (\<exists>a b. c # cs = a @ p @ b)"
    by (metis append_Cons append_Nil list.sel(3) tl_append2 Cons_eq_append_conv)
  finally show ?case .
qed

text \<open>\<open>s.slice(i, j)\<close> for \<open>0 \<le> i\<close>, \<open>j\<close>, and \<open>s.slice(-n)\<close>.\<close>

definition slice :: "nat \<Rightarrow> nat \<Rightarrow> 'a list \<Rightarrow> 'a list" where
  "slice i j s = drop i (take j s)"

definition slice_last :: "nat \<Rightarrow> 'a list \<Rightarrow> 'a list" where
  "slice_last n s = drop (length s - n) s"

lemma length_slice [simp]: "length (slice i j s) = min j (length s) - i"
  by (simp add: slice_def min_def)

text \<open>\<open>s.split(sep)\<close> for a non-empty separator.\<close>

fun split_acc :: "string \<Rightarrow> string \<Rightarrow> string \<Rightarrow> string list" where
  "split_acc sep acc [] = [rev acc]"
| "split_acc sep acc (c # cs) =
     (if sep \<noteq> [] \<and> starts_with (c # cs) sep
      then rev acc # split_acc sep [] (drop (length sep - 1) cs)
      else split_acc sep (c # acc) cs)"

definition split_str :: "string \<Rightarrow> string \<Rightarrow> string list" where
  "split_str sep s = split_acc sep [] s"

lemma split_acc_nonempty [simp]: "split_acc sep acc s \<noteq> []"
  by (induction sep acc s rule: split_acc.induct) auto

lemma split_str_nonempty [simp]: "split_str sep s \<noteq> []"
  by (simp add: split_str_def)

lemma join_str_Cons: "xs \<noteq> [] \<Longrightarrow> join_str sep (x # xs) = x @ sep @ join_str sep xs"
  by (cases xs) auto

lemma join_split_acc: "join_str sep (split_acc sep acc s) = rev acc @ s"
proof (induction sep acc s rule: split_acc.induct)
  case (1 sep acc)
  then show ?case by simp
next
  case (2 sep acc c cs)
  show ?case
  proof (cases "sep \<noteq> [] \<and> starts_with (c # cs) sep")
    case True
    then have e: "sep @ drop (length sep - 1) cs = c # cs"
      by (cases sep) (auto simp: starts_with_iff)
    have "join_str sep (split_acc sep acc (c # cs)) = rev acc @ sep @ drop (length sep - 1) cs"
      using True 2 by (simp add: join_str_Cons)
    then show ?thesis by (simp only: e)
  next
    case False
    with 2 show ?thesis by auto
  qed
qed

theorem join_split_str: "join_str sep (split_str sep s) = s"
  by (simp add: split_str_def join_split_acc)

lemma split_acc_char:
  "x \<in> set (split_acc [d] acc s) \<Longrightarrow> d \<notin> set acc \<Longrightarrow> d \<notin> set x"
  by (induction "[d]" acc s rule: split_acc.induct) (auto split: if_splits)

lemma split_str_char: "x \<in> set (split_str [d] s) \<Longrightarrow> d \<notin> set x"
  using split_acc_char [of x d "[]" s] by (simp add: split_str_def)

lemma split_acc_no_sep: "d \<notin> set s \<Longrightarrow> split_acc [d] acc s = [rev acc @ s]"
  by (induction "[d]" acc s rule: split_acc.induct) auto

lemma split_str_no_sep: "d \<notin> set s \<Longrightarrow> split_str [d] s = [s]"
  by (simp add: split_str_def split_acc_no_sep)

lemma split_acc_append: "d \<notin> set s \<Longrightarrow> split_acc [d] acc (s @ d # t) = (rev acc @ s) # split_acc [d] [] t"
  by (induction s arbitrary: acc) auto

lemma split_str_append: "d \<notin> set s \<Longrightarrow> split_str [d] (s @ d # t) = s # split_str [d] t"
  by (simp add: split_str_def split_acc_append)

theorem split_join_str:
  "xs \<noteq> [] \<Longrightarrow> (\<And>x. x \<in> set xs \<Longrightarrow> d \<notin> set x) \<Longrightarrow> split_str [d] (join_str [d] xs) = xs"
proof (induction xs)
  case Nil
  then show ?case by simp
next
  case (Cons x xs)
  show ?case
  proof (cases xs)
    case Nil
    then show ?thesis using Cons.prems by (simp add: split_str_no_sep)
  next
    case (Cons y ys)
    then have "join_str [d] (x # xs) = x @ d # join_str [d] xs" by simp
    moreover have "split_str [d] (join_str [d] xs) = xs"
      using Cons.IH Cons.prems Cons by auto
    ultimately show ?thesis using Cons.prems by (simp add: split_str_append)
  qed
qed

lemma split_acc_length: "x \<in> set (split_acc sep acc s) \<Longrightarrow> length x \<le> length acc + length s"
proof (induction sep acc s rule: split_acc.induct)
  case (1 sep acc)
  then show ?case by simp
next
  case (2 sep acc c cs)
  then show ?case by (auto split: if_splits)
qed

lemma split_str_length: "x \<in> set (split_str sep s) \<Longrightarrow> length x \<le> length s"
  using split_acc_length [of x sep "[]" s] by (simp add: split_str_def)

section \<open>Reading numbers\<close>

text \<open>\<open>parseInt(s, 10)\<close>: leading white space, a sign, then the longest run of digits; None is NaN.\<close>

definition parse_int :: "string \<Rightarrow> int option" where
  "parse_int s0 =
     (let s = dropWhile is_space s0;
          neg = (s \<noteq> [] \<and> hd s = CHR ''-'');
          u = (if s \<noteq> [] \<and> hd s \<in> set ''+-'' then tl s else s);
          ds = takeWhile is_digit u
      in if ds = [] then None
         else Some (if neg then - int (digits_val ds) else int (digits_val ds)))"

lemma takeWhile_all: "list_all P xs \<Longrightarrow> takeWhile P xs = xs"
  by (induction xs) auto

lemma parse_int_show_nat [simp]: "parse_int (show_nat n) = Some (int n)"
proof -
  have d: "list_all is_digit (show_nat n)" using show_nat_digits by (simp add: list_all_iff)
  have h: "is_digit (hd (show_nat n))" using show_nat_digits [of n] by (simp add: hd_in_set)
  have ns: "dropWhile is_space (show_nat n) = show_nat n"
    by (intro dropWhile_hd_id) (simp add: h is_digit_not_space)
  have sg: "hd (show_nat n) \<notin> set ''+-''" using h by (auto simp: is_digit_def)
  then have "hd (show_nat n) \<noteq> CHR ''-''" by auto
  with sg show ?thesis
    unfolding parse_int_def Let_def ns by (simp add: takeWhile_all [OF d])
qed

text \<open>
  \<open>Number(s)\<close> of a string: trimmed; empty is 0; a decimal literal with optional sign, fraction
  and exponent; the word Infinity; a hexadecimal literal; anything else is NaN.
\<close>

definition frac_val :: "string \<Rightarrow> rat" where
  "frac_val ds = of_nat (digits_val ds) / 10 ^ length ds"

definition number_exponent :: "string \<Rightarrow> int option" where
  "number_exponent e =
     (case e of [] \<Rightarrow> Some 0
      | c # r \<Rightarrow>
          if c \<in> set ''eE'' then
            (let neg = (r \<noteq> [] \<and> hd r = CHR ''-'');
                 ds = (if r \<noteq> [] \<and> hd r \<in> set ''+-'' then tl r else r)
             in if ds \<noteq> [] \<and> list_all is_digit ds
                then Some (if neg then - int (digits_val ds) else int (digits_val ds)) else None)
          else None)"

definition pow10 :: "int \<Rightarrow> rat" where
  "pow10 e = (if e < 0 then 1 / 10 ^ nat (- e) else 10 ^ nat e)"

definition number_unsigned :: "string \<Rightarrow> jsnum" where
  "number_unsigned s =
     (if s = ''Infinity'' then PosInf else
      let ip = takeWhile is_digit s; r1 = dropWhile is_digit s;
          dot = (r1 \<noteq> [] \<and> hd r1 = CHR ''.'');
          fp = (if dot then takeWhile is_digit (tl r1) else []);
          r2 = (if dot then dropWhile is_digit (tl r1) else r1)
      in if ip = [] \<and> fp = [] then NaN
         else case number_exponent r2 of None \<Rightarrow> NaN
              | Some e \<Rightarrow> Fin ((of_nat (digits_val ip) + frac_val fp) * pow10 e))"

definition hex_val :: "char \<Rightarrow> nat option" where
  "hex_val c = (let n = (of_char c :: nat) in
     if is_digit c then Some (n - 48)
     else if 97 \<le> n \<and> n \<le> 102 then Some (n - 87)
     else if 65 \<le> n \<and> n \<le> 70 then Some (n - 55) else None)"

fun hex_digits :: "nat \<Rightarrow> string \<Rightarrow> nat option" where
  "hex_digits a [] = Some a"
| "hex_digits a (c # cs) = (case hex_val c of None \<Rightarrow> None | Some d \<Rightarrow> hex_digits (16 * a + d) cs)"

fun neg_num :: "jsnum \<Rightarrow> jsnum" where
  "neg_num NaN = NaN"
| "neg_num PosInf = NegInf"
| "neg_num NegInf = PosInf"
| "neg_num (Fin r) = Fin (- r)"

definition number_of_string :: "string \<Rightarrow> jsnum" where
  "number_of_string s0 =
     (let s = trim s0 in
      if s = [] then Fin 0
      else if starts_with s ''0x'' \<or> starts_with s ''0X'' then
        (if length s = 2 then NaN
         else case hex_digits 0 (drop 2 s) of None \<Rightarrow> NaN | Some n \<Rightarrow> Fin (of_nat n))
      else if hd s = CHR ''-'' then neg_num (number_unsigned (tl s))
      else if hd s = CHR ''+'' then number_unsigned (tl s)
      else number_unsigned s)"

text \<open>\<open>Number(v)\<close>.\<close>

definition js_number :: "js \<Rightarrow> jsnum" where
  "js_number v =
     (case v of JUndef \<Rightarrow> NaN | JNull \<Rightarrow> Fin 0 | JBool b \<Rightarrow> Fin (if b then 1 else 0)
      | JNum r \<Rightarrow> Fin r | JStr s \<Rightarrow> number_of_string s
      | JArr _ \<Rightarrow> number_of_string (js_string v) | JObj _ \<Rightarrow> NaN)"

text \<open>\<open>a < b\<close> on numbers: every comparison with NaN is false.\<close>

fun num_lt :: "jsnum \<Rightarrow> jsnum \<Rightarrow> bool" where
  "num_lt (Fin a) (Fin b) = (a < b)"
| "num_lt NegInf (Fin b) = True"
| "num_lt NegInf PosInf = True"
| "num_lt (Fin a) PosInf = True"
| "num_lt _ _ = False"

text \<open>\<open>Number(v) || d\<close> and \<open>Number.isFinite(v)\<close>.\<close>

definition number_or :: "js \<Rightarrow> jsnum \<Rightarrow> jsnum" where
  "number_or v d = (case js_number v of NaN \<Rightarrow> d | Fin r \<Rightarrow> if r = 0 then d else Fin r | x \<Rightarrow> x)"

end
