(* ===== verification/Errors.thy ===== *)
theory Errors
  imports JsString
begin

text \<open>
  The error values of \<open>backend/src/utils/errors.js\<close> and of the engine: a message, the \<open>code\<close> and
  \<open>status\<close> properties where the class sets them, and its \<open>details\<close>.  A thrown error is the left
  value of a sum.
\<close>

record js_error =
  e_message :: string
  e_code :: "string option"
  e_status :: "nat option"
  e_details :: js

type_synonym 'a js_result = "js_error + 'a"

definition plain_error :: "string \<Rightarrow> js_error" where
  "plain_error m = \<lparr>e_message = m, e_code = None, e_status = None, e_details = JUndef\<rparr>"

definition http_error :: "nat \<Rightarrow> string \<Rightarrow> string \<Rightarrow> js \<Rightarrow> js_error" where
  "http_error status code m details =
     \<lparr>e_message = m, e_code = Some code, e_status = Some status, e_details = details\<rparr>"

definition validation_error :: "string \<Rightarrow> js \<Rightarrow> js_error" where
  "validation_error m details = http_error 400 ''VALIDATION_ERROR'' m details"

definition not_found_error :: "string \<Rightarrow> js_error" where
  "not_found_error resource = http_error 404 ''NOT_FOUND'' (resource @ '' not found'') JUndef"

definition unauthorized_error :: "string \<Rightarrow> js_error" where
  "unauthorized_error m = http_error 401 ''UNAUTHORIZED'' m JUndef"

definition forbidden_error :: "string \<Rightarrow> js \<Rightarrow> js_error" where
  "forbidden_error m details = http_error 403 ''FORBIDDEN'' m details"

definition conflict_error :: "string \<Rightarrow> js \<Rightarrow> js_error" where
  "conflict_error m details = http_error 409 ''CONFLICT'' m details"

lemmas error_defs = plain_error_def http_error_def validation_error_def not_found_error_def
  unauthorized_error_def forbidden_error_def conflict_error_def

text \<open>A quoted name inside a message: \<open>"..."\<close>.\<close>

definition quoted :: "string \<Rightarrow> string" where
  "quoted s = CHR 0x22 # s @ [CHR 0x22]"

end
