(* ===== verification/Workflow.thy ===== *)
theory Workflow
  imports Errors
begin

text \<open>
  The parsed workflow: the documents that \<open>dagSchema\<close> (backend/src/dsl/schema.js) describes.
  The schema validator itself (Ajv) is not code of the repository; what it leaves behind, with
  \<open>useDefaults\<close>, is read here by \<open>decode_workflow\<close>: each declared property becomes a field, an
  absent property is undefined (or the empty string for the optional string properties, which
  the engine only tests for truth), and the schema's defaults are applied.
\<close>

record node =
  n_name :: string
  n_action :: string
  n_inputs :: js
  n_outputs :: js
  n_executeIf :: string
  n_retry :: js
  n_retryDelay :: js
  n_timeout :: js
  n_onError :: string
  n_batchOver :: string
  n_outputVar :: string

record edge =
  e_from :: string
  e_to :: string

record workflow =
  w_name :: string
  w_timeout :: js
  w_nodeTimeout :: js
  w_maxIterations :: js
  w_maxTokens :: js
  w_data :: "(string \<times> js) list"
  w_nodes :: "node list"
  w_edges :: "edge list"

definition js_str_field :: "js \<Rightarrow> string \<Rightarrow> string" where
  "js_str_field v k = (case js_get v k of JStr s \<Rightarrow> s | _ \<Rightarrow> [])"

definition js_obj_field :: "js \<Rightarrow> string \<Rightarrow> (string \<times> js) list" where
  "js_obj_field v k = (case js_get v k of JObj kvs \<Rightarrow> kvs | _ \<Rightarrow> [])"

definition js_arr_field :: "js \<Rightarrow> string \<Rightarrow> js list" where
  "js_arr_field v k = (case js_get v k of JArr vs \<Rightarrow> vs | _ \<Rightarrow> [])"

text \<open>A property with a schema default.\<close>

definition js_default :: "js \<Rightarrow> string \<Rightarrow> js \<Rightarrow> js" where
  "js_default v k d = (case js_get v k of JUndef \<Rightarrow> d | w \<Rightarrow> w)"

definition decode_node :: "js \<Rightarrow> node" where
  "decode_node v =
     \<lparr>n_name = js_str_field v ''name'',
      n_action = js_str_field v ''action'',
      n_inputs = js_default v ''inputs'' (JObj []),
      n_outputs = js_default v ''outputs'' (JObj []),
      n_executeIf = js_str_field v ''executeIf'',
      n_retry = js_default v ''retry'' (JNum 0),
      n_retryDelay = js_default v ''retryDelay'' (JNum 0),
      n_timeout = js_get v ''timeout'',
      n_onError = (case js_get v ''onError'' of JStr s \<Rightarrow> s | _ \<Rightarrow> ''terminate''),
      n_batchOver = js_str_field v ''batchOver'',
      n_outputVar = js_str_field v ''outputVar''\<rparr>"

definition decode_edge :: "js \<Rightarrow> edge" where
  "decode_edge v = \<lparr>e_from = js_str_field v ''from'', e_to = js_str_field v ''to''\<rparr>"

definition decode_workflow :: "js \<Rightarrow> workflow" where
  "decode_workflow v =
     \<lparr>w_name = js_str_field v ''name'',
      w_timeout = js_get v ''timeout'',
      w_nodeTimeout = js_get v ''nodeTimeout'',
      w_maxIterations = js_get v ''maxIterations'',
      w_maxTokens = js_get v ''maxTokens'',
      w_data = js_obj_field v ''data'',
      w_nodes = map decode_node (js_arr_field v ''nodes''),
      w_edges = map decode_edge (js_arr_field v ''edges'')\<rparr>"

definition node_names :: "workflow \<Rightarrow> string list" where
  "node_names w = map n_name (w_nodes w)"

end
