(* ===== verification/Dag.thy ===== *)
theory Dag
  imports Workflow
begin

text \<open>
  \<open>backend/src/engine/scheduler.js\<close> (\<open>buildDag\<close>) and \<open>backend/src/dsl/parser.js\<close> (\<open>parseDag\<close>):
  the adjacency and indegree maps, the checks a workflow document passes before it is stored or
  run, and Kahn's algorithm.  The countdown of indegrees is shared with the executor, which
  rolls its ready-set forward the same way; its facts are proved once in the locale
  \<open>countdown\<close>.

  JSON.parse, the Ajv validator compiled from \<open>dagSchema\<close> and the plugin registry's list of
  required inputs are arguments of \<open>parseDag\<close>.
\<close>

section \<open>Indegree maps\<close>

text \<open>
  A number cell that arithmetic on undefined has turned into NaN is None; reading an absent key
  gives undefined, which every use coerces to NaN.
\<close>

type_synonym degs = "(string, int option) omap"
type_synonym adjacency = "(string, string list) omap"

definition deg_of :: "degs \<Rightarrow> string \<Rightarrow> int option" where
  "deg_of m k = (case oget m k of Some d \<Rightarrow> d | None \<Rightarrow> None)"

definition inc_deg :: "string \<Rightarrow> degs \<Rightarrow> degs" where
  "inc_deg k m = oset k (map_option (\<lambda>d. d + 1) (deg_of m k)) m"

definition dec_deg :: "string \<Rightarrow> degs \<Rightarrow> degs" where
  "dec_deg k m = oset k (map_option (\<lambda>d. d - 1) (deg_of m k)) m"

definition succs_of :: "adjacency \<Rightarrow> string \<Rightarrow> string list" where
  "succs_of adj n = (case oget adj n of Some xs \<Rightarrow> xs | None \<Rightarrow> [])"

lemma deg_of_oset [simp]: "deg_of (oset k d m) k' = (if k' = k then d else deg_of m k')"
  by (simp add: deg_of_def)

lemma deg_of_inc [simp]: "deg_of (inc_deg k m) k' = (if k' = k then map_option (\<lambda>d. d + 1) (deg_of m k) else deg_of m k')"
  by (simp add: inc_deg_def)

lemma deg_of_dec [simp]: "deg_of (dec_deg k m) k' = (if k' = k then map_option (\<lambda>d. d - 1) (deg_of m k) else deg_of m k')"
  by (simp add: dec_deg_def)

text \<open>
  \<open>for (const next of adj.get(n)) { decrement; if it is now 0, push }\<close>, the push guarded by
  \<open>ok\<close> (always true in the parser, "has no result yet" in the executor).
\<close>

definition release_one :: "(string \<Rightarrow> bool) \<Rightarrow> degs \<times> string list \<Rightarrow> string \<Rightarrow> degs \<times> string list" where
  "release_one ok st x =
     (let deg' = dec_deg x (fst st)
      in (deg', if deg_of deg' x = Some 0 \<and> ok x then snd st @ [x] else snd st))"

definition release :: "(string \<Rightarrow> bool) \<Rightarrow> string list \<Rightarrow> degs \<times> string list \<Rightarrow> degs \<times> string list" where
  "release ok xs st = foldl (release_one ok) st xs"

section \<open>The countdown interface\<close>

text \<open>
  What the two schedulers need of an indegree table: a decrement changes one cell, by one.
\<close>

locale countdown =
  fixes deg :: "'m \<Rightarrow> 'k \<Rightarrow> int option"
    and dec :: "'k \<Rightarrow> 'm \<Rightarrow> 'm"
  assumes deg_dec: "deg (dec k m) k' = (if k' = k then map_option (\<lambda>d. d - 1) (deg m k) else deg m k')"
begin

lemma deg_foldl: "deg (foldl (\<lambda>m x. dec x m) m xs) v = map_option (\<lambda>d. d - int (count_list xs v)) (deg m v)"
  by (induction xs arbitrary: m) (auto simp: deg_dec option.map_comp comp_def option.map_ident diff_diff_eq)

lemma count_foldl:
  "foldl (\<lambda>st x. (dec x (fst st), if deg (dec x (fst st)) x = Some 0 \<and> ok x then snd st @ [x] else snd st)) (m, q) xs
     = (m', q') \<Longrightarrow> m' = foldl (\<lambda>m x. dec x m) m xs"
  by (induction xs arbitrary: m q) auto

text \<open>
  As long as no cell is driven below zero, each key is pushed at most once, at the moment the
  last of its pending predecessors is counted down.
\<close>

lemma pushed:
  assumes "\<And>v. v \<in> set xs \<Longrightarrow> \<exists>d. deg m v = Some d \<and> int (count_list xs v) \<le> d"
  shows "\<exists>new. snd (foldl (\<lambda>st x. (dec x (fst st), if deg (dec x (fst st)) x = Some 0 \<and> ok x then snd st @ [x] else snd st)) (m, q) xs)
               = q @ new
           \<and> distinct new \<and> set new = {v \<in> set xs. ok v \<and> deg m v = Some (int (count_list xs v))}"
  using assms
proof (induction xs arbitrary: m q)
  case Nil
  then show ?case by simp
next
  case (Cons x xs)
  let ?f = "\<lambda>st x. (dec x (fst st), if deg (dec x (fst st)) x = Some 0 \<and> ok x then snd st @ [x] else snd st)"
  obtain d where d: "deg m x = Some d" "int (count_list (x # xs) x) \<le> d"
    using Cons.prems [of x] by auto
  have dx: "deg (dec x m) v = (if v = x then Some (d - 1) else deg m v)" for v
    using d by (simp add: deg_dec)
  have pre: "\<exists>e. deg (dec x m) v = Some e \<and> int (count_list xs v) \<le> e" if "v \<in> set xs" for v
    using Cons.prems [of v] that d by (auto simp: dx split: if_splits)
  let ?q = "if deg (dec x m) x = Some 0 \<and> ok x then q @ [x] else q"
  obtain new where new: "snd (foldl ?f (dec x m, ?q) xs) = ?q @ new" "distinct new"
      "set new = {v \<in> set xs. ok v \<and> deg (dec x m) v = Some (int (count_list xs v))}"
    using Cons.IH [OF pre, of ?q] by blast
  have last: "deg (dec x m) x = Some 0 \<longleftrightarrow> d = 1" by (simp add: dx)
  have cx: "x \<in> set xs \<Longrightarrow> 0 < count_list xs x" by (simp add: count_list_pos_iff)
  have mem: "v \<in> set xs \<and> ok v \<and> deg (dec x m) v = Some (int (count_list xs v)) \<or> d = 1 \<and> ok x \<and> v = x
     \<longleftrightarrow> v \<in> set (x # xs) \<and> ok v \<and> deg m v = Some (int (count_list (x # xs) v))" for v
  proof (cases "v = x")
    case True
    show ?thesis
    proof (cases "x \<in> set xs")
      case in_xs: True
      with cx d(2) have "d \<noteq> 1" by simp
      then show ?thesis using True in_xs d(1) by (auto simp: dx)
    next
      case False
      then have "count_list xs x = 0" by (simp add: count_list_0_iff)
      then show ?thesis using True False d(1) by auto
    qed
  qed (auto simp: dx)
  show ?case
  proof (cases "d = 1 \<and> ok x")
    case True
    then have nx: "x \<notin> set xs" using d(2) cx by auto
    have "set (x # new) = {v \<in> set (x # xs). ok v \<and> deg m v = Some (int (count_list (x # xs) v))}"
    proof (rule set_eqI)
      fix v
      show "v \<in> set (x # new) \<longleftrightarrow> v \<in> {v \<in> set (x # xs). ok v \<and> deg m v = Some (int (count_list (x # xs) v))}"
        unfolding mem_Collect_eq mem [symmetric] using True new(3) by auto
    qed
    moreover have "distinct (x # new)" using new nx by auto
    ultimately show ?thesis
      using new(1) True last by (intro exI [of _ "x # new"]) simp
  next
    case False
    have "set new = {v \<in> set (x # xs). ok v \<and> deg m v = Some (int (count_list (x # xs) v))}"
    proof (rule set_eqI)
      fix v
      show "v \<in> set new \<longleftrightarrow> v \<in> {v \<in> set (x # xs). ok v \<and> deg m v = Some (int (count_list (x # xs) v))}"
        unfolding mem_Collect_eq mem [symmetric] using False new(3) by auto
    qed
    then show ?thesis using new(1,2) False last by (intro exI [of _ new]) auto
  qed
qed

end

interpretation degs: countdown deg_of dec_deg
  by unfold_locales simp

lemma release_eq:
  "release ok xs (m, q) =
     foldl (\<lambda>st x. (dec_deg x (fst st), if deg_of (dec_deg x (fst st)) x = Some 0 \<and> ok x then snd st @ [x] else snd st)) (m, q) xs"
  unfolding release_def
  by (rule arg_cong [where f = "\<lambda>f. foldl f (m, q) xs"]) (auto simp: release_one_def Let_def fun_eq_iff)

lemma release_deg: "deg_of (fst (release ok xs (m, q))) v = map_option (\<lambda>d. d - int (count_list xs v)) (deg_of m v)"
proof -
  obtain m' q' where r: "release ok xs (m, q) = (m', q')" by fastforce
  then have "m' = foldl (\<lambda>m x. dec_deg x m) m xs"
    using degs.count_foldl unfolding release_eq by blast
  then show ?thesis using r by (simp add: degs.deg_foldl)
qed

lemmas release_pushed = degs.pushed [folded release_eq]

text \<open>Every release lowers the number of positive cells by what it pushes.\<close>

definition pos_count :: "degs \<Rightarrow> nat" where
  "pos_count m = length (filter (\<lambda>e. case snd e of Some d \<Rightarrow> 0 < d | None \<Rightarrow> False) m)"

lemma pos_count_oset:
  "pos_count (oset k d m) + (if (case deg_of m k of Some e \<Rightarrow> 0 < e | None \<Rightarrow> False) then 1 else 0)
   = pos_count m + (if (case d of Some e \<Rightarrow> 0 < e | None \<Rightarrow> False) then 1 else 0)"
  by (induction k d m rule: oset.induct) (auto simp: pos_count_def deg_of_def split: option.splits)

lemma release_one_measure:
  "pos_count (fst (release_one ok st x)) + length (snd (release_one ok st x))
   \<le> pos_count (fst st) + length (snd st)"
proof (cases "deg_of (fst st) x")
  case None
  then show ?thesis
    using pos_count_oset [of x None "fst st"] by (simp add: release_one_def Let_def dec_deg_def)
next
  case (Some d)
  have m: "pos_count (oset x (Some (d - 1)) (fst st)) + (if 0 < d then 1 else 0)
      = pos_count (fst st) + (if 1 < d then 1 else 0)"
    using pos_count_oset [of x "Some (d - 1)" "fst st"] Some by simp
  have r: "fst (release_one ok st x) = oset x (Some (d - 1)) (fst st)"
       "snd (release_one ok st x) = (if d = 1 \<and> ok x then snd st @ [x] else snd st)"
    using Some by (simp_all add: release_one_def Let_def dec_deg_def)
  show ?thesis using m unfolding r by (cases "d = 1") (auto split: if_splits)
qed

lemma release_measure:
  "pos_count (fst (release ok xs st)) + length (snd (release ok xs st)) \<le> pos_count (fst st) + length (snd st)"
  unfolding release_def
proof (induction xs arbitrary: st)
  case Nil
  then show ?case by simp
next
  case (Cons x xs)
  show ?case using Cons.IH [of "release_one ok st x"] release_one_measure [of ok st x] by (simp del: add_le_cancel_left)
qed

section \<open>buildDag\<close>

record dag =
  d_adj :: adjacency
  d_indegree :: degs
  d_byName :: "(string, node) omap"
  d_roots :: "string list"

text \<open>
  \<open>adj.get(e.from).push(e.to); indegree.set(e.to, indegree.get(e.to) + 1)\<close> for every edge: an
  edge from an unknown node throws, one to an unknown node leaves a NaN cell.
\<close>

definition push_undefined_error :: js_error where
  "push_undefined_error = plain_error ''Cannot read properties of undefined (reading 'push')''"

fun link_edges :: "edge list \<Rightarrow> adjacency \<times> degs \<Rightarrow> (adjacency \<times> degs) js_result" where
  "link_edges [] st = Inr st"
| "link_edges (e # es) (adj, deg) =
     (case oget adj (e_from e) of
        None \<Rightarrow> Inl push_undefined_error
      | Some xs \<Rightarrow> link_edges es (oset (e_from e) (xs @ [e_to e]) adj, inc_deg (e_to e) deg))"

definition zero_keys :: "degs \<Rightarrow> string list" where
  "zero_keys m = map fst (filter (\<lambda>e. snd e = Some 0) m)"

definition buildDag :: "node list \<Rightarrow> edge list \<Rightarrow> dag js_result" where
  "buildDag ns es =
     (let adj = foldl (\<lambda>m n. oset (n_name n) [] m) [] ns;
          deg = foldl (\<lambda>m n. oset (n_name n) (Some 0) m) [] ns;
          byName = foldl (\<lambda>m n. oset (n_name n) n m) [] ns
      in case link_edges es (adj, deg) of
           Inl e \<Rightarrow> Inl e
         | Inr (adj', deg') \<Rightarrow>
             Inr \<lparr>d_adj = adj', d_indegree = deg', d_byName = byName, d_roots = zero_keys deg'\<rparr>)"

section \<open>Kahn's algorithm\<close>

text \<open>
  The loop \<open>while (queue.length)\<close>.  The code counts the nodes it shifts; the model keeps them,
  in order, and counts at the end.
\<close>

function kahn :: "adjacency \<Rightarrow> degs \<Rightarrow> string list \<Rightarrow> string list \<Rightarrow> string list" where
  "kahn adj deg [] visited = visited"
| "kahn adj deg (n # q) visited =
     (let st = release (\<lambda>_. True) (succs_of adj n) (deg, q)
      in kahn adj (fst st) (snd st) (visited @ [n]))"
  by pat_completeness auto
termination
  by (relation "measure (\<lambda>(adj, deg, q, visited). pos_count deg + length q)")
     (use release_measure in \<open>force simp: less_Suc_eq_le Let_def\<close>)+

section \<open>parseDag\<close>

text \<open>\<open>normalizeKeyValueList\<close>: an array of objects becomes one object; a duplicate key throws.
  The test \<open>k in out\<close> also sees the names inherited from Object.prototype.\<close>

fun add_entries :: "string \<Rightarrow> (string \<times> js) list \<Rightarrow> (string \<times> js) list \<Rightarrow> ((string \<times> js) list) js_result" where
  "add_entries loc [] out = Inr out"
| "add_entries loc ((k, v) # kvs) out =
     (if obj_in k out then Inl (validation_error (loc @ '': duplicate key '' @ quoted k) JUndef)
      else add_entries loc kvs (oset k v out))"

fun add_items :: "string \<Rightarrow> js list \<Rightarrow> (string \<times> js) list \<Rightarrow> ((string \<times> js) list) js_result" where
  "add_items loc [] out = Inr out"
| "add_items loc (item # rest) out =
     (case item of
        JObj kvs \<Rightarrow> (case add_entries loc kvs out of Inl e \<Rightarrow> Inl e | Inr out' \<Rightarrow> add_items loc rest out')
      | _ \<Rightarrow> Inl (validation_error (loc @ '': array entries must be single-key objects'') JUndef))"

definition normalizeKeyValueList :: "js \<Rightarrow> string \<Rightarrow> js js_result" where
  "normalizeKeyValueList v loc =
     (if nullish v then Inr (JObj [])
      else case v of
        JArr items \<Rightarrow> (case add_items loc items [] of Inl e \<Rightarrow> Inl e | Inr out \<Rightarrow> Inr (JObj out))
      | _ \<Rightarrow> Inr v)"

definition normalize_node :: "node \<Rightarrow> node js_result" where
  "normalize_node n =
     (case normalizeKeyValueList (n_inputs n) (''node '' @ n_name n @ ''.inputs'') of
        Inl e \<Rightarrow> Inl e
      | Inr ins \<Rightarrow>
          (case normalizeKeyValueList (n_outputs n) (''node '' @ n_name n @ ''.outputs'') of
             Inl e \<Rightarrow> Inl e
           | Inr outs \<Rightarrow> Inr (n\<lparr>n_inputs := ins, n_outputs := outs\<rparr>)))"

fun check_unique :: "string list \<Rightarrow> string list \<Rightarrow> unit js_result" where
  "check_unique seen [] = Inr ()"
| "check_unique seen (n # ns) =
     (if n \<in> set seen then Inl (validation_error (''Duplicate node name '' @ quoted n) JUndef)
      else check_unique (n # seen) ns)"

fun check_edges :: "string list \<Rightarrow> edge list \<Rightarrow> unit js_result" where
  "check_edges ns [] = Inr ()"
| "check_edges ns (e # es) =
     (if e_from e \<notin> set ns then
        Inl (validation_error (''Edge references unknown source node '' @ quoted (e_from e)) JUndef)
      else if e_to e \<notin> set ns then
        Inl (validation_error (''Edge references unknown target node '' @ quoted (e_to e)) JUndef)
      else if e_from e = e_to e then
        Inl (validation_error (''Self-loop on node '' @ quoted (e_from e) @ '' is not allowed'') JUndef)
      else check_edges ns es)"

definition blank :: "js \<Rightarrow> bool" where
  "blank v = (nullish v \<or> v = JStr [])"

fun check_keys :: "node \<Rightarrow> string list \<Rightarrow> unit js_result" where
  "check_keys n [] = Inr ()"
| "check_keys n (k # ks) =
     (if blank (js_get (n_inputs n) k) then
        Inl (validation_error (''node '' @ quoted (n_name n) @ '' missing required input '' @ quoted k)
          (JArr [JObj [(''path'', JStr (''nodes.'' @ n_name n @ ''.inputs.'' @ k)),
                       (''message'', JStr (''required for action '' @ quoted (n_action n)))]]))
      else check_keys n ks)"

text \<open>\<open>required a\<close>: None when \<open>registry.get(a)\<close> throws, else the plugin's required input names.\<close>

fun check_required :: "(string \<Rightarrow> string list option) \<Rightarrow> node list \<Rightarrow> unit js_result" where
  "check_required required [] = Inr ()"
| "check_required required (n # ns) =
     (case required (n_action n) of
        None \<Rightarrow> check_required required ns
      | Some ks \<Rightarrow> (case check_keys n ks of Inl e \<Rightarrow> Inl e | Inr _ \<Rightarrow> check_required required ns))"

definition check_acyclic :: "string list \<Rightarrow> edge list \<Rightarrow> unit js_result" where
  "check_acyclic ns es =
     (case link_edges es (foldl (\<lambda>m n. oset n [] m) [] ns, foldl (\<lambda>m n. oset n (Some 0) m) [] ns) of
        Inl e \<Rightarrow> Inl e
      | Inr (adj, deg) \<Rightarrow>
          if length (kahn adj deg (zero_keys deg) []) \<noteq> length ns
          then Inl (validation_error ''DAG contains a cycle'' JUndef) else Inr ())"

definition check_workflow :: "(string \<Rightarrow> string list option) \<Rightarrow> workflow \<Rightarrow> workflow js_result" where
  "check_workflow required w =
     (case res_map normalize_node (w_nodes w) of
        Inl e \<Rightarrow> Inl e
      | Inr ns \<Rightarrow>
          (let names = map n_name ns in
           res_bind (check_unique [] names) (\<lambda>_.
           res_bind (check_edges names (w_edges w)) (\<lambda>_.
           res_bind (check_required required ns) (\<lambda>_.
           res_bind (check_acyclic names (w_edges w)) (\<lambda>_.
             Inr (w\<lparr>w_nodes := ns\<rparr>)))))))"

text \<open>
  \<open>json\<close> is JSON.parse, \<open>ajv\<close> the compiled validator: its list of errors (empty when the value is
  valid) and the value with the schema's defaults filled in.
\<close>

definition parseDag ::
  "(string \<Rightarrow> js js_result) \<Rightarrow> (js \<Rightarrow> js list \<times> js) \<Rightarrow> (string \<Rightarrow> string list option) \<Rightarrow> js \<Rightarrow> workflow js_result" where
  "parseDag json ajv required input =
     (case (case input of
              JStr s \<Rightarrow> (case json s of
                  Inl e \<Rightarrow> Inl (validation_error ''Invalid JSON''
                      (JArr [JObj [(''path'', JStr []), (''message'', JStr (e_message e))]]))
                | Inr v \<Rightarrow> Inr v)
            | _ \<Rightarrow> Inr input) of
        Inl e \<Rightarrow> Inl e
      | Inr parsed \<Rightarrow>
          if \<not> is_objlike parsed then Inl (validation_error ''DAG must be an object'' JUndef)
          else (case ajv parsed of (errs, filled) \<Rightarrow>
            if errs \<noteq> [] then Inl (validation_error ''DAG schema validation failed'' (JArr errs))
            else check_workflow required (decode_workflow filled)))"

section \<open>The graph behind the maps\<close>

definition edge_rel :: "edge list \<Rightarrow> (string \<times> string) set" where
  "edge_rel es = (\<lambda>e. (e_from e, e_to e)) ` set es"

definition succs :: "edge list \<Rightarrow> string \<Rightarrow> string list" where
  "succs es u = map e_to (filter (\<lambda>e. e_from e = u) es)"

text \<open>The edges into \<open>v\<close> whose source is not among \<open>D\<close>, counted with repetition.\<close>

definition pending_in :: "edge list \<Rightarrow> string set \<Rightarrow> string \<Rightarrow> nat" where
  "pending_in es D v = length (filter (\<lambda>e. e_to e = v \<and> e_from e \<notin> D) es)"

definition graph_ok :: "string list \<Rightarrow> edge list \<Rightarrow> bool" where
  "graph_ok ns es = (distinct ns \<and> (\<forall>e \<in> set es. e_from e \<in> set ns \<and> e_to e \<in> set ns))"

definition adj_ok :: "edge list \<Rightarrow> adjacency \<Rightarrow> bool" where
  "adj_ok es adj = (\<forall>u. succs_of adj u = succs es u)"

definition deg_ok :: "string list \<Rightarrow> edge list \<Rightarrow> string set \<Rightarrow> degs \<Rightarrow> bool" where
  "deg_ok ns es D deg = (\<forall>v \<in> set ns. deg_of deg v = Some (int (pending_in es D v)))"

lemma pending_in_0: "pending_in es D v = 0 \<longleftrightarrow> (\<forall>u. (u, v) \<in> edge_rel es \<longrightarrow> u \<in> D)"
  by (auto simp: pending_in_def edge_rel_def filter_empty_conv)

lemma count_succs: "count_list (succs es u) v = length (filter (\<lambda>e. e_from e = u \<and> e_to e = v) es)"
  by (induction es) (auto simp: succs_def)

lemma pending_in_insert:
  "u \<notin> D \<Longrightarrow> pending_in es D v = pending_in es (insert u D) v + count_list (succs es u) v"
  unfolding count_succs by (induction es) (auto simp: pending_in_def)

lemma pending_in_mono: "D \<subseteq> D' \<Longrightarrow> pending_in es D' v \<le> pending_in es D v"
  by (induction es) (auto simp: pending_in_def)

lemma set_succs: "v \<in> set (succs es u) \<longleftrightarrow> (u, v) \<in> edge_rel es"
  by (auto simp: succs_def edge_rel_def)

lemma succs_subset: "graph_ok ns es \<Longrightarrow> v \<in> set (succs es u) \<Longrightarrow> v \<in> set ns"
  by (auto simp: succs_def graph_ok_def)

lemma release_step:
  assumes g: "graph_ok ns es" and deg: "deg_ok ns es D deg" and u: "u \<notin> D"
  shows "\<exists>deg' new. release ok (succs es u) (deg, q) = (deg', q @ new) \<and> deg_ok ns es (insert u D) deg' \<and>
           distinct new \<and>
           set new = {v \<in> set ns. ok v \<and> pending_in es D v \<noteq> 0 \<and> pending_in es (insert u D) v = 0}"
proof -
  obtain deg' q' where r: "release ok (succs es u) (deg, q) = (deg', q')" by fastforce
  have d': "deg_ok ns es (insert u D) deg'"
    unfolding deg_ok_def
  proof
    fix v assume v: "v \<in> set ns"
    have "deg_of deg' v = map_option (\<lambda>d. d - int (count_list (succs es u) v)) (deg_of deg v)"
      using release_deg [of ok "succs es u" deg q v] r by simp
    then show "deg_of deg' v = Some (int (pending_in es (insert u D) v))"
      using deg v pending_in_insert [OF u, of es v] by (simp add: deg_ok_def)
  qed
  have pre: "\<exists>d. deg_of deg v = Some d \<and> int (count_list (succs es u) v) \<le> d" if "v \<in> set (succs es u)" for v
    using deg succs_subset [OF g that] pending_in_insert [OF u, of es v] by (simp add: deg_ok_def)
  obtain new where new: "q' = q @ new" "distinct new"
      "set new = {v \<in> set (succs es u). ok v \<and> deg_of deg v = Some (int (count_list (succs es u) v))}"
    using release_pushed [OF pre, where ok = ok and q = q] r by auto
  have "set new = {v \<in> set ns. ok v \<and> pending_in es D v \<noteq> 0 \<and> pending_in es (insert u D) v = 0}"
  proof (rule set_eqI)
    fix v
    have "v \<in> set (succs es u) \<longleftrightarrow> 0 < count_list (succs es u) v" by (simp add: count_list_pos_iff)
    then show "v \<in> set new \<longleftrightarrow> v \<in> {v \<in> set ns. ok v \<and> pending_in es D v \<noteq> 0 \<and> pending_in es (insert u D) v = 0}"
      unfolding new(3) using pending_in_insert [OF u, of es v] deg succs_subset [OF g, of v u]
      by (auto simp: deg_ok_def)
  qed
  with r new d' show ?thesis by blast
qed

section \<open>Building the maps\<close>

lemma foldl_oset_fresh:
  "distinct (okeys m @ map k xs) \<Longrightarrow> foldl (\<lambda>m x. oset (k x) (f x) m) m xs = m @ map (\<lambda>x. (k x, f x)) xs"
proof (induction xs arbitrary: m)
  case Nil
  then show ?case by simp
next
  case (Cons x xs)
  then have "oset (k x) (f x) m = m @ [(k x, f x)]" by (intro oset_fresh) auto
  with Cons show ?case by simp
qed

lemma okeys_inc: "k \<in> set (okeys m) \<Longrightarrow> okeys (inc_deg k m) = okeys m"
  unfolding inc_deg_def by (rule okeys_oset_mem)

lemma link_edges_ok:
  "(\<And>e. e \<in> set es \<Longrightarrow> e_from e \<in> set (okeys adj) \<and> e_to e \<in> set (okeys deg)) \<Longrightarrow>
   \<exists>adj' deg'. link_edges es (adj, deg) = Inr (adj', deg') \<and> okeys adj' = okeys adj \<and> okeys deg' = okeys deg \<and>
     (\<forall>u. succs_of adj' u = succs_of adj u @ succs es u) \<and>
     (\<forall>v. deg_of deg' v = map_option (\<lambda>d. d + int (pending_in es {} v)) (deg_of deg v))"
proof (induction es arbitrary: adj deg)
  case Nil
  then show ?case by (simp add: succs_def pending_in_def option.map_ident)
next
  case (Cons e es)
  let ?f = "e_from e" and ?t = "e_to e"
  have e: "?f \<in> set (okeys adj)" "?t \<in> set (okeys deg)" using Cons.prems by auto
  then obtain xs where xs: "oget adj ?f = Some xs" by (metis oget_None_iff option.exhaust)
  let ?adj = "oset ?f (xs @ [?t]) adj" and ?deg = "inc_deg ?t deg"
  have k: "okeys ?adj = okeys adj" "okeys ?deg = okeys deg"
    using e by (simp_all add: okeys_oset_mem okeys_inc)
  have pre: "e' \<in> set es \<Longrightarrow> e_from e' \<in> set (okeys ?adj) \<and> e_to e' \<in> set (okeys ?deg)" for e'
    unfolding k by (rule Cons.prems) simp
  obtain adj' deg' where IH: "link_edges es (?adj, ?deg) = Inr (adj', deg')"
      "okeys adj' = okeys ?adj" "okeys deg' = okeys ?deg"
      "\<forall>u. succs_of adj' u = succs_of ?adj u @ succs es u"
      "\<forall>v. deg_of deg' v = map_option (\<lambda>d. d + int (pending_in es {} v)) (deg_of ?deg v)"
    using Cons.IH [OF pre] by blast
  have "succs_of adj' u = succs_of adj u @ succs (e # es) u" for u
    using IH(4) xs by (cases "u = ?f") (simp_all add: succs_of_def succs_def)
  moreover have "deg_of deg' v = map_option (\<lambda>d. d + int (pending_in (e # es) {} v)) (deg_of deg v)" for v
    using IH(5) by (cases "deg_of deg v") (auto simp: pending_in_def)
  ultimately show ?case using IH(1-3) xs k by simp
qed

lemma linked_graph:
  assumes "graph_ok ns es"
  shows "\<exists>adj deg. link_edges es (foldl (\<lambda>m n. oset n [] m) [] ns, foldl (\<lambda>m n. oset n (Some 0) m) [] ns) = Inr (adj, deg)
     \<and> okeys adj = ns \<and> okeys deg = ns \<and> adj_ok es adj \<and> deg_ok ns es {} deg"
proof -
  have d: "distinct ns" using assms by (simp add: graph_ok_def)
  have a: "foldl (\<lambda>m n. oset n [] m) [] ns = map (\<lambda>n. (n, [])) ns"
    using foldl_oset_fresh [of "[]" "\<lambda>n. n" ns "\<lambda>_. []"] d by simp
  have b: "foldl (\<lambda>m n. oset n (Some 0) m) [] ns = map (\<lambda>n. (n, Some 0)) ns"
    using foldl_oset_fresh [of "[]" "\<lambda>n. n" ns "\<lambda>_. Some 0"] d by simp
  have ka: "okeys (map (\<lambda>n. (n, [])) ns) = ns" "okeys (map (\<lambda>n. (n, Some 0)) ns) = ns"
    by (simp_all add: comp_def)
  have sa: "succs_of (map (\<lambda>n. (n, [])) ns) u = []" for u
    by (auto simp: succs_of_def map_of_map_restrict restrict_map_def)
  have sd: "v \<in> set ns \<Longrightarrow> deg_of (map (\<lambda>n. (n, Some 0)) ns) v = Some 0" for v
    by (auto simp: deg_of_def map_of_map_restrict restrict_map_def)
  have pre: "e \<in> set es \<Longrightarrow> e_from e \<in> set (okeys (map (\<lambda>n. (n, [] :: string list)) ns))
     \<and> e_to e \<in> set (okeys (map (\<lambda>n. (n, Some (0::int))) ns))" for e
    using assms unfolding ka by (auto simp: graph_ok_def comp_def)
  obtain adj' deg' where
    l: "link_edges es (map (\<lambda>n. (n, [])) ns, map (\<lambda>n. (n, Some 0)) ns) = Inr (adj', deg')"
      "okeys adj' = ns" "okeys deg' = ns"
      "\<forall>u. succs_of adj' u = succs es u"
      "\<forall>v. deg_of deg' v = map_option (\<lambda>d. d + int (pending_in es {} v)) (deg_of (map (\<lambda>n. (n, Some 0)) ns) v)"
    using link_edges_ok [where es = es, OF pre] unfolding ka sa by auto
  have "deg_ok ns es {} deg'" unfolding deg_ok_def using l(5) sd by simp
  then show ?thesis using l(1-4) unfolding a b adj_ok_def by blast
qed

section \<open>Kahn's algorithm visits exactly the nodes below no cycle\<close>

text \<open>Every node of the list comes after all its predecessors.\<close>

definition topological :: "edge list \<Rightarrow> string list \<Rightarrow> bool" where
  "topological es order =
     (\<forall>i < length order. \<forall>u. (u, order ! i) \<in> edge_rel es \<longrightarrow> u \<in> set (take i order))"

lemma topological_snoc:
  "topological es (order @ [v]) \<longleftrightarrow> topological es order \<and> (\<forall>u. (u, v) \<in> edge_rel es \<longrightarrow> u \<in> set order)"
  unfolding topological_def by (auto simp: nth_append less_Suc_eq)

lemma topological_acyclic:
  assumes t: "topological es order" and all: "fst ` edge_rel es \<union> snd ` edge_rel es \<subseteq> set order" and d: "distinct order"
  shows "acyclic (edge_rel es)"
proof -
  define ix where "ix v = (THE i. i < length order \<and> order ! i = v)" for v
  have ix: "ix v < length order \<and> order ! ix v = v" if "v \<in> set order" for v
    unfolding ix_def by (rule theI') (use that d in \<open>metis distinct_Ex1\<close>)
  have ix_nth: "ix (order ! i) = i" if "i < length order" for i
    using ix [OF nth_mem [OF that]] nth_eq_iff_index_eq [OF d] that by blast
  have lt: "ix u < ix v" if e: "(u, v) \<in> edge_rel es" for u v
  proof -
    have "v \<in> set order" using e all by force
    then have "u \<in> set (take (ix v) order)" using t e ix unfolding topological_def by metis
    then obtain i where "i < ix v" "i < length order" "order ! i = u" by (auto simp: in_set_conv_nth)
    then show ?thesis using ix_nth by auto
  qed
  have "(u, v) \<in> (edge_rel es)\<^sup>+ \<Longrightarrow> ix u < ix v" for u v
    by (induction rule: trancl_induct) (auto dest: lt)
  then show ?thesis by (auto simp: acyclic_def)
qed

text \<open>
  The invariant of the loop: \<open>visited\<close> is a topological list of distinct nodes, the table counts the
  edges from nodes not visited, and the queue holds exactly the nodes with none left.
\<close>

definition kahn_inv :: "string list \<Rightarrow> edge list \<Rightarrow> degs \<Rightarrow> string list \<Rightarrow> string list \<Rightarrow> bool" where
  "kahn_inv ns es deg q visited =
     (deg_ok ns es (set visited) deg \<and> distinct (visited @ q) \<and> topological es visited \<and>
      set visited \<subseteq> set ns \<and>
      set q = {v \<in> set ns. v \<notin> set visited \<and> pending_in es (set visited) v = 0})"

lemma kahn_inv_step:
  assumes g: "graph_ok ns es" and a: "adj_ok es adj" and inv: "kahn_inv ns es deg (n # q) visited"
  shows "kahn_inv ns es (fst (release (\<lambda>_. True) (succs_of adj n) (deg, q)))
           (snd (release (\<lambda>_. True) (succs_of adj n) (deg, q))) (visited @ [n])"
proof -
  let ?D = "set visited"
  have n: "n \<notin> ?D" "n \<in> set ns" "pending_in es ?D n = 0" "n \<notin> set q"
    using inv by (auto simp: kahn_inv_def)
  obtain deg' new where r: "release (\<lambda>_. True) (succs es n) (deg, q) = (deg', q @ new)"
      "deg_ok ns es (insert n ?D) deg'" "distinct new"
      "set new = {v \<in> set ns. pending_in es ?D v \<noteq> 0 \<and> pending_in es (insert n ?D) v = 0}"
  proof -
    have "deg_ok ns es ?D deg" using inv by (simp add: kahn_inv_def)
    from release_step [OF g this n(1), where ok = "\<lambda>_. True" and q = q] that
    show ?thesis by (auto simp: simp_thms)
  qed
  have old: "pending_in es ?D v = 0 \<Longrightarrow> pending_in es (insert n ?D) v = 0" for v
    using pending_in_mono [of ?D "insert n ?D" es v] by auto
  have closed: "pending_in es ?D v = 0" if v: "v \<in> ?D" for v
    unfolding pending_in_0
  proof (intro allI impI)
    fix u assume e: "(u, v) \<in> edge_rel es"
    obtain i where "i < length visited" "visited ! i = v" using v by (metis in_set_conv_nth)
    then have "u \<in> set (take i visited)" using inv e unfolding kahn_inv_def topological_def by blast
    then show "u \<in> ?D" by (rule in_set_takeD)
  qed
  have q: "set q = {v \<in> set ns. v \<notin> insert n ?D \<and> pending_in es ?D v = 0}"
    using inv n by (auto simp: kahn_inv_def)
  have "set (q @ new) = {v \<in> set ns. v \<notin> set (visited @ [n]) \<and> pending_in es (set (visited @ [n])) v = 0}"
    using q r(4) closed old n(3) by auto
  moreover have "distinct ((visited @ [n]) @ q @ new)"
    using inv r(3,4) q closed n by (auto simp: kahn_inv_def)
  moreover have "topological es (visited @ [n])"
    using inv n(3) by (simp add: topological_snoc kahn_inv_def pending_in_0)
  moreover have "succs_of adj n = succs es n" using a by (simp add: adj_ok_def)
  ultimately show ?thesis using r(1,2) n inv by (auto simp: kahn_inv_def)
qed

lemma kahn_result:
  "graph_ok ns es \<Longrightarrow> adj_ok es adj \<Longrightarrow> kahn_inv ns es deg q visited \<Longrightarrow>
   \<exists>deg'. kahn_inv ns es deg' [] (kahn adj deg q visited)"
proof (induction adj deg q visited rule: kahn.induct)
  case (1 adj deg visited)
  then show ?case by auto
next
  case (2 adj deg n q visited)
  from 2(1) [OF refl 2(2,3) kahn_inv_step [OF 2(2,3,4)]]
  show ?case by (simp add: Let_def)
qed

text \<open>At the end the nodes not visited are those from which the edges lead back for ever.\<close>

lemma stuck_set_cyclic:
  assumes fin: "finite S" and ne: "S \<noteq> {}" and prd: "\<And>v. v \<in> S \<Longrightarrow> \<exists>u \<in> S. (u, v) \<in> R"
  shows "\<not> acyclic R"
proof
  assume "acyclic R"
  then have "acyclic (R \<inter> S \<times> S)" by (rule acyclic_subset) blast
  moreover have "finite (R \<inter> S \<times> S)" using fin by blast
  ultimately have "wf (R \<inter> S \<times> S)" by (rule finite_acyclic_wf [rotated])
  then obtain z where z: "z \<in> S" "\<And>y. (y, z) \<in> R \<inter> S \<times> S \<Longrightarrow> y \<notin> S"
    using ne by (metis all_not_in_conv wfE_min)
  with prd [OF z(1)] show False by blast
qed

theorem kahn_complete_iff:
  assumes g: "graph_ok ns es" and a: "adj_ok es adj" and d: "deg_ok ns es {} deg" and k: "okeys deg = ns"
  shows "length (kahn adj deg (zero_keys deg) []) = length ns \<longleftrightarrow> acyclic (edge_rel es)"
proof -
  have dn: "distinct ns" using g by (simp add: graph_ok_def)
  have zk: "zero_keys deg = filter (\<lambda>v. deg_of deg v = Some 0) ns"
  proof -
    have "\<forall>e \<in> set deg. deg_of deg (fst e) = snd e" using dn k by (auto simp: deg_of_def)
    then have "filter (\<lambda>e. snd e = Some 0) deg = filter ((\<lambda>v. deg_of deg v = Some 0) \<circ> fst) deg"
      by (intro filter_cong) auto
    then show ?thesis unfolding zero_keys_def k [symmetric] filter_map by simp
  qed
  have "kahn_inv ns es deg (zero_keys deg) []"
    using d dn by (auto simp: kahn_inv_def zk deg_ok_def topological_def)
  from kahn_result [OF g a this] obtain deg' where
    inv: "kahn_inv ns es deg' [] (kahn adj deg (zero_keys deg) [])" by blast
  let ?V = "kahn adj deg (zero_keys deg) []"
  have V: "distinct ?V" "set ?V \<subseteq> set ns" "topological es ?V"
    "{v \<in> set ns. v \<notin> set ?V \<and> pending_in es (set ?V) v = 0} = {}"
    using inv by (auto simp: kahn_inv_def)
  show ?thesis
  proof
    assume "length ?V = length ns"
    then have "set ?V = set ns" using V dn by (metis card_subset_eq distinct_card List.finite_set)
    then have "fst ` edge_rel es \<union> snd ` edge_rel es \<subseteq> set ?V"
      using g by (auto simp: edge_rel_def graph_ok_def)
    then show "acyclic (edge_rel es)" by (rule topological_acyclic [OF V(3) _ V(1)])
  next
    assume ac: "acyclic (edge_rel es)"
    have "set ns - set ?V = {}"
    proof (rule ccontr)
      assume ne: "set ns - set ?V \<noteq> {}"
      have prd: "\<exists>u \<in> set ns - set ?V. (u, v) \<in> edge_rel es" if "v \<in> set ns - set ?V" for v
      proof -
        have "pending_in es (set ?V) v \<noteq> 0" using V(4) that unfolding Collect_empty_eq by (metis DiffE)
        then obtain u where "(u, v) \<in> edge_rel es" "u \<notin> set ?V" by (auto simp: pending_in_0)
        moreover from this have "u \<in> set ns" using g by (auto simp: edge_rel_def graph_ok_def)
        ultimately show ?thesis by blast
      qed
      have "\<not> acyclic (edge_rel es)"
        by (rule stuck_set_cyclic [OF _ ne prd]) simp_all
      then show False using ac by contradiction
    qed
    then have "set ?V = set ns" using V(2) by blast
    then show "length ?V = length ns" using V(1) dn by (metis distinct_card)
  qed
qed

section \<open>What parseDag accepts\<close>

definition required_present :: "(string \<Rightarrow> string list option) \<Rightarrow> node \<Rightarrow> bool" where
  "required_present required n =
     (case required (n_action n) of None \<Rightarrow> True
      | Some ks \<Rightarrow> list_all (\<lambda>k. \<not> blank (js_get (n_inputs n) k)) ks)"

definition well_formed :: "(string \<Rightarrow> string list option) \<Rightarrow> workflow \<Rightarrow> bool" where
  "well_formed required w =
     (graph_ok (node_names w) (w_edges w) \<and> (\<forall>e \<in> set (w_edges w). e_from e \<noteq> e_to e) \<and>
      list_all (required_present required) (w_nodes w) \<and> acyclic (edge_rel (w_edges w)))"

lemma check_unique_ok: "check_unique seen ns = Inr () \<longleftrightarrow> distinct ns \<and> set ns \<inter> set seen = {}"
  by (induction seen ns rule: check_unique.induct) auto

lemma check_edges_ok:
  "check_edges ns es = Inr () \<longleftrightarrow> (\<forall>e \<in> set es. e_from e \<in> set ns \<and> e_to e \<in> set ns \<and> e_from e \<noteq> e_to e)"
  by (induction ns es rule: check_edges.induct) auto

lemma check_keys_ok: "check_keys n ks = Inr () \<longleftrightarrow> list_all (\<lambda>k. \<not> blank (js_get (n_inputs n) k)) ks"
  by (induction n ks rule: check_keys.induct) auto

lemma check_required_ok: "check_required required ns = Inr () \<longleftrightarrow> list_all (required_present required) ns"
  by (induction ns) (auto simp: required_present_def check_keys_ok [symmetric] split: option.splits sum.splits)

lemma check_acyclic_ok:
  assumes "graph_ok ns es"
  shows "check_acyclic ns es = Inr () \<longleftrightarrow> acyclic (edge_rel es)"
proof -
  obtain adj deg where l: "link_edges es (foldl (\<lambda>m n. oset n [] m) [] ns, foldl (\<lambda>m n. oset n (Some 0) m) [] ns) = Inr (adj, deg)"
    "okeys deg = ns" "adj_ok es adj" "deg_ok ns es {} deg"
    using linked_graph [OF assms] by blast
  show ?thesis
    using kahn_complete_iff [OF assms l(3,4,2)] by (simp add: check_acyclic_def l(1))
qed

lemma check_workflow_iff:
  "check_workflow required w = Inr w' \<longleftrightarrow>
     (\<exists>ns. res_map normalize_node (w_nodes w) = Inr ns \<and> w' = w\<lparr>w_nodes := ns\<rparr> \<and> well_formed required w')"
proof (cases "res_map normalize_node (w_nodes w)")
  case (Inl e)
  then show ?thesis by (simp add: check_workflow_def)
next
  case (Inr ns)
  let ?names = "map n_name ns"
  have unit: "(\<exists>x. r = Inr x) \<longleftrightarrow> r = Inr ()" for r :: "unit js_result" by (cases r) auto
  have "check_workflow required w = Inr w' \<longleftrightarrow>
      check_unique [] ?names = Inr () \<and> check_edges ?names (w_edges w) = Inr () \<and>
      check_required required ns = Inr () \<and> check_acyclic ?names (w_edges w) = Inr () \<and> w' = w\<lparr>w_nodes := ns\<rparr>"
    unfolding check_workflow_def Inr by (auto simp: res_bind_eq_Inr Let_def)
  also have "\<dots> \<longleftrightarrow> w' = w\<lparr>w_nodes := ns\<rparr> \<and> graph_ok ?names (w_edges w) \<and>
      (\<forall>e \<in> set (w_edges w). e_from e \<noteq> e_to e) \<and> list_all (required_present required) ns \<and>
      acyclic (edge_rel (w_edges w))"
    by (auto simp: check_unique_ok check_edges_ok check_required_ok check_acyclic_ok graph_ok_def)
  finally show ?thesis by (auto simp: Inr well_formed_def node_names_def)
qed

lemma parseDag_well_formed: "parseDag json ajv required input = Inr w \<Longrightarrow> well_formed required w"
  by (auto simp: parseDag_def check_workflow_iff split: sum.splits js.splits if_splits prod.splits)

text \<open>\<open>buildDag\<close> on a well-formed graph.\<close>

lemma buildDag_ok:
  assumes g: "graph_ok (map n_name ns) es"
  shows "\<exists>d. buildDag ns es = Inr d \<and> adj_ok es (d_adj d) \<and> deg_ok (map n_name ns) es {} (d_indegree d) \<and>
     okeys (d_indegree d) = map n_name ns \<and> d_byName d = map (\<lambda>n. (n_name n, n)) ns \<and>
     d_roots d = zero_keys (d_indegree d)"
proof -
  have dn: "distinct (map n_name ns)" using g by (simp add: graph_ok_def)
  have m: "foldl (\<lambda>m n. oset n v m) [] (map n_name ns) = foldl (\<lambda>m n. oset (n_name n) v m) [] ns"
    for v :: "'v" by (simp add: foldl_map)
  have b: "foldl (\<lambda>m n. oset (n_name n) n m) [] ns = map (\<lambda>n. (n_name n, n)) ns"
    using foldl_oset_fresh [of "[]" n_name ns "\<lambda>n. n"] dn by simp
  show ?thesis
    using linked_graph [OF g] unfolding m by (auto simp: buildDag_def Let_def b)
qed

end
