(* ===== verification/JsRegex.thy ===== *)
theory JsRegex
  imports JsString
begin

text \<open>
  JavaScript regular expressions.  A pattern of the sources is written as a value of \<open>re\<close>,
  constructor for constructor, and run by the backtracking semantics of the language: \<open>ms\<close>
  lists every way a pattern can match at a position, in the order of preference of the
  backtracking matcher (greedy before short, left alternative before right), so the first
  element is the match JavaScript returns.  Flags: \<open>i\<close> (ignore case) and \<open>m\<close> (multi-line).
\<close>

section \<open>Patterns\<close>

text \<open>A character class: negated or not, with its ranges.\<close>

datatype cls = Cls bool "(char \<times> char) list"

datatype re =
    RCls cls
  | RSeq re re
  | RAlt re re
  | RRep bool nat "nat option" re   \<comment> \<open>greedy?, at least, at most\<close>
  | RGrp nat re                     \<comment> \<open>capturing group\<close>
  | REmpty
  | RBol
  | REol
  | RWordB
  | RNotBehind cls                  \<comment> \<open>negative look-behind of one character\<close>

abbreviation r_star :: "re \<Rightarrow> re" where "r_star r \<equiv> RRep True 0 None r"
abbreviation r_plus :: "re \<Rightarrow> re" where "r_plus r \<equiv> RRep True 1 None r"
abbreviation r_opt :: "re \<Rightarrow> re" where "r_opt r \<equiv> RRep True 0 (Some 1) r"

definition r_chr :: "char \<Rightarrow> re" where
  "r_chr c = RCls (Cls False [(c, c)])"

definition r_set :: "string \<Rightarrow> re" where
  "r_set s = RCls (Cls False (map (\<lambda>c. (c, c)) s))"

fun r_seq :: "re list \<Rightarrow> re" where
  "r_seq [] = REmpty"
| "r_seq [r] = r"
| "r_seq (r # rs) = RSeq r (r_seq rs)"

fun r_alt :: "re list \<Rightarrow> re" where
  "r_alt [] = RCls (Cls False [])"
| "r_alt [r] = r"
| "r_alt (r # rs) = RAlt r (r_alt rs)"

definition r_lit :: "string \<Rightarrow> re" where
  "r_lit s = r_seq (map r_chr s)"

definition digit_cls :: cls where "digit_cls = Cls False [(CHR ''0'', CHR ''9'')]"
definition space_ranges :: "(char \<times> char) list" where
  "space_ranges = [(char_of (9::nat), char_of (13::nat)), (CHR '' '', CHR '' ''), (char_of (160::nat), char_of (160::nat))]"
definition space_cls :: cls where "space_cls = Cls False space_ranges"
definition word_cls :: cls where
  "word_cls = Cls False [(CHR ''a'', CHR ''z''), (CHR ''A'', CHR ''Z''), (CHR ''0'', CHR ''9''), (CHR ''_'', CHR ''_'')]"

abbreviation r_d :: re where "r_d \<equiv> RCls digit_cls"
abbreviation r_s :: re where "r_s \<equiv> RCls space_cls"
abbreviation r_w :: re where "r_w \<equiv> RCls word_cls"

section \<open>Matching\<close>

definition in_range :: "char \<Rightarrow> char \<times> char \<Rightarrow> bool" where
  "in_range c r = ((of_char (fst r) :: nat) \<le> of_char c \<and> (of_char c :: nat) \<le> of_char (snd r))"

fun cls_has :: "bool \<Rightarrow> cls \<Rightarrow> char \<Rightarrow> bool" where
  "cls_has ic (Cls neg rs) c =
     ((list_ex (in_range c) rs
       \<or> ic \<and> (list_ex (in_range (to_lower c)) rs \<or> list_ex (in_range (to_upper c)) rs)) \<noteq> neg)"

definition is_word :: "char \<Rightarrow> bool" where
  "is_word c = cls_has False word_cls c"

definition line_end :: "char \<Rightarrow> bool" where
  "line_end c = ((of_char c :: nat) \<in> {10, 13})"

type_synonym caps = "(nat \<times> (nat \<times> nat)) list"
type_synonym rst = "nat \<times> caps"

primrec groups :: "re \<Rightarrow> nat list" where
  "groups (RCls c) = []"
| "groups (RSeq a b) = groups a @ groups b"
| "groups (RAlt a b) = groups a @ groups b"
| "groups (RRep g lo hi r) = groups r"
| "groups (RGrp n r) = n # groups r"
| "groups REmpty = []"
| "groups RBol = []"
| "groups REol = []"
| "groups RWordB = []"
| "groups (RNotBehind c) = []"

text \<open>
  Repetition: an iteration beyond the required ones may not match the empty string.  The fuel
  bounds the iterations; \<open>lo\<close> plus the characters left is always enough.
\<close>

fun rep_ms :: "(rst \<Rightarrow> rst list) \<Rightarrow> (caps \<Rightarrow> caps) \<Rightarrow> bool \<Rightarrow> nat \<Rightarrow> nat \<Rightarrow> nat option \<Rightarrow> rst \<Rightarrow> rst list" where
  "rep_ms f clr gr 0 lo hi st = (if lo = 0 then [st] else [])"
| "rep_ms f clr gr (Suc n) lo hi st =
     (if hi = Some 0 then [st]
      else let more = concat (map (\<lambda>st'. if lo = 0 \<and> fst st' = fst st then []
                                         else rep_ms f clr gr n (lo - 1) (map_option (\<lambda>h. h - 1) hi) st')
                                  (f (fst st, clr (snd st))))
           in if 0 < lo then more else if gr then more @ [st] else st # more)"

primrec ms :: "bool \<Rightarrow> bool \<Rightarrow> string \<Rightarrow> re \<Rightarrow> rst \<Rightarrow> rst list" where
  "ms ic ml t (RCls c) = (\<lambda>st. if fst st < length t \<and> cls_has ic c (t ! fst st) then [(Suc (fst st), snd st)] else [])"
| "ms ic ml t (RSeq a b) = (\<lambda>st. concat (map (ms ic ml t b) (ms ic ml t a st)))"
| "ms ic ml t (RAlt a b) = (\<lambda>st. ms ic ml t a st @ ms ic ml t b st)"
| "ms ic ml t (RRep g lo hi r) =
     (\<lambda>st. rep_ms (ms ic ml t r) (filter (\<lambda>c. fst c \<notin> set (groups r))) g (lo + (length t - fst st) + 1) lo hi st)"
| "ms ic ml t (RGrp n r) = (\<lambda>st. map (\<lambda>st'. (fst st', (n, (fst st, fst st')) # snd st')) (ms ic ml t r st))"
| "ms ic ml t REmpty = (\<lambda>st. [st])"
| "ms ic ml t RBol = (\<lambda>st. if fst st = 0 \<or> ml \<and> line_end (t ! (fst st - 1)) then [st] else [])"
| "ms ic ml t REol = (\<lambda>st. if length t \<le> fst st \<or> ml \<and> line_end (t ! fst st) then [st] else [])"
| "ms ic ml t RWordB =
     (\<lambda>st. if (0 < fst st \<and> is_word (t ! (fst st - 1))) \<noteq> (fst st < length t \<and> is_word (t ! fst st))
           then [st] else [])"
| "ms ic ml t (RNotBehind c) = (\<lambda>st. if 0 < fst st \<and> cls_has ic c (t ! (fst st - 1)) then [] else [st])"

section \<open>The operations of the language\<close>

record regex =
  pat :: re
  flag_i :: bool
  flag_m :: bool

definition rx :: "re \<Rightarrow> regex" where "rx r = \<lparr>pat = r, flag_i = False, flag_m = False\<rparr>"
definition rx_i :: "re \<Rightarrow> regex" where "rx_i r = \<lparr>pat = r, flag_i = True, flag_m = False\<rparr>"

definition match_at :: "regex \<Rightarrow> string \<Rightarrow> nat \<Rightarrow> rst option" where
  "match_at x t i = (case ms (flag_i x) (flag_m x) t (pat x) (i, []) of [] \<Rightarrow> None | st # _ \<Rightarrow> Some st)"

text \<open>\<open>exec\<close> from a start index: the leftmost match, as (start, end, captures).\<close>

fun exec_from :: "regex \<Rightarrow> string \<Rightarrow> nat list \<Rightarrow> (nat \<times> nat \<times> caps) option" where
  "exec_from x t [] = None"
| "exec_from x t (i # is) =
     (case match_at x t i of Some (e, cs) \<Rightarrow> Some (i, e, cs) | None \<Rightarrow> exec_from x t is)"

definition re_exec :: "regex \<Rightarrow> string \<Rightarrow> nat \<Rightarrow> (nat \<times> nat \<times> caps) option" where
  "re_exec x t i = exec_from x t [i ..< Suc (length t)]"

definition re_test :: "regex \<Rightarrow> string \<Rightarrow> bool" where
  "re_test x t = (re_exec x t 0 \<noteq> None)"

definition cap :: "string \<Rightarrow> caps \<Rightarrow> nat \<Rightarrow> string option" where
  "cap t cs n = map_option (\<lambda>(b, e). slice b e t) (map_of cs n)"

text \<open>\<open>matchAll\<close> with a global pattern: after an empty match the scan moves on by one.\<close>

fun match_all_fuel :: "regex \<Rightarrow> string \<Rightarrow> nat \<Rightarrow> nat \<Rightarrow> (nat \<times> nat \<times> caps) list" where
  "match_all_fuel x t 0 i = []"
| "match_all_fuel x t (Suc n) i =
     (case re_exec x t i of None \<Rightarrow> []
      | Some (b, e, cs) \<Rightarrow> (b, e, cs) # match_all_fuel x t n (if e = b then Suc e else e))"

definition match_all :: "regex \<Rightarrow> string \<Rightarrow> (nat \<times> nat \<times> caps) list" where
  "match_all x t = match_all_fuel x t (length t + 2) 0"

text \<open>\<open>replace\<close> with a global pattern and a replacement computed from each match.\<close>

fun splice :: "string \<Rightarrow> nat \<Rightarrow> ((nat \<times> nat) \<times> string) list \<Rightarrow> string" where
  "splice t i [] = drop i t"
| "splice t i (((b, e), r) # ps) = slice i b t @ r @ splice t e ps"

definition replace_all :: "regex \<Rightarrow> string \<Rightarrow> (nat \<times> nat \<times> caps \<Rightarrow> string) \<Rightarrow> string" where
  "replace_all x t f = splice t 0 (map (\<lambda>m. ((fst m, fst (snd m)), f m)) (match_all x t))"

section \<open>Bounds\<close>

lemma rep_ms_bounds:
  assumes f: "\<And>st st'. fst st \<le> n \<Longrightarrow> st' \<in> set (f st) \<Longrightarrow> fst st \<le> fst st' \<and> fst st' \<le> n"
  shows "fst st \<le> n \<Longrightarrow> st' \<in> set (rep_ms f clr g k lo hi st) \<Longrightarrow> fst st \<le> fst st' \<and> fst st' \<le> n"
proof (induction k arbitrary: lo hi st)
  case 0
  then show ?case by (auto split: if_splits)
next
  case (Suc k)
  show ?case
  proof (cases "st' = st")
    case True
    then show ?thesis using Suc.prems by simp
  next
    case False
    have "st' \<in> set (concat (map (\<lambda>st'. if lo = 0 \<and> fst st' = fst st then []
             else rep_ms f clr g k (lo - 1) (map_option (\<lambda>h. h - 1) hi) st') (f (fst st, clr (snd st)))))"
      using Suc.prems(2) False by (simp only: rep_ms.simps Let_def split: if_splits) auto
    then obtain m where
      m: "m \<in> set (f (fst st, clr (snd st)))" and
      r: "st' \<in> set (rep_ms f clr g k (lo - 1) (map_option (\<lambda>h. h - 1) hi) m)"
      by (auto split: if_splits)
    have 1: "fst st \<le> fst m" "fst m \<le> n"
      using f [OF _ m] Suc.prems(1) by auto
    from Suc.IH [OF 1(2) r] 1 show ?thesis by simp
  qed
qed

lemma ms_bounds:
  "fst st \<le> length t \<Longrightarrow> st' \<in> set (ms ic ml t r st) \<Longrightarrow> fst st \<le> fst st' \<and> fst st' \<le> length t"
proof (induction r arbitrary: st st')
  case (RSeq a b)
  from RSeq.prems(2) obtain m where m: "m \<in> set (ms ic ml t a st)" "st' \<in> set (ms ic ml t b m)"
    by auto
  have "fst st \<le> fst m \<and> fst m \<le> length t" using RSeq.IH(1) RSeq.prems(1) m(1) by blast
  moreover then have "fst m \<le> fst st' \<and> fst st' \<le> length t" using RSeq.IH(2) m(2) by blast
  ultimately show ?case by simp
next
  case (RRep g lo hi r)
  from RRep.prems(2) have m:
    "st' \<in> set (rep_ms (ms ic ml t r) (filter (\<lambda>c. fst c \<notin> set (groups r))) g (lo + (length t - fst st) + 1) lo hi st)"
    by (simp only: ms.simps)
  show ?case by (rule rep_ms_bounds [OF _ RRep.prems(1) m]) (rule RRep.IH)
next
  case (RGrp n r)
  from RGrp.prems(2) obtain m where m: "m \<in> set (ms ic ml t r st)" "fst st' = fst m" by auto
  with RGrp.IH [OF RGrp.prems(1) m(1)] show ?case by simp
next
  case (RAlt a b)
  from RAlt.prems(2) have "st' \<in> set (ms ic ml t a st) \<or> st' \<in> set (ms ic ml t b st)" by simp
  then show ?case using RAlt.IH(1) [OF RAlt.prems(1)] RAlt.IH(2) [OF RAlt.prems(1)] by blast
qed (simp_all split: if_splits)

lemma match_at_bounds:
  "match_at x t i = Some (e, cs) \<Longrightarrow> i \<le> length t \<Longrightarrow> i \<le> e \<and> e \<le> length t"
  unfolding match_at_def
  using ms_bounds [of "(i, [])" t "(e, cs)" "flag_i x" "flag_m x" "pat x"]
  by (auto split: list.splits)

lemma exec_from_Some:
  "exec_from x t is = Some (b, e, cs) \<Longrightarrow> b \<in> set is \<and> match_at x t b = Some (e, cs)"
  by (induction "is") (auto split: option.splits)

lemma re_exec_Some:
  "re_exec x t i = Some (b, e, cs) \<Longrightarrow>
   i \<le> b \<and> b \<le> e \<and> e \<le> length t \<and> match_at x t b = Some (e, cs)"
  unfolding re_exec_def using exec_from_Some [of x t "[i ..< Suc (length t)]" b e cs]
    match_at_bounds [of x t b e cs] by auto

text \<open>Matches of a global scan are in order and do not overlap.\<close>

fun ordered_spans :: "nat \<Rightarrow> nat \<Rightarrow> (nat \<times> nat) list \<Rightarrow> bool" where
  "ordered_spans i n [] = True"
| "ordered_spans i n ((b, e) # ps) = (i \<le> b \<and> b \<le> e \<and> e \<le> n \<and> ordered_spans e n ps)"

lemma ordered_spans_mono: "ordered_spans j n ps \<Longrightarrow> i \<le> j \<Longrightarrow> ordered_spans i n ps"
  by (cases ps) auto

lemma ordered_spans_mem: "ordered_spans i n ps \<Longrightarrow> p \<in> set ps \<Longrightarrow> i \<le> fst p \<and> fst p \<le> snd p \<and> snd p \<le> n"
proof (induction ps arbitrary: i)
  case (Cons q ps)
  obtain b e where q: "q = (b, e)" by (cases q)
  then show ?case using Cons.IH [of e] Cons.prems by (cases "p = q") auto
qed simp

lemma match_all_fuel_ordered:
  "ordered_spans i (length t) (map (\<lambda>m. (fst m, fst (snd m))) (match_all_fuel x t n i))"
proof (induction n arbitrary: i)
  case 0
  then show ?case by simp
next
  case (Suc n)
  show ?case
  proof (cases "re_exec x t i")
    case None
    then show ?thesis by simp
  next
    case (Some m)
    obtain b e cs where m: "m = (b, e, cs)" by (cases m)
    have b: "i \<le> b \<and> b \<le> e \<and> e \<le> length t" using re_exec_Some Some m by blast
    have "ordered_spans e (length t)
            (map (\<lambda>m. (fst m, fst (snd m))) (match_all_fuel x t n (if e = b then Suc e else e)))"
      by (rule ordered_spans_mono [OF Suc.IH]) auto
    with b Some m show ?thesis by simp
  qed
qed

theorem match_all_ordered:
  "ordered_spans 0 (length t) (map (\<lambda>m. (fst m, fst (snd m))) (match_all x t))"
  unfolding match_all_def by (rule match_all_fuel_ordered)

text \<open>The fuel of a global scan is enough: more of it finds no further match.\<close>

lemma re_exec_past_end: "length t < i \<Longrightarrow> re_exec x t i = None"
  by (simp add: re_exec_def)

lemma match_all_fuel_enough:
  "length t + 2 \<le> n + i \<Longrightarrow> match_all_fuel x t (Suc n) i = match_all_fuel x t n i"
proof (induction n arbitrary: i)
  case 0
  then have "length t < i" by simp
  then show ?case by (simp add: re_exec_past_end)
next
  case (Suc n)
  show ?case
  proof (cases "re_exec x t i")
    case None
    then show ?thesis by simp
  next
    case (Some m)
    obtain b e cs where m: "m = (b, e, cs)" by (cases m)
    have b: "i \<le> b \<and> b \<le> e" using re_exec_Some Some m by blast
    let ?j = "if e = b then Suc e else e"
    have "Suc i \<le> ?j" using b by auto
    then have "length t + 2 \<le> n + ?j" using Suc.prems by linarith
    then have "match_all_fuel x t (Suc n) ?j = match_all_fuel x t n ?j" by (rule Suc.IH)
    then show ?thesis using Some m by simp
  qed
qed

theorem splice_no_match: "match_all x t = [] \<Longrightarrow> replace_all x t f = t"
  by (simp add: replace_all_def)

lemma slice_drop: "i \<le> b \<Longrightarrow> slice i b t @ drop b t = drop i t"
proof -
  assume i: "i \<le> b"
  have "slice i b t = take (b - i) (drop i t)" by (simp add: slice_def drop_take)
  moreover have "drop b t = drop (b - i) (drop i t)" using i by simp
  ultimately show ?thesis by (simp only: append_take_drop_id)
qed

lemma replace_all_id_aux:
  "ordered_spans i (length t) ps \<Longrightarrow> splice t i (map (\<lambda>(b, e). ((b, e), slice b e t)) ps) = drop i t"
proof (induction ps arbitrary: i)
  case Nil
  then show ?case by simp
next
  case (Cons p ps)
  obtain b e where p: "p = (b, e)" by (cases p)
  from Cons.prems p have o: "i \<le> b" "b \<le> e" "e \<le> length t" "ordered_spans e (length t) ps" by auto
  have "slice i b t @ slice b e t @ drop e t = drop i t"
    using slice_drop [OF o(1), of t] slice_drop [OF o(2), of t] by simp
  then show ?case using Cons.IH [OF o(4)] p by simp
qed

text \<open>Replacing every match by itself changes nothing.\<close>

theorem replace_all_id: "replace_all x t (\<lambda>m. slice (fst m) (fst (snd m)) t) = t"
  using replace_all_id_aux [OF match_all_ordered [of t x]]
  by (simp add: replace_all_def comp_def case_prod_beta)

section \<open>Greedy runs of a character class\<close>

lemma takeWhile_drop_step:
  "i < length t \<Longrightarrow> P (t ! i) \<Longrightarrow>
   length (takeWhile P (drop i t)) = Suc (length (takeWhile P (drop (Suc i) t)))"
  by (metis Cons_nth_drop_Suc length_Cons takeWhile.simps(2))

lemma takeWhile_drop_stop:
  "\<not> (i < length t \<and> P (t ! i)) \<Longrightarrow> length (takeWhile P (drop i t)) = 0"
proof (cases "i < length t")
  case True
  assume "\<not> (i < length t \<and> P (t ! i))"
  with True have "\<not> P (t ! i)" by simp
  with True show ?thesis by (simp add: Cons_nth_drop_Suc [symmetric])
qed simp

text \<open>
  A greedy star of one class offers the longest run first, then every shorter one.
\<close>

definition down_to :: "nat \<Rightarrow> nat \<Rightarrow> nat list" where
  "down_to i k = rev [i ..< Suc (i + k)]"

lemma down_to_0 [simp]: "down_to i 0 = [i]"
  by (simp add: down_to_def)

lemma down_to_Suc: "down_to i (Suc k) = down_to (Suc i) k @ [i]"
proof -
  have "[i ..< Suc (i + Suc k)] = i # [Suc i ..< Suc (Suc i + k)]"
    by (simp add: upt_rec [of i])
  then show ?thesis by (simp add: down_to_def)
qed

lemma rep_ms_cls:
  "length t - i < n \<Longrightarrow>
   rep_ms (ms ic ml t (RCls c)) (filter Q) True n 0 None (i, cs)
   = map (\<lambda>j. (j, if j = i then cs else filter Q cs))
         (down_to i (length (takeWhile (cls_has ic c) (drop i t))))"
proof (induction n arbitrary: i cs)
  case 0
  then show ?case by simp
next
  case (Suc n)
  show ?case
  proof (cases "i < length t \<and> cls_has ic c (t ! i)")
    case True
    have "length t - Suc i < n" using Suc.prems True by auto
    note IH = Suc.IH [OF this, of "filter Q cs"]
    let ?k = "length (takeWhile (cls_has ic c) (drop (Suc i) t))"
    have k: "length (takeWhile (cls_has ic c) (drop i t)) = Suc ?k"
      using takeWhile_drop_step True by blast
    have "\<forall>j \<in> set (down_to (Suc i) ?k). j \<noteq> i" by (auto simp: down_to_def)
    then have "map (\<lambda>j. (j, if j = Suc i then filter Q cs else filter Q (filter Q cs))) (down_to (Suc i) ?k)
             = map (\<lambda>j. (j, if j = i then cs else filter Q cs)) (down_to (Suc i) ?k)"
      by (intro map_cong) auto
    then show ?thesis using True IH by (simp add: k down_to_Suc)
  next
    case False
    then show ?thesis using takeWhile_drop_stop [where P = "cls_has ic c", OF False] by auto
  qed
qed

lemma ms_star_cls:
  "ms ic ml t (r_star (RCls c)) (i, cs) =
   map (\<lambda>j. (j, cs)) (down_to i (length (takeWhile (cls_has ic c) (drop i t))))"
  using rep_ms_cls [of t i "length t - i + 1" ic ml c "\<lambda>_. True" cs]
  by (simp cong: map_cong if_cong)

lemma ms_plus_cls:
  "ms ic ml t (r_plus (RCls c)) (i, cs) =
   (if i < length t \<and> cls_has ic c (t ! i)
    then map (\<lambda>j. (j, cs)) (down_to (Suc i) (length (takeWhile (cls_has ic c) (drop (Suc i) t))))
    else [])"
  using rep_ms_cls [of t "Suc i" "length t - i + 1" ic ml c "\<lambda>_. True" cs]
  by (auto cong: map_cong if_cong)

declare ms.simps(4) [simp del]

lemma is_digit_cls [simp]: "cls_has False digit_cls c = is_digit c"
  by (simp add: digit_cls_def is_digit_def in_range_def)

lemma is_space_cls [simp]: "cls_has False space_cls c = is_space c"
  by (auto simp: space_cls_def space_ranges_def is_space_def in_range_def)

end
