(* ===== verification/Expression.thy ===== *)
theory Expression
  imports Errors JsRegex
begin

text \<open>
  \<open>backend/src/dsl/expression.js\<close>: the \<open>${...}\<close> placeholders of workflow values.  A bare path
  is walked here; anything else goes to the FEEL evaluator (the third-party package feelin),
  which is the parameter \<open>feel\<close>: it takes the translated expression and the context, with the
  helper functions \<open>toJson\<close>, \<open>toJsonPretty\<close> and \<open>parseJson\<close> in its scope, and returns a value or
  throws.
\<close>

type_synonym jsctx = "(string \<times> js) list"
type_synonym feel = "string \<Rightarrow> jsctx \<Rightarrow> js js_result"

section \<open>Patterns\<close>

text \<open>\<open>/\$\{([^}]+)\}/g\<close> and \<open>/^[A-Za-z_][A-Za-z0-9_.-]*$/\<close>\<close>

definition not_brace :: cls where "not_brace = Cls True [(CHR ''}'', CHR ''}'')]"

definition PLACEHOLDER :: regex where
  "PLACEHOLDER = rx (RSeq (r_chr (CHR ''$'')) (RSeq (r_chr (CHR ''{''))
     (RSeq (RGrp 1 (r_plus (RCls not_brace))) (r_chr (CHR ''}'')))))"

definition path_head :: cls where
  "path_head = Cls False [(CHR ''A'', CHR ''Z''), (CHR ''a'', CHR ''z''), (CHR ''_'', CHR ''_'')]"

definition path_tail :: cls where
  "path_tail = Cls False [(CHR ''A'', CHR ''Z''), (CHR ''a'', CHR ''z''), (CHR ''0'', CHR ''9''),
     (CHR ''_'', CHR ''_''), (CHR ''.'', CHR ''.''), (CHR ''-'', CHR ''-'')]"

definition PURE_PATH_RE :: regex where
  "PURE_PATH_RE = rx (RSeq RBol (RSeq (RCls path_head) (RSeq (r_star (RCls path_tail)) REol)))"

definition backslash :: char where "backslash = CHR 0x5C"
definition dquote :: char where "dquote = CHR 0x22"
definition squote :: char where "squote = CHR 0x27"

definition not_line_end :: cls where
  "not_line_end = Cls True [(CHR 0x0A, CHR 0x0A), (CHR 0x0D, CHR 0x0D)]"

text \<open>\<open>q(?:[^q\\]|\\.)*q\<close> for a quote \<open>q\<close>.\<close>

definition quoted_re :: "char \<Rightarrow> re" where
  "quoted_re q = RSeq (r_chr q) (RSeq
     (r_star (RAlt (RCls (Cls True [(q, q), (backslash, backslash)]))
                   (RSeq (r_chr backslash) (RCls not_line_end))))
     (r_chr q))"

definition string_re :: regex where
  "string_re = rx (RAlt (quoted_re dquote) (quoted_re squote))"

definition and_re :: regex where "and_re = rx (r_lit ''&&'')"
definition or_re :: regex where "or_re = rx (r_lit ''||'')"
definition eq_re :: regex where
  "eq_re = rx (RSeq (RNotBehind (Cls False [(CHR ''!'', CHR ''!''), (CHR ''<'', CHR ''<''), (CHR ''>'', CHR ''>'')]))
     (r_lit ''==''))"

section \<open>Operations\<close>

definition getPath :: "js \<Rightarrow> string \<Rightarrow> js" where
  "getPath obj path = js_walk obj (split_str ''.'' path)"

definition translateCode :: "string \<Rightarrow> string" where
  "translateCode s =
     replace_all eq_re
       (replace_all or_re (replace_all and_re s (\<lambda>_. '' and '')) (\<lambda>_. '' or ''))
       (\<lambda>_. ''='')"

fun feel_segments :: "string \<Rightarrow> nat \<Rightarrow> (nat \<times> nat \<times> caps) list \<Rightarrow> string list" where
  "feel_segments expr lst [] = (if lst < length expr then [translateCode (drop lst expr)] else [])"
| "feel_segments expr lst ((b, e, cs) # mts) =
     (if lst < b then [translateCode (slice lst b expr)] else []) @ slice b e expr # feel_segments expr e mts"

definition jsToFeel :: "string \<Rightarrow> string" where
  "jsToFeel expr = concat (feel_segments expr 0 (match_all string_re expr))"

definition evalSingle :: "feel \<Rightarrow> string \<Rightarrow> jsctx \<Rightarrow> js js_result" where
  "evalSingle feel expr ctx =
     (let trimmed = trim expr in
      if re_test PURE_PATH_RE trimmed then Inr (getPath (JObj ctx) trimmed)
      else case feel (jsToFeel trimmed) ctx of
             Inr v \<Rightarrow> Inr v
           | Inl e \<Rightarrow> Inl (plain_error (''Failed to evaluate expression '' @ quoted trimmed
                             @ '': '' @ e_message e)))"

text \<open>What a placeholder pastes into a longer string.\<close>

definition paste_str :: "js \<Rightarrow> string" where
  "paste_str v = (if nullish v then [] else js_string v)"

definition placeholder_expr :: "string \<Rightarrow> nat \<times> nat \<times> caps \<Rightarrow> string" where
  "placeholder_expr s m = (case cap s (snd (snd m)) 1 of Some x \<Rightarrow> x | None \<Rightarrow> [])"

definition resolve_string :: "feel \<Rightarrow> string \<Rightarrow> jsctx \<Rightarrow> js js_result" where
  "resolve_string feel s ctx =
     (let mts = match_all PLACEHOLDER s in
      if mts = [] then Inr (JStr s)
      else if length mts = 1 \<and> slice (fst (hd mts)) (fst (snd (hd mts))) s = s
      then evalSingle feel (placeholder_expr s (hd mts)) ctx
      else case res_map (\<lambda>m. evalSingle feel (placeholder_expr s m) ctx) mts of
             Inl e \<Rightarrow> Inl e
           | Inr vs \<Rightarrow> Inr (JStr (splice s 0
               (map (\<lambda>(m, v). ((fst m, fst (snd m)), paste_str v)) (zip mts vs)))))"

fun resolve :: "feel \<Rightarrow> js \<Rightarrow> jsctx \<Rightarrow> js js_result" where
  "resolve feel (JStr s) ctx = resolve_string feel s ctx"
| "resolve feel (JArr vs) ctx =
     (case res_map (\<lambda>v. resolve feel v ctx) vs of Inl e \<Rightarrow> Inl e | Inr ws \<Rightarrow> Inr (JArr ws))"
| "resolve feel (JObj kvs) ctx =
     (case res_map (\<lambda>kv. case resolve feel (snd kv) ctx of Inl e \<Rightarrow> Inl e | Inr w \<Rightarrow> Inr (fst kv, w)) kvs of
        Inl e \<Rightarrow> Inl e | Inr kws \<Rightarrow> Inr (JObj kws))"
| "resolve feel v ctx = Inr v"

text \<open>The caller tests the expression for emptiness as the function does.\<close>

definition evalCondition :: "feel \<Rightarrow> string \<Rightarrow> jsctx \<Rightarrow> bool js_result" where
  "evalCondition feel expr ctx =
     (if expr = [] then Inr True
      else case resolve feel (JStr expr) ctx of Inl e \<Rightarrow> Inl e | Inr v \<Rightarrow> Inr (truthy v))"

section \<open>Matching a single placeholder\<close>

lemma ms_r_chr: "ms ic ml t (r_chr c) (i, cs) =
  (if i < length t \<and> cls_has ic (Cls False [(c, c)]) (t ! i) then [(Suc i, cs)] else [])"
  by (simp add: r_chr_def)

lemma in_range_same [simp]: "in_range c (d, d) = (c = d)"
proof
  assume "in_range c (d, d)"
  then have "(of_char c :: nat) = of_char d" unfolding in_range_def by (auto intro: antisym)
  then show "c = d" by simp
qed (simp add: in_range_def)

lemma not_brace_iff [simp]: "cls_has False not_brace c = (c \<noteq> CHR ''}'')"
  by (simp add: not_brace_def)

lemma takeWhile_until: "(\<forall>c \<in> set p. P c) \<Longrightarrow> \<not> P d \<Longrightarrow> takeWhile P (p @ d # r) = p"
  by (induction p) auto

text \<open>At the start of \<open>${p}rest\<close> the placeholder matches exactly \<open>${p}\<close> and captures \<open>p\<close>.\<close>

lemma map_filter_down_to_last:
  "concat (map (\<lambda>j. if Q j then [f j] else []) xs) = map f (filter Q xs)"
  by (induction xs) auto

lemma placeholder_match_at:
  assumes p: "p \<noteq> []" "CHR ''}'' \<notin> set p"
  shows "match_at PLACEHOLDER (pre @ ''${'' @ p @ ''}'' @ rest) (length pre)
         = Some (length pre + length p + 3, [(1, (length pre + 2, length pre + 2 + length p))])"
proof -
  let ?t = "pre @ ''${'' @ p @ ''}'' @ rest"
  let ?n = "length pre"
  have d0: "?t ! ?n = CHR ''$''" "?n < length ?t" by (simp_all add: nth_append)
  have d1: "?t ! Suc ?n = CHR ''{''" "Suc ?n < length ?t" by (simp_all add: nth_append)
  obtain c q where pq: "p = c # q" using p by (cases p) auto
  have d2: "?t ! (?n + 2) = c" "?n + 2 < length ?t" by (simp_all add: nth_append pq)
  have c: "c \<noteq> CHR ''}''" using p pq by auto
  have "drop (?n + 3) ?t = q @ CHR ''}'' # rest" by (simp add: pq)
  then have dr: "drop (Suc (?n + 2)) ?t = q @ CHR ''}'' # rest" by (simp add: numeral_eq_Suc)
  have tw: "takeWhile (cls_has False not_brace) (drop (Suc (?n + 2)) ?t) = q"
    unfolding dr using p pq by (intro takeWhile_until) auto
  have plus: "ms False False ?t (r_plus (RCls not_brace)) (?n + 2, [])
     = map (\<lambda>j. (j, [])) (down_to (?n + 3) (length q))"
    using d2 c by (simp only: ms_plus_cls tw) (simp add: eval_nat_numeral)
  have close: "?t ! (?n + 3 + length q) = CHR ''}''" "?n + 3 + length q < length ?t"
    by (simp_all add: nth_append pq)
  have hd: "hd (down_to (?n + 3) (length q)) = ?n + 3 + length q" "down_to (?n + 3) (length q) \<noteq> []"
    by (simp_all add: down_to_def hd_rev)
  then obtain js where js: "down_to (?n + 3) (length q) = (?n + 3 + length q) # js"
    by (metis list.exhaust_sel)
  have js': "down_to (Suc (Suc (Suc ?n))) (length q) = Suc (Suc (Suc (?n + length q))) # js"
    using js by (simp add: eval_nat_numeral)
  show ?thesis
    unfolding match_at_def PLACEHOLDER_def rx_def
    using d0 d1 plus close
    by (simp add: ms_r_chr js' pq numeral_eq_Suc)
qed

lemma re_exec_hit: "match_at x t i = Some (e, cs) \<Longrightarrow> i \<le> length t \<Longrightarrow> re_exec x t i = Some (i, e, cs)"
  by (simp add: re_exec_def upt_rec [of i] del: upt_Suc)

lemma match_all_fuel_hit:
  "match_at x t i = Some (e, cs) \<Longrightarrow> i \<le> length t \<Longrightarrow> i < e \<Longrightarrow>
   match_all_fuel x t (Suc n) i = (i, e, cs) # match_all_fuel x t n e"
  by (simp add: re_exec_hit)

text \<open>A placeholder cannot start at the very end of a string.\<close>

lemma exec_from_none: "(\<And>i. i \<in> set is \<Longrightarrow> match_at x t i = None) \<Longrightarrow> exec_from x t is = None"
  by (induction "is") auto

lemma placeholder_at_needs_dollar:
  "\<not> (i < length t \<and> t ! i = CHR ''$'') \<Longrightarrow> match_at PLACEHOLDER t i = None"
  by (auto simp: match_at_def PLACEHOLDER_def rx_def ms_r_chr)

lemma no_dollar_no_placeholder: "CHR ''$'' \<notin> set t \<Longrightarrow> match_all PLACEHOLDER t = []"
proof -
  assume a: "CHR ''$'' \<notin> set t"
  have "match_at PLACEHOLDER t i = None" for i
    using a by (intro placeholder_at_needs_dollar) (metis nth_mem)
  then have "re_exec PLACEHOLDER t 0 = None"
    unfolding re_exec_def by (intro exec_from_none) simp
  then show ?thesis by (simp add: match_all_def)
qed

lemma match_all_whole:
  assumes p: "p \<noteq> []" "CHR ''}'' \<notin> set p"
  shows "match_all PLACEHOLDER (''${'' @ p @ ''}'') = [(0, length p + 3, [(1, (2, 2 + length p))])]"
proof -
  let ?t = "''${'' @ p @ ''}''"
  have m: "match_at PLACEHOLDER ?t 0 = Some (length p + 3, [(1, (2, 2 + length p))])"
    using placeholder_match_at [OF p, of "[]" "[]"] by simp
  have end_: "re_exec PLACEHOLDER ?t (length p + 3) = None"
    unfolding re_exec_def
    by (intro exec_from_none placeholder_at_needs_dollar) auto
  have len: "length ?t + 2 = Suc (Suc (length p + 3))" by simp
  have "match_all PLACEHOLDER ?t
     = match_all_fuel PLACEHOLDER ?t (Suc (Suc (length p + 3))) 0"
    unfolding match_all_def len ..
  also have "\<dots> = (0, length p + 3, [(1, (2, 2 + length p))])
      # match_all_fuel PLACEHOLDER ?t (Suc (length p + 3)) (length p + 3)"
    by (rule match_all_fuel_hit [OF m]) auto
  also have "match_all_fuel PLACEHOLDER ?t (Suc (length p + 3)) (length p + 3) = []"
    using end_ by (simp only: match_all_fuel.simps option.case)
  finally show ?thesis .
qed

lemma resolve_single:
  assumes p: "p \<noteq> []" "CHR ''}'' \<notin> set p"
  shows "resolve feel (JStr (''${'' @ p @ ''}'')) ctx = evalSingle feel p ctx"
  by (simp add: resolve_string_def match_all_whole [OF p, simplified] placeholder_expr_def cap_def
      slice_def)

section \<open>Pure paths\<close>

definition is_pure_path :: "string \<Rightarrow> bool" where
  "is_pure_path s = (s \<noteq> [] \<and> cls_has False path_head (hd s) \<and> list_all (cls_has False path_tail) (tl s))"

lemma takeWhile_length_all: "length (takeWhile P xs) = length xs \<longleftrightarrow> list_all P xs"
  by (induction xs) auto

lemma pure_path_at_0:
  "match_at PURE_PATH_RE s 0 \<noteq> None \<longleftrightarrow> is_pure_path s"
proof (cases s)
  case Nil
  then show ?thesis by (simp add: match_at_def PURE_PATH_RE_def rx_def is_pure_path_def)
next
  case (Cons c r)
  let ?k = "length (takeWhile (cls_has False path_tail) r)"
  have k: "?k \<le> length r" by (rule length_takeWhile_le)
  have star: "ms False False s (r_star (RCls path_tail)) (Suc 0, [])
     = map (\<lambda>j. (j, [])) (down_to (Suc 0) ?k)"
    by (simp add: ms_star_cls Cons)
  have dt: "(\<exists>j \<in> set (down_to (Suc 0) ?k). Suc (length r) \<le> j) \<longleftrightarrow> ?k = length r"
    using k by (auto simp: down_to_def)
  have ne: "concat (map (\<lambda>j. if Suc (length r) \<le> j then [(j, [] :: caps)] else []) (down_to (Suc 0) ?k)) \<noteq> []
     \<longleftrightarrow> list_all (cls_has False path_tail) r"
    using dt by (auto simp: concat_eq_Nil_conv takeWhile_length_all split: if_splits)
  have lc: "(case xs of [] \<Rightarrow> None | x # _ \<Rightarrow> Some x) \<noteq> None \<longleftrightarrow> xs \<noteq> []" for xs :: "'x list"
    by (cases xs) auto
  show ?thesis
    unfolding match_at_def lc
    using ne
    by (simp add: PURE_PATH_RE_def rx_def is_pure_path_def Cons star [unfolded Cons] comp_def
        del: concat_eq_Nil_conv set_map)
qed

lemma pure_path_iff: "re_test PURE_PATH_RE s \<longleftrightarrow> is_pure_path s"
proof -
  have later: "match_at PURE_PATH_RE s (Suc i) = None" for i
    by (simp add: match_at_def PURE_PATH_RE_def rx_def)
  have "match_at PURE_PATH_RE s i = None" if "Suc 0 \<le> i" for i
    using that later [of "i - 1"] by simp
  then have "exec_from PURE_PATH_RE s [Suc 0 ..< Suc (length s)] = None"
    by (intro exec_from_none) auto
  moreover have "[0 ..< Suc (length s)] = 0 # [Suc 0 ..< Suc (length s)]"
    by (rule upt_conv_Cons) simp
  ultimately have "(re_exec PURE_PATH_RE s 0 \<noteq> None) = (match_at PURE_PATH_RE s 0 \<noteq> None)"
    unfolding re_exec_def by (auto split: option.splits)
  then show ?thesis using pure_path_at_0 by (simp add: re_test_def)
qed

lemma pure_path_chars:
  assumes "is_pure_path p"
  shows "p \<noteq> []" "CHR ''}'' \<notin> set p" "trim p = p"
proof -
  obtain c r where p: "p = c # r" using assms by (cases p) (auto simp: is_pure_path_def)
  have c: "cls_has False path_head c" and r: "\<And>d. d \<in> set r \<Longrightarrow> cls_has False path_tail d"
    using assms p by (auto simp: is_pure_path_def list_all_iff)
  have nb: "cls_has False path_head d \<Longrightarrow> d \<noteq> CHR ''}'' \<and> \<not> is_space d"
       "cls_has False path_tail d \<Longrightarrow> d \<noteq> CHR ''}'' \<and> \<not> is_space d" for d
    by (auto simp: path_head_def path_tail_def in_range_def is_space_def)
  show "p \<noteq> []" using p by simp
  have all: "d \<noteq> CHR ''}'' \<and> \<not> is_space d" if "d \<in> set p" for d
    using that p nb c r by auto
  from all show "CHR ''}'' \<notin> set p" by blast
  show "trim p = p" using all p by (intro trim_id) auto
qed

section \<open>Values without placeholders\<close>

text \<open>No string inside the value contains a placeholder.\<close>

fun placeholder_free :: "js \<Rightarrow> bool" where
  "placeholder_free (JStr s) = (match_all PLACEHOLDER s = [])"
| "placeholder_free (JArr vs) = list_all placeholder_free vs"
| "placeholder_free (JObj kvs) = list_all (\<lambda>kv. placeholder_free (snd kv)) kvs"
| "placeholder_free _ = True"

lemma resolve_placeholder_free: "placeholder_free v \<Longrightarrow> resolve feel v ctx = Inr v"
proof (induction v)
  case (JArr vs)
  then have "res_map (\<lambda>v. resolve feel v ctx) vs = Inr (map (\<lambda>v. v) vs)"
    by (intro res_map_all_Inr) (auto simp: list_all_iff)
  then show ?case by simp
next
  case (JObj kvs)
  have "res_map (\<lambda>kv. case resolve feel (snd kv) ctx of Inl e \<Rightarrow> Inl e | Inr w \<Rightarrow> Inr (fst kv, w)) kvs
        = Inr (map (\<lambda>kv. kv) kvs)"
  proof (intro res_map_all_Inr)
    fix kv assume kv: "kv \<in> set kvs"
    then have "placeholder_free (snd kv)" using JObj.prems by (auto simp: list_all_iff)
    moreover have "snd kv \<in> Basic_BNFs.snds kv" by (cases kv) simp
    ultimately have "resolve feel (snd kv) ctx = Inr (snd kv)" using JObj.IH kv by blast
    then show "(case resolve feel (snd kv) ctx of Inl e \<Rightarrow> Inl e | Inr w \<Rightarrow> Inr (fst kv, w)) = Inr kv"
      by simp
  qed
  then show ?case by simp
qed (simp_all add: resolve_string_def)

text \<open>The shape of arrays and objects is kept: length, and keys in order.\<close>

lemma res_map_fst:
  "res_map (\<lambda>kv. case g (snd kv) of Inl e \<Rightarrow> Inl e | Inr w \<Rightarrow> Inr (fst kv, w)) kvs = Inr kws \<Longrightarrow>
   map fst kws = map fst kvs"
  by (induction kvs arbitrary: kws) (auto split: sum.splits)

lemma resolve_keys: "resolve feel (JObj kvs) ctx = Inr w \<Longrightarrow> \<exists>kws. w = JObj kws \<and> map fst kws = map fst kvs"
  by (auto split: sum.splits dest: res_map_fst [where g = "\<lambda>v. resolve feel v ctx"])

lemma resolve_length: "resolve feel (JArr vs) ctx = Inr w \<Longrightarrow> \<exists>ws. w = JArr ws \<and> length ws = length vs"
  by (auto split: sum.splits dest: res_map_length)

section \<open>Operator translation\<close>

lemma lit2_at: "\<not> (i < length t \<and> t ! i = c) \<Longrightarrow> match_at (rx (r_lit [c, d])) t i = None"
  by (auto simp: match_at_def rx_def r_lit_def ms_r_chr)

lemma replace_all_none: "(\<And>i. match_at x t i = None) \<Longrightarrow> replace_all x t f = t"
  by (intro splice_no_match) (simp add: match_all_def re_exec_def exec_from_none)

lemma translateCode_id:
  assumes "CHR ''&'' \<notin> set s" "CHR ''|'' \<notin> set s" "CHR ''='' \<notin> set s"
  shows "translateCode s = s"
proof -
  have 1: "match_at and_re s i = None" for i
    unfolding and_re_def using assms(1) by (intro lit2_at) (metis nth_mem)
  have 2: "match_at or_re s i = None" for i
    unfolding or_re_def using assms(2) by (intro lit2_at) (metis nth_mem)
  have 3: "match_at eq_re s i = None" for i
  proof -
    have "i < length s \<Longrightarrow> s ! i \<noteq> CHR ''=''" using assms(3) by (metis nth_mem)
    then have "ms False False s (r_lit ''=='') (i, []) = []"
      by (cases "i < length s") (simp_all add: r_lit_def ms_r_chr)
    then show ?thesis by (simp add: match_at_def eq_re_def rx_def)
  qed
  show ?thesis
    by (simp add: translateCode_def replace_all_none [OF 1] replace_all_none [OF 2] replace_all_none [OF 3])
qed

lemma feel_segments_id:
  assumes "\<And>u. set u \<subseteq> set s \<Longrightarrow> translateCode u = u"
  shows "ordered_spans i (length s) (map (\<lambda>m. (fst m, fst (snd m))) mts') \<Longrightarrow>
         concat (feel_segments s i mts') = drop i s"
proof (induction mts' arbitrary: i)
  case Nil
  then show ?case using assms [OF set_drop_subset [of i s]] by auto
next
  case (Cons m mts')
  obtain b e cs where m: "m = (b, e, cs)" by (cases m)
  from Cons.prems m have o: "i \<le> b" "b \<le> e" "e \<le> length s"
    "ordered_spans e (length s) (map (\<lambda>m. (fst m, fst (snd m))) mts')" by auto
  have "set (slice i b s) \<subseteq> set s" by (auto simp: slice_def dest: in_set_dropD in_set_takeD)
  then have t: "translateCode (slice i b s) = slice i b s" by (rule assms)
  have e: "\<not> i < b \<Longrightarrow> slice i b s = []" by (simp add: slice_def)
  show ?case
    using slice_drop [OF o(1), of s] slice_drop [OF o(2), of s] Cons.IH [OF o(4)] t e
    by (auto simp: m)
qed

lemma jsToFeel_id:
  assumes "CHR ''&'' \<notin> set s" "CHR ''|'' \<notin> set s" "CHR ''='' \<notin> set s"
  shows "jsToFeel s = s"
proof -
  have "translateCode u = u" if "set u \<subseteq> set s" for u
    using that assms by (intro translateCode_id) auto
  from feel_segments_id [OF this match_all_ordered] show ?thesis by (simp add: jsToFeel_def)
qed

end
