(* ===== verification/ExecLimits.thy ===== *)
theory ExecLimits
  imports Workflow JsRegex "HOL-Library.Word"
begin

text \<open>
  \<open>backend/src/engine/limits.js\<close>: duration parsing, the layered defaults (node, then workflow,
  then environment), the clamps on retries and iterations, the token budget, and the race of a
  promise against its timer.  The environment is an argument: \<open>env name\<close> is
  \<open>process.env[name]\<close>.
\<close>

section \<open>Errors\<close>

definition node_timeout_error :: "string \<Rightarrow> rat \<Rightarrow> js_error" where
  "node_timeout_error name msecs =
     \<lparr>e_message = ''node '' @ quoted name @ '' timed out after '' @ show_num msecs @ ''ms'',
      e_code = Some ''NODE_TIMEOUT'', e_status = None,
      e_details = JObj [(''nodeName'', JStr name), (''timeoutMs'', JNum msecs)]\<rparr>"

definition workflow_timeout_error :: "rat \<Rightarrow> js_error" where
  "workflow_timeout_error msecs =
     \<lparr>e_message = ''workflow timed out after '' @ show_num msecs @ ''ms'',
      e_code = Some ''WORKFLOW_TIMEOUT'', e_status = None,
      e_details = JObj [(''timeoutMs'', JNum msecs)]\<rparr>"

definition iteration_cap_error :: "string \<Rightarrow> nat \<Rightarrow> int \<Rightarrow> js_error" where
  "iteration_cap_error loc n mx =
     \<lparr>e_message = loc @ '': iteration cap exceeded ('' @ show_nat n @ '' > '' @ show_int mx @ '')'',
      e_code = Some ''ITERATION_CAP'', e_status = None,
      e_details = JObj [(''where'', JStr loc), (''count'', JNum (of_nat n)), (''max'', JNum (of_int mx))]\<rparr>"

definition budget_exhausted_error :: "rat \<Rightarrow> int \<Rightarrow> js_error" where
  "budget_exhausted_error used mx =
     \<lparr>e_message = ''tokens budget exhausted ('' @ show_num used @ ''/'' @ show_int mx @ '')'',
      e_code = Some ''BUDGET_EXHAUSTED'', e_status = None,
      e_details = JObj [(''used'', JNum used), (''max'', JNum (of_int mx))]\<rparr>"

section \<open>Durations\<close>

text \<open>\<open>/^(\d+)\s*(ms|s|m|h)?$/\<close>\<close>

definition duration_re :: regex where
  "duration_re = rx (r_seq [RBol, RGrp 1 (r_plus r_d), r_star r_s,
     r_opt (RGrp 2 (r_alt [r_lit ''ms'', r_lit ''s'', r_lit ''m'', r_lit ''h''])), REol])"

definition unit_ms :: "string \<Rightarrow> nat" where
  "unit_ms u = (if u = ''ms'' then 1 else if u = ''s'' then 1000
                else if u = ''m'' then 60000 else if u = ''h'' then 3600000 else 1)"

definition parseDurationMs :: "js \<Rightarrow> rat option" where
  "parseDurationMs v =
     (if nullish v \<or> v = JStr [] then None
      else case v of
        JNum r \<Rightarrow> if 0 \<le> r then Some r else None
      | _ \<Rightarrow>
          (let s = trim (js_string v) in
           case re_exec duration_re s 0 of
             None \<Rightarrow> None
           | Some (b, e, cs) \<Rightarrow>
               (let n = digits_val (case cap s cs 1 of Some d \<Rightarrow> d | None \<Rightarrow> []);
                    u = (case cap s cs 2 of Some u \<Rightarrow> u | None \<Rightarrow> ''ms'')
                in Some (of_nat (n * unit_ms u)))))"

definition nonNegativeInt :: "js \<Rightarrow> int option" where
  "nonNegativeInt v =
     (if nullish v \<or> v = JStr [] then None
      else case parse_int (js_string v) of
             Some n \<Rightarrow> if 0 \<le> n then Some n else None
           | None \<Rightarrow> None)"

section \<open>Layered defaults\<close>

type_synonym environ = "string \<Rightarrow> string option"

definition env_js :: "environ \<Rightarrow> string \<Rightarrow> js" where
  "env_js env k = (case env k of None \<Rightarrow> JUndef | Some s \<Rightarrow> JStr s)"

record limit_defaults =
  d_nodeTimeoutMs :: rat
  d_workflowTimeoutMs :: rat
  d_maxRetries :: int
  d_maxIterations :: int
  d_maxTokens :: int

definition or_else :: "'a option \<Rightarrow> 'a \<Rightarrow> 'a" where
  "or_else x d = (case x of Some y \<Rightarrow> y | None \<Rightarrow> d)"

definition limit_DEFAULTS :: "environ \<Rightarrow> limit_defaults" where
  "limit_DEFAULTS env =
     \<lparr>d_nodeTimeoutMs = or_else (parseDurationMs (env_js env ''EXECUTION_DEFAULT_NODE_TIMEOUT'')) 60000,
      d_workflowTimeoutMs =
        or_else (parseDurationMs (env_js env ''EXECUTION_DEFAULT_WORKFLOW_TIMEOUT'')) (30 * 60000),
      d_maxRetries = or_else (nonNegativeInt (env_js env ''EXECUTION_MAX_RETRIES'')) 10,
      d_maxIterations = or_else (nonNegativeInt (env_js env ''EXECUTION_MAX_ITERATIONS'')) 10000,
      d_maxTokens = or_else (nonNegativeInt (env_js env ''EXECUTION_MAX_TOKENS'')) 100000\<rparr>"

text \<open>None stands for null: no wall-clock budget.\<close>

definition resolveNodeTimeoutMs :: "environ \<Rightarrow> js \<Rightarrow> js \<Rightarrow> rat option" where
  "resolveNodeTimeoutMs env node_timeout wf_nodeTimeout =
     (case parseDurationMs node_timeout of Some r \<Rightarrow> Some r
      | None \<Rightarrow> (case parseDurationMs wf_nodeTimeout of Some r \<Rightarrow> Some r
                 | None \<Rightarrow> Some (d_nodeTimeoutMs (limit_DEFAULTS env))))"

definition resolveWorkflowTimeoutMs :: "environ \<Rightarrow> js \<Rightarrow> rat option" where
  "resolveWorkflowTimeoutMs env wf_timeout =
     (case parseDurationMs wf_timeout of Some r \<Rightarrow> Some r
      | None \<Rightarrow> Some (d_workflowTimeoutMs (limit_DEFAULTS env)))"

definition resolveMaxRetries :: "environ \<Rightarrow> js \<Rightarrow> int" where
  "resolveMaxRetries env nodeRetry =
     (let requested = (case js_number nodeRetry of Fin n \<Rightarrow> if 0 < n then \<lfloor>n\<rfloor> else 0 | _ \<Rightarrow> 0)
      in min requested (d_maxRetries (limit_DEFAULTS env)))"

definition resolveMaxIterations :: "environ \<Rightarrow> js \<Rightarrow> int" where
  "resolveMaxIterations env wf_max = or_else (nonNegativeInt wf_max) (d_maxIterations (limit_DEFAULTS env))"

definition resolveMaxTokens :: "environ \<Rightarrow> js \<Rightarrow> int" where
  "resolveMaxTokens env wf_max = or_else (nonNegativeInt wf_max) (d_maxTokens (limit_DEFAULTS env))"

definition assertIterationCap :: "environ \<Rightarrow> js \<Rightarrow> nat \<Rightarrow> string \<Rightarrow> unit js_result" where
  "assertIterationCap env wf_max n loc =
     (let mx = resolveMaxIterations env wf_max in
      if mx < int n then Inl (iteration_cap_error loc n mx) else Inr ())"

section \<open>The token budget\<close>

text \<open>\<open>x | 0\<close>: truncate to 32 bits, two's complement.\<close>

definition trunc_rat :: "rat \<Rightarrow> int" where
  "trunc_rat r = (if r < 0 then - \<lfloor>- r\<rfloor> else \<lfloor>r\<rfloor>)"

definition to_int32 :: "rat \<Rightarrow> int" where
  "to_int32 r = sint (word_of_int (trunc_rat r) :: 32 word)"

text \<open>
  \<open>ctx._tokens\<close> is only ever a number (the worker starts it at 0 and this function is its only
  writer) or absent.  The result is the returned total or the thrown error, with the context.
\<close>

definition ctx_tokens :: "(string \<times> js) list \<Rightarrow> rat" where
  "ctx_tokens ctx = (case oget ctx ''_tokens'' of Some (JNum r) \<Rightarrow> r | _ \<Rightarrow> 0)"

definition chargeTokens ::
  "environ \<Rightarrow> (string \<times> js) list \<Rightarrow> js \<Rightarrow> rat \<Rightarrow> rat js_result \<times> (string \<times> js) list" where
  "chargeTokens env ctx wf_max used =
     (let mx = resolveMaxTokens env wf_max in
      if mx = 0 then (Inr (ctx_tokens ctx), ctx)
      else let after = ctx_tokens ctx + of_int (max 0 (to_int32 used));
               ctx' = oset ''_tokens'' (JNum after) ctx
           in if of_int mx < after then (Inl (budget_exhausted_error after mx), ctx')
              else (Inr after, ctx'))"

section \<open>withTimeout\<close>

text \<open>
  The race as a machine.  The events are what the event loop can deliver: the timer fires, or
  the wrapped promise is fulfilled or rejected.  The outcome is what the returned promise has
  been settled with.
\<close>

datatype 'a race_event = TimerFires | Fulfils 'a | Rejects js_error

record 'a race =
  r_settled :: bool
  r_timer :: bool                      \<comment> \<open>still armed\<close>
  r_outcome :: "'a js_result option"

definition race_init :: "'a race" where
  "race_init = \<lparr>r_settled = False, r_timer = True, r_outcome = None\<rparr>"

fun race_step :: "js_error \<Rightarrow> 'a race \<Rightarrow> 'a race_event \<Rightarrow> 'a race" where
  "race_step err s TimerFires =
     (if \<not> r_timer s \<or> r_settled s then s
      else s\<lparr>r_settled := True, r_timer := False, r_outcome := Some (Inl err)\<rparr>)"
| "race_step err s (Fulfils v) =
     (if r_settled s then s else s\<lparr>r_settled := True, r_timer := False, r_outcome := Some (Inr v)\<rparr>)"
| "race_step err s (Rejects e) =
     (if r_settled s then s else s\<lparr>r_settled := True, r_timer := False, r_outcome := Some (Inl e)\<rparr>)"

definition promise_result :: "'a race_event \<Rightarrow> 'a js_result option" where
  "promise_result ev = (case ev of TimerFires \<Rightarrow> None | Fulfils v \<Rightarrow> Some (Inr v) | Rejects e \<Rightarrow> Some (Inl e))"

fun first_some :: "'b option list \<Rightarrow> 'b option" where
  "first_some [] = None"
| "first_some (None # xs) = first_some xs"
| "first_some (Some x # xs) = Some x"

definition withTimeout :: "rat option \<Rightarrow> js_error \<Rightarrow> 'a race_event list \<Rightarrow> 'a js_result option" where
  "withTimeout msecs err evs =
     (case msecs of None \<Rightarrow> first_some (map promise_result evs)
      | Some r \<Rightarrow> if r \<le> 0 then first_some (map promise_result evs)
                  else r_outcome (foldl (race_step err) race_init evs))"

section \<open>Lemmas\<close>

lemma d_maxRetries_nonneg: "0 \<le> d_maxRetries (limit_DEFAULTS env)"
  by (auto simp: limit_DEFAULTS_def or_else_def nonNegativeInt_def split: option.splits if_splits)

lemma resolveMaxRetries_bounds:
  "0 \<le> resolveMaxRetries env v \<and> resolveMaxRetries env v \<le> d_maxRetries (limit_DEFAULTS env)"
  using d_maxRetries_nonneg by (auto simp: resolveMaxRetries_def Let_def split: jsnum.splits)

lemma resolveMaxIterations_nonneg: "0 \<le> resolveMaxIterations env v"
  by (auto simp: resolveMaxIterations_def limit_DEFAULTS_def or_else_def nonNegativeInt_def
      split: option.splits if_splits)

lemma assertIterationCap_ok:
  "assertIterationCap env wf_max n loc = Inr () \<longleftrightarrow> int n \<le> resolveMaxIterations env wf_max"
  by (auto simp: assertIterationCap_def Let_def)

text \<open>No environment setting makes a resolver return null.\<close>

lemma resolveNodeTimeoutMs_not_null: "resolveNodeTimeoutMs env a b \<noteq> None"
  by (auto simp: resolveNodeTimeoutMs_def split: option.splits)

lemma resolveWorkflowTimeoutMs_not_null: "resolveWorkflowTimeoutMs env a \<noteq> None"
  by (auto simp: resolveWorkflowTimeoutMs_def split: option.splits)

lemma race_settled_stays:
  "r_settled s \<Longrightarrow> foldl (race_step err) s evs = s"
proof (induction evs arbitrary: s)
  case Nil
  then show ?case by simp
next
  case (Cons ev evs)
  then show ?case by (cases ev) simp_all
qed

text \<open>Within the race, the first event decides.\<close>

lemma race_first_event:
  "r_outcome (foldl (race_step err) race_init (ev # evs)) =
     Some (case ev of TimerFires \<Rightarrow> Inl err | Fulfils v \<Rightarrow> Inr v | Rejects e \<Rightarrow> Inl e)"
  by (cases ev) (simp_all add: race_init_def race_settled_stays)

lemma chargeTokens_state:
  "chargeTokens env ctx wf_max used = (r, ctx') \<Longrightarrow> ctx_tokens ctx \<le> ctx_tokens ctx'"
  by (auto simp: chargeTokens_def Let_def ctx_tokens_def split: if_splits)

end
