(* ===== verification/NodeStateStore.thy ===== *)
theory NodeStateStore
  imports Errors
begin

text \<open>
  \<open>backend/src/engine/nodeStateStore.js\<close>: the table \<open>node_states\<close>, one row per execution and
  node, and the housekeeping that runs when a worker starts.  The SQL of the file is read as
  operations on insertion-ordered maps; \<open>now\<close> is the value of \<open>NOW()\<close>.  A null column is JNull,
  except \<open>resolved_inputs\<close>, where the JSON document null and the absent value differ.
\<close>

record ns_row =
  ns_status :: js
  ns_attempts :: js
  ns_inputs :: "js option"
  ns_output :: js
  ns_error :: js
  ns_reason :: js
  ns_started :: js
  ns_finished :: js
  ns_updated :: js

text \<open>The partial record a caller passes; an absent property is undefined.\<close>

record ns_partial =
  np_status :: js
  np_attempts :: js
  np_inputs :: js
  np_output :: js
  np_error :: js
  np_reason :: js
  np_started :: js
  np_finished :: js

type_synonym ns_table = "(string \<times> string, ns_row) omap"

definition or_null :: "js \<Rightarrow> js" where
  "or_null v = js_nullish v JNull"

text \<open>The row of the VALUES clause.\<close>

definition ns_insert :: "js \<Rightarrow> ns_partial \<Rightarrow> ns_row" where
  "ns_insert now p =
     \<lparr>ns_status = or_null (np_status p), ns_attempts = or_null (np_attempts p),
      ns_inputs = (if np_inputs p = JUndef then None else Some (np_inputs p)),
      ns_output = or_null (np_output p), ns_error = or_null (np_error p),
      ns_reason = or_null (np_reason p), ns_started = or_null (np_started p),
      ns_finished = or_null (np_finished p), ns_updated = now\<rparr>"

text \<open>COALESCE(a, b)\<close>

definition coalesce :: "js \<Rightarrow> js \<Rightarrow> js" where
  "coalesce a b = (if a = JNull then b else a)"

text \<open>The DO UPDATE clause: every column prefers the new value, \<open>started_at\<close> the old one.\<close>

definition ns_merge :: "js \<Rightarrow> ns_partial \<Rightarrow> ns_row \<Rightarrow> ns_row" where
  "ns_merge now p old =
     (let ex = ns_insert now p in
      \<lparr>ns_status = coalesce (ns_status ex) (ns_status old),
       ns_attempts = coalesce (ns_attempts ex) (ns_attempts old),
       ns_inputs = (case ns_inputs ex of Some v \<Rightarrow> Some v | None \<Rightarrow> ns_inputs old),
       ns_output = coalesce (ns_output ex) (ns_output old),
       ns_error = coalesce (ns_error ex) (ns_error old),
       ns_reason = coalesce (ns_reason ex) (ns_reason old),
       ns_started = coalesce (ns_started old) (ns_started ex),
       ns_finished = coalesce (ns_finished ex) (ns_finished old),
       ns_updated = now\<rparr>)"

definition upsertNodeState :: "js \<Rightarrow> string \<times> string \<Rightarrow> ns_partial \<Rightarrow> ns_table \<Rightarrow> ns_table" where
  "upsertNodeState now k p t =
     (if fst k = [] \<or> snd k = [] then t else upsert (ns_insert now) (ns_merge now) k p t)"

text \<open>What \<open>loadNodeStates\<close> returns for one row (the inputs stay behind).\<close>

definition loaded :: "ns_row \<Rightarrow> js" where
  "loaded r = JObj [(''status'', ns_status r), (''attempts'', ns_attempts r), (''output'', ns_output r),
     (''error'', ns_error r), (''reason'', ns_reason r), (''startedAt'', ns_started r),
     (''finishedAt'', ns_finished r)]"

definition loadNodeStates :: "string \<Rightarrow> ns_table \<Rightarrow> (string \<times> js) list" where
  "loadNodeStates eid t = map (\<lambda>e. (snd (fst e), loaded (snd e))) (filter (\<lambda>e. fst (fst e) = eid) t)"

definition loadResolvedInputs :: "string \<Rightarrow> string \<Rightarrow> ns_table \<Rightarrow> js" where
  "loadResolvedInputs eid name t =
     (case oget t (eid, name) of None \<Rightarrow> JNull
      | Some r \<Rightarrow> (case ns_inputs r of None \<Rightarrow> JNull | Some v \<Rightarrow> js_nullish v JNull))"

definition update_row :: "'k \<Rightarrow> ('r \<Rightarrow> 'r) \<Rightarrow> ('k, 'r) omap \<Rightarrow> ('k, 'r) omap" where
  "update_row k f t = (case oget t k of None \<Rightarrow> t | Some r \<Rightarrow> oset k (f r) t)"

definition resetNodeForReplay :: "js \<Rightarrow> string \<Rightarrow> string \<Rightarrow> string \<Rightarrow> ns_table \<Rightarrow> ns_table" where
  "resetNodeForReplay now eid name target t =
     update_row (eid, name) (\<lambda>r. r\<lparr>ns_status := JStr target, ns_output := JNull, ns_error := JNull,
        ns_reason := (if target = ''skipped'' then JStr ''skipped via resume'' else JNull),
        ns_finished := JNull, ns_updated := now\<rparr>) t"

record exec_row =
  er_status :: string
  er_finished :: js
  er_error :: js
  er_started :: js
  er_inputs :: js
  er_context :: js
  er_graph :: string
  er_workspace :: string
  er_project :: string

type_synonym exec_table = "(string, exec_row) omap"

text \<open>
  Executions still marked running that no queue job is working on are failed, and so is each of
  their running nodes.
\<close>

definition orphaned :: "string list \<Rightarrow> string \<times> exec_row \<Rightarrow> bool" where
  "orphaned active e = (er_status (snd e) = ''running'' \<and> fst e \<notin> set active)"

definition reapOrphanedExecutions ::
  "js \<Rightarrow> string list \<Rightarrow> exec_table \<times> ns_table \<Rightarrow> string list \<times> exec_table \<times> ns_table" where
  "reapOrphanedExecutions now active st =
     (let ids = map fst (filter (orphaned active) (fst st));
          et = map (\<lambda>e. if orphaned active e
                        then (fst e, (snd e)\<lparr>er_status := ''failed'', er_finished := now,
                               er_error := coalesce (er_error (snd e))
                                 (JStr ''worker crashed before completion (auto-reaped on boot)'')\<rparr>)
                        else e) (fst st);
          nt = map (\<lambda>e. if ns_status (snd e) = JStr ''running'' \<and> fst (fst e) \<in> set ids
                        then (fst e, (snd e)\<lparr>ns_status := JStr ''failed'',
                               ns_error := coalesce (ns_error (snd e)) (JStr ''worker crashed mid-node''),
                               ns_finished := now, ns_updated := now\<rparr>)
                        else e) (snd st)
      in (ids, et, nt))"

section \<open>Lemmas\<close>

lemma coalesce_JNull [simp]: "coalesce JNull b = b" "coalesce a JNull = a"
  by (auto simp: coalesce_def)

lemma coalesce_idem [simp]: "coalesce a (coalesce a b) = coalesce a b"
  by (simp add: coalesce_def)

lemma coalesce_assoc [simp]: "coalesce (coalesce a b) c = coalesce a (coalesce b c)"
  by (simp add: coalesce_def)

definition live_key :: "string \<times> string \<Rightarrow> bool" where
  "live_key k = (fst k \<noteq> [] \<and> snd k \<noteq> [])"

text \<open>
  The table as an upsert interface (keys with an empty part are never written, so they are
  read as absent).
\<close>

definition ns_look :: "ns_table \<Rightarrow> string \<times> string \<Rightarrow> ns_row option" where
  "ns_look t k = oget t k"

interpretation ns: upsert_table ns_look "upsert (ns_insert now) (ns_merge now)" "ns_insert now" "ns_merge now"
  for now
  by unfold_locales (simp add: ns_look_def)

lemma upsert_live: "live_key k \<Longrightarrow> upsertNodeState now k p t = upsert (ns_insert now) (ns_merge now) k p t"
  by (auto simp: upsertNodeState_def live_key_def)

lemma upsert_repeat: "ns_look (upsertNodeState now k p (upsertNodeState now k p t)) k' = ns_look (upsertNodeState now k p t) k'"
proof (cases "live_key k")
  case True
  have m: "ns_merge now p (ns_merge now p r) = ns_merge now p r" for r
    by (simp add: ns_merge_def Let_def) (simp add: coalesce_def split: option.splits)
  have i: "ns_merge now p (ns_insert now p) = ns_insert now p"
    by (simp add: ns_merge_def Let_def) (simp add: coalesce_def ns_insert_def)
  show ?thesis unfolding upsert_live [OF True] by (rule ns.repeat_write [OF m i])
qed (auto simp: upsertNodeState_def live_key_def)

text \<open>COALESCE never clears a column: an error once written stays until the row is reset.\<close>

lemma upsert_error_stays:
  "ns_look t k = Some r \<Longrightarrow> ns_error r \<noteq> JNull \<Longrightarrow>
   \<exists>r'. ns_look (upsertNodeState now k' p t) k = Some r' \<and> ns_error r' \<noteq> JNull"
  by (auto simp: upsertNodeState_def ns_look_def ns_merge_def Let_def coalesce_def split: if_splits)

lemma upsert_started_first:
  "ns_look t k = Some r \<Longrightarrow> ns_started r \<noteq> JNull \<Longrightarrow>
   \<exists>r'. ns_look (upsertNodeState now k' p t) k = Some r' \<and> ns_started r' = ns_started r"
  by (auto simp: upsertNodeState_def ns_look_def ns_merge_def Let_def coalesce_def)

lemma reap_no_running:
  "reapOrphanedExecutions now active (et, nt) = (ids, et', nt') \<Longrightarrow> (i, r) \<in> set et' \<Longrightarrow>
   er_status r = ''running'' \<Longrightarrow> i \<in> set active \<and> (i, r) \<in> set et"
  by (auto simp: reapOrphanedExecutions_def Let_def orphaned_def split: if_splits)

end
