(* ===== verification/Executor.thy ===== *)
theory Executor
  imports Dag Expression ExecLimits NodeStateStore
begin

text \<open>
  \<open>backend/src/engine/executor.js\<close>: one run of a parsed workflow.  The state \<open>exec\<close> holds the
  variables of \<open>executeDag\<close>: the context, the results, the remaining indegrees, the ready list, the
  layer being awaited with the jobs in flight, the abort flag, the emitted events and the
  writes handed to \<open>persistNodeState\<close>.  Every handler between two awaits is one function on this
  state; \<open>ExecutorRun\<close> closes them into a step relation.

  The plugin registry is a parameter: \<open>g_primary\<close> is \<open>registry.get(action).primaryOutput\<close> (or the
  error \<open>get\<close> throws), and what a plugin call does is the list of events its race with the timer
  sees (\<open>ExecLimits.race_event\<close>).  Not modelled: the tracing spans, the stream hooks, writes of a
  plugin into the context object it receives, the delay between attempts, and the items of a
  failed batch that are still running when the node has been recorded as failed.
\<close>

section \<open>State\<close>

record outcome =
  o_status :: string
  o_output :: js
  o_error :: js
  o_reason :: js
  o_started :: js
  o_finished :: js
  o_attempts :: js

text \<open>One item of a node's work: a plain node has one, a batch node one per element.\<close>

record item =
  it_input :: js
  it_attempt :: nat
  it_result :: "js js_result option"

record job =
  j_batch :: bool
  j_started :: js
  j_items :: "item list"

record exec =
  x_ctx :: jsctx
  x_results :: "(string, outcome) omap"
  x_remaining :: degs
  x_ready :: "string list"
  x_layer :: "string list option"
  x_running :: "(string, job) omap"
  x_aborting :: "string option"
  x_events :: "(string \<times> (string \<times> js) list) list"
  x_writes :: "(string \<times> ns_partial) list"
  x_crash :: "js_error option"
  x_status :: "string option"

record engine =
  g_env :: environ
  g_feel :: feel
  g_primary :: "string \<Rightarrow> string option js_result"
  g_wf :: workflow
  g_dag :: dag
  g_override :: "(string \<times> js) list"

definition outcome0 :: "string \<Rightarrow> outcome" where
  "outcome0 st = \<lparr>o_status = st, o_output = JUndef, o_error = JUndef, o_reason = JUndef,
     o_started = JUndef, o_finished = JUndef, o_attempts = JUndef\<rparr>"

section \<open>Results and events\<close>

text \<open>
  \<open>nodeResults[name]\<close> is truthy for a recorded node, and also for every name that a plain object
  inherits.
\<close>

definition has_result :: "exec \<Rightarrow> string \<Rightarrow> bool" where
  "has_result s name = obj_in name (map (\<lambda>e. (fst e, JNull)) (x_results s))"

definition status_of :: "exec \<Rightarrow> string \<Rightarrow> string option" where
  "status_of s name = map_option o_status (oget (x_results s) name)"

definition emit :: "string \<Rightarrow> (string \<times> js) list \<Rightarrow> exec \<Rightarrow> exec" where
  "emit ev payload s = s\<lparr>x_events := x_events s @ [(ev, payload)]\<rparr>"

definition crash :: "js_error \<Rightarrow> exec \<Rightarrow> exec" where
  "crash e s = (case x_crash s of None \<Rightarrow> s\<lparr>x_crash := Some e\<rparr> | Some _ \<Rightarrow> s)"

text \<open>\<open>ctx.nodes[name] = v\<close>, when \<open>ctx.nodes\<close> may have been overwritten by an output variable.\<close>

definition set_node_entry :: "string \<Rightarrow> js \<Rightarrow> jsctx \<Rightarrow> jsctx js_result" where
  "set_node_entry name v ctx =
     (case oget ctx ''nodes'' of
        Some (JObj kvs) \<Rightarrow> Inr (oset ''nodes'' (JObj (oset name v kvs)) ctx)
      | Some (JArr _) \<Rightarrow> if name = ''length'' then Inl (plain_error ''Invalid array length'') else Inr ctx
      | _ \<Rightarrow> Inl (plain_error (''Cannot set properties of ctx.nodes (setting '' @ quoted name @ '')'')))"

definition node_entry :: "outcome \<Rightarrow> js" where
  "node_entry oc = JObj [(''status'', JStr (o_status oc)), (''output'', or_null (o_output oc)),
     (''error'', or_null (o_error oc)), (''reason'', or_null (o_reason oc)),
     (''startedAt'', or_null (o_started oc)), (''finishedAt'', or_null (o_finished oc)),
     (''attempts'', or_null (o_attempts oc))]"

definition entry_partial :: "outcome \<Rightarrow> ns_partial" where
  "entry_partial oc = \<lparr>np_status = JStr (o_status oc), np_attempts = or_null (o_attempts oc),
     np_inputs = JUndef, np_output = or_null (o_output oc), np_error = or_null (o_error oc),
     np_reason = or_null (o_reason oc), np_started = or_null (o_started oc),
     np_finished = or_null (o_finished oc)\<rparr>"

text \<open>\<open>recordOutcome(name, record)\<close>, then \<open>k\<close>; a throw skips the rest of the handler.\<close>

definition recordOutcome :: "string \<Rightarrow> outcome \<Rightarrow> (exec \<Rightarrow> exec) \<Rightarrow> exec \<Rightarrow> exec" where
  "recordOutcome name oc k s =
     (let s1 = s\<lparr>x_results := oset name oc (x_results s)\<rparr> in
      case set_node_entry name (node_entry oc) (x_ctx s1) of
        Inl e \<Rightarrow> crash e s1
      | Inr ctx' \<Rightarrow> k (s1\<lparr>x_ctx := ctx', x_writes := x_writes s @ [(name, entry_partial oc)]\<rparr>))"

definition emit_status :: "string \<Rightarrow> string \<Rightarrow> (string \<times> js) list \<Rightarrow> exec \<Rightarrow> exec" where
  "emit_status name st extra s = emit ''node:status'' ([(''node'', JStr name), (''status'', JStr st)] @ extra) s"

definition handleFailure :: "node \<Rightarrow> exec \<Rightarrow> exec" where
  "handleFailure node s =
     (if (if n_onError node = [] then ''terminate'' else n_onError node) = ''terminate''
      then s\<lparr>x_aborting := Some (''node '' @ n_name node @ '' failed'')\<rparr> else s)"

definition finish_node :: "node \<Rightarrow> outcome \<Rightarrow> (string \<times> js) list \<Rightarrow> (exec \<Rightarrow> exec) \<Rightarrow> exec \<Rightarrow> exec" where
  "finish_node node oc extra k s =
     recordOutcome (n_name node) oc (\<lambda>s1. k (emit_status (n_name node) (o_status oc) extra s1)) s"

section \<open>Outputs\<close>

definition out_path :: "js \<Rightarrow> string \<Rightarrow> js" where
  "out_path obj path = (if path = [] then obj else js_walk obj (split_str ''.'' path))"

fun apply_pairs :: "js \<Rightarrow> (string \<times> js) list \<Rightarrow> jsctx \<Rightarrow> jsctx" where
  "apply_pairs raw [] ctx = ctx"
| "apply_pairs raw ((field, var) # rest) ctx =
     apply_pairs raw rest (if truthy var then oset (js_string var) (out_path raw field) ctx else ctx)"

definition applyOutputMapping :: "js \<Rightarrow> js \<Rightarrow> jsctx \<Rightarrow> jsctx" where
  "applyOutputMapping raw mapping ctx = (if truthy mapping then apply_pairs raw (js_entries mapping) ctx else ctx)"

definition primary_value :: "string option \<Rightarrow> js \<Rightarrow> js" where
  "primary_value primary out =
     (case primary of None \<Rightarrow> out
      | Some p \<Rightarrow> if p \<noteq> [] \<and> is_objlike out \<and> js_in p out then js_get out p else out)"

definition bind_outputs :: "engine \<Rightarrow> node \<Rightarrow> js \<Rightarrow> jsctx \<Rightarrow> jsctx js_result" where
  "bind_outputs eng node out ctx =
     (let ctx1 = applyOutputMapping out (n_outputs node) ctx in
      if n_outputVar node = [] then Inr ctx1
      else case g_primary eng (n_action node) of
             Inl e \<Rightarrow> Inl e
           | Inr p \<Rightarrow> Inr (oset (n_outputVar node) (primary_value p out) ctx1))"

text \<open>\<open>/^(\d+)\s*(ms|s|m)?$/\<close>, of the executor's own duration parser.\<close>

definition exec_duration_re :: regex where
  "exec_duration_re = rx (r_seq [RBol, RGrp 1 (r_plus r_d), r_star r_s,
     r_opt (RGrp 2 (r_alt [r_lit ''ms'', r_lit ''s'', r_lit ''m''])), REol])"

definition exec_parseDuration :: "js \<Rightarrow> rat" where
  "exec_parseDuration d =
     (if nullish d then 0
      else case d of JNum r \<Rightarrow> r
      | _ \<Rightarrow> (let s = js_string d in
          case re_exec exec_duration_re s 0 of
            None \<Rightarrow> 0
          | Some (b, e, cs) \<Rightarrow>
              (let n = digits_val (case cap s cs 1 of Some x \<Rightarrow> x | None \<Rightarrow> []);
                   u = (case cap s cs 2 of Some u \<Rightarrow> u | None \<Rightarrow> ''ms'')
               in of_nat (if u = ''ms'' then n else if u = ''s'' then n * 1000
                          else if u = ''m'' then n * 60000 else n))))"

section \<open>Starting a node\<close>

definition parents_of :: "engine \<Rightarrow> string \<Rightarrow> string list" where
  "parents_of eng name = map e_from (filter (\<lambda>e. e_to e = name) (w_edges (g_wf eng)))"

definition fail_node :: "js \<Rightarrow> js \<Rightarrow> js \<Rightarrow> js_error \<Rightarrow> node \<Rightarrow> exec \<Rightarrow> exec" where
  "fail_node now started attempts e node s =
     finish_node node
       ((outcome0 ''failed'')\<lparr>o_error := JStr (e_message e), o_attempts := attempts,
          o_started := started, o_finished := now\<rparr>)
       [(''error'', JStr (e_message e))] (handleFailure node) s"

definition fail_early :: "string \<Rightarrow> js_error \<Rightarrow> (exec \<Rightarrow> exec) \<Rightarrow> node \<Rightarrow> exec \<Rightarrow> exec" where
  "fail_early pre e k node s =
     finish_node node ((outcome0 ''failed'')\<lparr>o_error := JStr (pre @ e_message e)\<rparr>)
       [(''error'', JStr (e_message e))] k s"

definition skip_node :: "string \<Rightarrow> node \<Rightarrow> exec \<Rightarrow> exec" where
  "skip_node reason node s =
     finish_node node ((outcome0 ''skipped'')\<lparr>o_reason := JStr reason\<rparr>) [(''reason'', JStr reason)] (\<lambda>s. s) s"

definition raw_inputs :: "node \<Rightarrow> js" where
  "raw_inputs node = js_or (n_inputs node) (JObj [])"

definition item_ctx :: "jsctx \<Rightarrow> js \<Rightarrow> nat \<Rightarrow> jsctx" where
  "item_ctx ctx v i = oset ''index'' (JNum (of_nat i)) (oset ''item'' v ctx)"

definition start_item :: "engine \<Rightarrow> node \<Rightarrow> jsctx \<Rightarrow> nat \<times> js \<Rightarrow> item" where
  "start_item eng node ctx iv =
     (case resolve (g_feel eng) (raw_inputs node) (item_ctx ctx (snd iv) (fst iv)) of
        Inl e \<Rightarrow> \<lparr>it_input = JUndef, it_attempt = 0, it_result = Some (Inl e)\<rparr>
      | Inr inp \<Rightarrow> \<lparr>it_input = inp, it_attempt = 1, it_result = None\<rparr>)"

definition running_partial :: "js \<Rightarrow> js \<Rightarrow> ns_partial" where
  "running_partial now inputs = \<lparr>np_status = JStr ''running'', np_attempts = JUndef, np_inputs = inputs,
     np_output = JUndef, np_error = JUndef, np_reason = JUndef, np_started = now, np_finished = JUndef\<rparr>"

definition launch :: "engine \<Rightarrow> js \<Rightarrow> node \<Rightarrow> js \<Rightarrow> js list option \<Rightarrow> exec \<Rightarrow> exec" where
  "launch eng now node inputs batch s =
     (let s1 = emit_status (n_name node) ''running'' [(''input'', inputs)] s;
          s2 = s1\<lparr>x_writes := x_writes s1 @ [(n_name node, running_partial now inputs)]\<rparr>
      in case batch of
           None \<Rightarrow> s2\<lparr>x_running := oset (n_name node)
                     \<lparr>j_batch = False, j_started = now,
                      j_items = [\<lparr>it_input = inputs, it_attempt = 1, it_result = None\<rparr>]\<rparr> (x_running s2)\<rparr>
         | Some vs \<Rightarrow>
             (case assertIterationCap (g_env eng) (w_maxIterations (g_wf eng)) (length vs)
                     (''node '' @ quoted (n_name node) @ '' batch'') of
                Inl e \<Rightarrow> fail_node now now JUndef e node s2
              | Inr _ \<Rightarrow> s2\<lparr>x_running := oset (n_name node)
                     \<lparr>j_batch = True, j_started = now,
                      j_items = map (start_item eng node (x_ctx s2)) (enumerate 0 vs)\<rparr> (x_running s2)\<rparr>))"

text \<open>\<open>runOneInner\<close> up to its first await.\<close>

definition start_node :: "engine \<Rightarrow> js \<Rightarrow> node \<Rightarrow> exec \<Rightarrow> exec" where
  "start_node eng now node s =
     (case find (\<lambda>p. status_of s p = Some ''skipped'') (parents_of eng (n_name node)) of
        Some p \<Rightarrow> skip_node (''upstream '' @ quoted p @ '' was skipped'') node s
      | None \<Rightarrow>
     (case (if n_executeIf node = [] then Inr True else evalCondition (g_feel eng) (n_executeIf node) (x_ctx s)) of
        Inl e \<Rightarrow> fail_early ''executeIf eval failed: '' e (\<lambda>s. s) node s
      | Inr cond \<Rightarrow>
     (if \<not> cond then skip_node ''executeIf=false'' node s else
     (case (case oget (g_override eng) (n_name node) of
              Some v \<Rightarrow> Inr v | None \<Rightarrow> resolve (g_feel eng) (raw_inputs node) (x_ctx s)) of
        Inl e \<Rightarrow> fail_early ''input resolve failed: '' e (handleFailure node) node s
      | Inr inputs \<Rightarrow>
     (if n_batchOver node = [] then launch eng now node inputs None s else
     (case resolve (g_feel eng) (JStr (n_batchOver node)) (x_ctx s) of
        Inl e \<Rightarrow> fail_early ''batchOver eval failed: '' e (handleFailure node) node s
      | Inr (JArr vs) \<Rightarrow> launch eng now node inputs (Some vs) s
      | Inr v \<Rightarrow> fail_early [] (plain_error
            (''batchOver did not resolve to an array (got '' @ js_typeof v @ '')'')) (handleFailure node) node s))))))"

section \<open>Attempts\<close>

text \<open>The race of one plugin call against the node's timer; None while nothing has happened.\<close>

definition attempt_result :: "engine \<Rightarrow> node \<Rightarrow> js race_event list \<Rightarrow> js js_result option" where
  "attempt_result eng node evs =
     (let t = resolveNodeTimeoutMs (g_env eng) (n_timeout node) (w_nodeTimeout (g_wf eng)) in
      withTimeout t (node_timeout_error (n_name node) (case t of Some r \<Rightarrow> r | None \<Rightarrow> 0)) evs)"

definition item_failed :: "item \<Rightarrow> bool" where
  "item_failed it = (case it_result it of Some (Inl _) \<Rightarrow> True | _ \<Rightarrow> False)"

definition item_done :: "item \<Rightarrow> bool" where
  "item_done it = (case it_result it of Some (Inr _) \<Rightarrow> True | _ \<Rightarrow> False)"

text \<open>\<open>Promise.all\<close> is settled: one item failed, or all are done.\<close>

definition job_decided :: "job \<Rightarrow> bool" where
  "job_decided j = (list_ex item_failed (j_items j) \<or> list_all item_done (j_items j))"

definition max_retries :: "engine \<Rightarrow> node \<Rightarrow> int" where
  "max_retries eng node = resolveMaxRetries (g_env eng) (n_retry node)"

text \<open>One turn of the loop of \<open>attemptOnce\<close> for item \<open>i\<close>, whose call has settled with \<open>r\<close>.\<close>

definition next_item :: "engine \<Rightarrow> node \<Rightarrow> js js_result \<Rightarrow> item \<Rightarrow> item" where
  "next_item eng node r it =
     (case r of
        Inr v \<Rightarrow> it\<lparr>it_result := Some (Inr v)\<rparr>
      | Inl e \<Rightarrow> if max_retries eng node < int (it_attempt it)
                 then it\<lparr>it_result := Some (Inl e)\<rparr>
                 else it\<lparr>it_attempt := Suc (it_attempt it)\<rparr>)"

definition settle :: "engine \<Rightarrow> node \<Rightarrow> job \<Rightarrow> nat \<Rightarrow> js js_result \<Rightarrow> exec \<Rightarrow> exec" where
  "settle eng node j i r s =
     (let it = j_items j ! i;
          s1 = (case r of Inr _ \<Rightarrow> s
                | Inl e \<Rightarrow> emit_status (n_name node) ''retrying''
                     [(''attempt'', JNum (of_nat (it_attempt it))), (''error'', JStr (e_message e))] s)
      in s1\<lparr>x_running := oset (n_name node) (j\<lparr>j_items := (j_items j)[i := next_item eng node r it]\<rparr>) (x_running s1)\<rparr>)"

section \<open>Completing a node\<close>

definition first_error :: "item list \<Rightarrow> (js_error \<times> nat) option" where
  "first_error its =
     (case find item_failed its of None \<Rightarrow> None
      | Some it \<Rightarrow> (case it_result it of Some (Inl e) \<Rightarrow> Some (e, it_attempt it) | _ \<Rightarrow> None))"

definition item_value :: "item \<Rightarrow> js" where
  "item_value it = (case it_result it of Some (Inr v) \<Rightarrow> v | _ \<Rightarrow> JUndef)"

definition job_output :: "job \<Rightarrow> js" where
  "job_output j =
     (if j_batch j then JObj [(''items'', JArr (map item_value (j_items j))),
                              (''count'', JNum (of_nat (length (j_items j))))]
      else item_value (hd (j_items j)))"

definition job_attempts :: "job \<Rightarrow> js" where
  "job_attempts j = (if j_batch j then JNum 1 else JNum (of_nat (it_attempt (hd (j_items j)))))"

definition WAITING_MARKER :: string where "WAITING_MARKER = ''__dag_waiting__''"

definition is_waiting :: "js \<Rightarrow> bool" where
  "is_waiting out = (is_objlike out \<and> js_get out WAITING_MARKER = JBool True)"

definition complete :: "engine \<Rightarrow> js \<Rightarrow> node \<Rightarrow> job \<Rightarrow> exec \<Rightarrow> exec" where
  "complete eng now node j s0 =
     (let s = s0\<lparr>x_running := odel (n_name node) (x_running s0)\<rparr> in
      case first_error (j_items j) of
        Some (e, a) \<Rightarrow> fail_node now (j_started j) (if j_batch j then JUndef else JNum (of_nat a)) e node s
      | None \<Rightarrow>
          (let out = job_output j; att = job_attempts j;
               oc = (outcome0 ''success'')\<lparr>o_output := out, o_attempts := att,
                      o_started := j_started j, o_finished := now\<rparr>;
               extra = [(''output'', out), (''attempts'', att), (''startedAt'', j_started j), (''finishedAt'', now)]
           in if is_waiting out then finish_node node (oc\<lparr>o_status := ''waiting''\<rparr>) extra (\<lambda>s. s) s
              else case bind_outputs eng node out (x_ctx s) of
                     Inl e \<Rightarrow> crash e (s\<lparr>x_ctx := applyOutputMapping out (n_outputs node) (x_ctx s)\<rparr>)
                   | Inr ctx' \<Rightarrow> finish_node node oc extra (\<lambda>s. s) (s\<lparr>x_ctx := ctx'\<rparr>)))"

section \<open>Layers\<close>

definition byName_of :: "engine \<Rightarrow> string \<Rightarrow> node option" where
  "byName_of eng name = oget (d_byName (g_dag eng)) name"

definition start_named :: "engine \<Rightarrow> js \<Rightarrow> string \<Rightarrow> exec \<Rightarrow> exec" where
  "start_named eng now name s =
     (case byName_of eng name of Some node \<Rightarrow> start_node eng now node s | None \<Rightarrow> s)"

definition begin_layer :: "engine \<Rightarrow> js \<Rightarrow> exec \<Rightarrow> exec" where
  "begin_layer eng now s =
     fold (start_named eng now) (x_ready s) (s\<lparr>x_ready := [], x_layer := Some (x_ready s)\<rparr>)"

definition roll_forward :: "engine \<Rightarrow> string \<Rightarrow> exec \<Rightarrow> exec" where
  "roll_forward eng name s =
     (if status_of s name = Some ''waiting'' then s
      else let st = release (\<lambda>x. \<not> has_result s x) (succs_of (d_adj (g_dag eng)) name) (x_remaining s, x_ready s)
           in s\<lparr>x_remaining := fst st, x_ready := snd st\<rparr>)"

definition end_layer :: "engine \<Rightarrow> string list \<Rightarrow> exec \<Rightarrow> exec" where
  "end_layer eng layer s =
     (if x_aborting s \<noteq> None then s\<lparr>x_layer := None\<rparr>
      else (fold (roll_forward eng) layer s)\<lparr>x_layer := None\<rparr>)"

section \<open>The end of a run\<close>

definition node_order :: "engine \<Rightarrow> string list" where
  "node_order eng = okeys (d_byName (g_dag eng))"

definition pending_outcome :: "string \<Rightarrow> outcome" where
  "pending_outcome reason = (outcome0 ''pending'')\<lparr>o_reason := JStr reason\<rparr>"

definition mark_pending :: "bool \<Rightarrow> string \<Rightarrow> string \<Rightarrow> exec \<Rightarrow> exec" where
  "mark_pending announce reason name s =
     (if has_result s name \<or> x_crash s \<noteq> None then s
      else recordOutcome name (pending_outcome reason)
             (if announce then emit_status name ''pending'' [(''reason'', JStr reason)] else (\<lambda>s. s)) s)"

definition overall_status :: "exec \<Rightarrow> string" where
  "overall_status s =
     (let sts = map (o_status \<circ> snd) (x_results s) in
      if x_aborting s \<noteq> None then ''failed''
      else if ''failed'' \<in> set sts then ''partial''
      else if ''waiting'' \<in> set sts then ''waiting''
      else ''success'')"

definition finish_run :: "engine \<Rightarrow> exec \<Rightarrow> exec" where
  "finish_run eng s =
     (let s1 = (case x_aborting s of None \<Rightarrow> s
                | Some r \<Rightarrow> fold (mark_pending True r) (node_order eng) s);
          s2 = fold (mark_pending False ''not reached'') (node_order eng) s1
      in if x_crash s2 \<noteq> None then s2
         else (emit ''execution:end'' [(''status'', JStr (overall_status s2))] s2)
                \<lparr>x_status := Some (overall_status s2)\<rparr>)"

section \<open>Hydration\<close>

definition prev_entry :: "outcome \<Rightarrow> js" where
  "prev_entry oc = JObj [(''status'', JStr (o_status oc)), (''attempts'', o_attempts oc),
     (''output'', o_output oc), (''error'', o_error oc), (''reason'', o_reason oc),
     (''startedAt'', o_started oc), (''finishedAt'', o_finished oc)]"

definition terminal_status :: "string \<Rightarrow> bool" where
  "terminal_status st = (st \<in> set [''success'', ''failed'', ''skipped''])"

text \<open>\<open>remaining.set(next, Math.max(0, remaining.get(next) - 1))\<close>\<close>

definition lower_deg :: "string \<Rightarrow> degs \<Rightarrow> degs" where
  "lower_deg k m = oset k (map_option (\<lambda>d. max 0 (d - 1)) (deg_of m k)) m"

definition mirror :: "string \<Rightarrow> outcome \<Rightarrow> (exec \<Rightarrow> exec) \<Rightarrow> exec \<Rightarrow> exec" where
  "mirror name prev k s =
     (let s1 = s\<lparr>x_results := oset name prev (x_results s)\<rparr> in
      case set_node_entry name (prev_entry prev) (x_ctx s1) of
        Inl e \<Rightarrow> crash e s1
      | Inr ctx' \<Rightarrow> k (s1\<lparr>x_ctx := ctx'\<rparr>))"

definition hydrate_one :: "engine \<Rightarrow> string \<times> outcome \<Rightarrow> exec \<Rightarrow> exec" where
  "hydrate_one eng np s =
     (case byName_of eng (fst np) of
        None \<Rightarrow> s
      | Some node \<Rightarrow>
          if x_crash s \<noteq> None then s
          else if o_status (snd np) = ''waiting'' then mirror (fst np) (snd np) (\<lambda>s. s) s
          else if \<not> terminal_status (o_status (snd np)) then s
          else (case (if o_status (snd np) = ''success'' \<and> \<not> nullish (o_output (snd np))
                      then bind_outputs eng node (o_output (snd np)) (x_ctx s) else Inr (x_ctx s)) of
                  Inl e \<Rightarrow> crash e s
                | Inr ctx' \<Rightarrow>
                    mirror (fst np) (snd np)
                      (\<lambda>s. s\<lparr>x_remaining := foldl (\<lambda>m x. lower_deg x m) (x_remaining s)
                                  (succs_of (d_adj (g_dag eng)) (fst np))\<rparr>)
                      (s\<lparr>x_ctx := ctx'\<rparr>)))"

definition exec_init :: "engine \<Rightarrow> jsctx \<Rightarrow> exec" where
  "exec_init eng initialData =
     \<lparr>x_ctx = oset ''nodes'' (JObj []) (omerge (w_data (g_wf eng)) initialData), x_results = [],
      x_remaining = d_indegree (g_dag eng), x_ready = [], x_layer = None, x_running = [],
      x_aborting = None, x_events = [], x_writes = [], x_crash = None, x_status = None\<rparr>"

definition is_ready :: "exec \<Rightarrow> string \<Rightarrow> bool" where
  "is_ready s name =
     (\<not> has_result s name \<and> (case deg_of (x_remaining s) name of None \<Rightarrow> True | Some d \<Rightarrow> d = 0))"

definition start_run :: "engine \<Rightarrow> jsctx \<Rightarrow> (string \<times> outcome) list \<Rightarrow> exec" where
  "start_run eng initialData initialNodeStates =
     (let s = fold (hydrate_one eng) initialNodeStates (exec_init eng initialData) in
      if x_crash s \<noteq> None then s
      else (emit ''execution:start'' [(''graph'', JStr (w_name (g_wf eng)))] s)
             \<lparr>x_ready := filter (is_ready s) (node_order eng)\<rparr>)"

end
