(* ===== verification/ExecutorRun.thy ===== *)
theory ExecutorRun
  imports Executor
begin

text \<open>
  The runs of the executor: the handlers of \<open>Executor\<close> closed under every interleaving the event
  loop allows.  Within a layer the calls settle in any order (\<open>settled\<close>), a decided job is
  recorded at any later moment (\<open>completed\<close>), and the next layer starts only when nothing is in
  flight (\<open>ended\<close>, \<open>begun\<close>).  The invariant, the termination measure and progress are proved for
  fresh and for resumed runs.
\<close>

section \<open>Steps\<close>

definition live :: "exec \<Rightarrow> bool" where
  "live s = (x_crash s = None \<and> x_status s = None)"

inductive exec_step :: "engine \<Rightarrow> exec \<Rightarrow> exec \<Rightarrow> bool" for eng where
  begun: "live s \<Longrightarrow> x_layer s = None \<Longrightarrow> x_ready s \<noteq> [] \<Longrightarrow> x_aborting s = None \<Longrightarrow>
    exec_step eng s (begin_layer eng now s)"
| settled: "live s \<Longrightarrow> x_layer s = Some layer \<Longrightarrow> oget (x_running s) name = Some j \<Longrightarrow>
    byName_of eng name = Some node \<Longrightarrow> \<not> job_decided j \<Longrightarrow> i < length (j_items j) \<Longrightarrow>
    it_result (j_items j ! i) = None \<Longrightarrow> attempt_result eng node evs = Some r \<Longrightarrow>
    exec_step eng s (settle eng node j i r s)"
| completed: "live s \<Longrightarrow> x_layer s = Some layer \<Longrightarrow> oget (x_running s) name = Some j \<Longrightarrow>
    byName_of eng name = Some node \<Longrightarrow> job_decided j \<Longrightarrow>
    exec_step eng s (complete eng now node j s)"
| ended: "live s \<Longrightarrow> x_layer s = Some layer \<Longrightarrow> x_running s = [] \<Longrightarrow>
    exec_step eng s (end_layer eng layer s)"
| finished: "live s \<Longrightarrow> x_layer s = None \<Longrightarrow> x_ready s = [] \<or> x_aborting s \<noteq> None \<Longrightarrow>
    exec_step eng s (finish_run eng s)"

abbreviation exec_reach :: "engine \<Rightarrow> exec \<Rightarrow> exec \<Rightarrow> bool" where
  "exec_reach eng \<equiv> (exec_step eng)\<^sup>*\<^sup>*"

text \<open>
  The engine is set up for a workflow that \<open>parseDag\<close> accepts; no node carries a name that plain
  objects inherit.
\<close>

definition engine_ok :: "engine \<Rightarrow> bool" where
  "engine_ok eng =
     (graph_ok (node_names (g_wf eng)) (w_edges (g_wf eng)) \<and> acyclic (edge_rel (w_edges (g_wf eng))) \<and>
      buildDag (w_nodes (g_wf eng)) (w_edges (g_wf eng)) = Inr (g_dag eng) \<and>
      list_all (\<lambda>n. n \<notin> set object_prototype_keys) (node_names (g_wf eng)))"

section \<open>A driver\<close>

text \<open>
  One schedule, computable: the first job in flight, its first open item, whose calls settle as
  \<open>oracle name i attempt\<close> says.
\<close>

fun open_item :: "nat \<Rightarrow> item list \<Rightarrow> nat option" where
  "open_item k [] = None"
| "open_item k (it # its) = (if it_result it = None then Some k else open_item (Suc k) its)"

definition drive1 :: "engine \<Rightarrow> (string \<Rightarrow> nat \<Rightarrow> nat \<Rightarrow> js race_event list) \<Rightarrow> js \<Rightarrow> exec \<Rightarrow> exec option" where
  "drive1 eng oracle now s =
     (if \<not> live s then None else
      case x_layer s of
        None \<Rightarrow> if x_ready s \<noteq> [] \<and> x_aborting s = None then Some (begin_layer eng now s)
                else Some (finish_run eng s)
      | Some layer \<Rightarrow>
          (case x_running s of
             [] \<Rightarrow> Some (end_layer eng layer s)
           | (name, j) # _ \<Rightarrow>
               (case byName_of eng name of
                  None \<Rightarrow> None
                | Some node \<Rightarrow>
                    if job_decided j then Some (complete eng now node j s)
                    else (case open_item 0 (j_items j) of
                            None \<Rightarrow> None
                          | Some i \<Rightarrow>
                              (case attempt_result eng node (oracle name i (it_attempt (j_items j ! i))) of
                                 None \<Rightarrow> None
                               | Some r \<Rightarrow> Some (settle eng node j i r s))))))"

fun drive :: "nat \<Rightarrow> engine \<Rightarrow> (string \<Rightarrow> nat \<Rightarrow> nat \<Rightarrow> js race_event list) \<Rightarrow> js \<Rightarrow> exec \<Rightarrow> exec" where
  "drive 0 eng oracle now s = s"
| "drive (Suc n) eng oracle now s =
     (case drive1 eng oracle now s of None \<Rightarrow> s | Some s' \<Rightarrow> drive n eng oracle now s')"

lemma open_item_Some:
  "open_item k its = Some i \<Longrightarrow> k \<le> i \<and> i < k + length its \<and> it_result (its ! (i - k)) = None"
proof (induction its arbitrary: k)
  case (Cons it its)
  show ?case
  proof (cases "it_result it = None")
    case False
    with Cons.prems have "open_item (Suc k) its = Some i" by (simp only: open_item.simps if_False)
    from Cons.IH [OF this] show ?thesis by (simp add: nth_Cons')
  qed (use Cons.prems in auto)
qed simp

lemma drive1_step: "drive1 eng oracle now s = Some s' \<Longrightarrow> exec_step eng s s'"
  unfolding drive1_def
  by (auto split: if_splits option.splits list.splits prod.splits dest!: open_item_Some
      intro: exec_step.intros)

lemma drive_reach: "exec_reach eng s (drive n eng oracle now s)"
proof (induction n arbitrary: s)
  case (Suc n)
  show ?case
  proof (cases "drive1 eng oracle now s")
    case (Some s')
    then show ?thesis using drive1_step [OF Some] Suc.IH [of s'] by (simp add: converse_rtranclp_into_rtranclp)
  qed simp
qed simp

lemma drive_add: "drive m eng oracle now (drive n eng oracle now s) = drive (n + m) eng oracle now s"
proof (induction n arbitrary: s)
  case (Suc n)
  have stop: "drive k eng oracle now s = s" if "drive1 eng oracle now s = None" for k
    using that by (cases k) simp_all
  show ?case using Suc stop by (cases "drive1 eng oracle now s") auto
qed simp

section \<open>What each handler touches\<close>

text \<open>The fields only the scheduler loop writes.\<close>

definition same_sched :: "exec \<Rightarrow> exec \<Rightarrow> bool" where
  "same_sched s s' = (x_remaining s' = x_remaining s \<and> x_ready s' = x_ready s \<and> x_layer s' = x_layer s
     \<and> x_status s' = x_status s)"

lemma crash_fields [simp]:
  "x_results (crash e s) = x_results s" "x_running (crash e s) = x_running s"
  "x_remaining (crash e s) = x_remaining s" "x_ready (crash e s) = x_ready s"
  "x_layer (crash e s) = x_layer s" "x_status (crash e s) = x_status s"
  "x_aborting (crash e s) = x_aborting s" "x_crash (crash e s) \<noteq> None"
  "\<exists>y. x_crash (crash e s) = Some y"
  by (auto simp: crash_def split: option.splits)

lemma emit_fields [simp]:
  "x_results (emit ev p s) = x_results s" "x_running (emit ev p s) = x_running s"
  "x_remaining (emit ev p s) = x_remaining s" "x_ready (emit ev p s) = x_ready s"
  "x_layer (emit ev p s) = x_layer s" "x_status (emit ev p s) = x_status s"
  "x_aborting (emit ev p s) = x_aborting s" "x_crash (emit ev p s) = x_crash s"
  "x_ctx (emit ev p s) = x_ctx s" "x_writes (emit ev p s) = x_writes s"
  by (simp_all add: emit_def)

lemma handleFailure_fields [simp]:
  "x_results (handleFailure n s) = x_results s" "x_running (handleFailure n s) = x_running s"
  "x_remaining (handleFailure n s) = x_remaining s" "x_ready (handleFailure n s) = x_ready s"
  "x_layer (handleFailure n s) = x_layer s" "x_status (handleFailure n s) = x_status s"
  "x_crash (handleFailure n s) = x_crash s"
  "x_ctx (handleFailure n s) = x_ctx s" "x_writes (handleFailure n s) = x_writes s"
  by (simp_all add: handleFailure_def)

text \<open>Continuations that only emit and set the abort flag.\<close>

definition quiet :: "(exec \<Rightarrow> exec) \<Rightarrow> bool" where
  "quiet k = (\<forall>s. x_results (k s) = x_results s \<and> x_running (k s) = x_running s \<and> same_sched s (k s)
     \<and> x_crash (k s) = x_crash s \<and> x_ctx (k s) = x_ctx s \<and> x_writes (k s) = x_writes s)"

lemma quiet_id [simp, intro]: "quiet (\<lambda>s. s)"
  by (simp add: quiet_def same_sched_def)

lemma quiet_handleFailure [simp, intro]: "quiet (handleFailure n)"
  by (simp add: quiet_def same_sched_def)

lemma quiet_emit_status [simp, intro]: "quiet (emit_status name st extra)"
  by (simp add: quiet_def same_sched_def emit_status_def)

lemma quiet_comp: "quiet k \<Longrightarrow> quiet l \<Longrightarrow> quiet (\<lambda>s. k (l s))"
  by (simp add: quiet_def same_sched_def)

lemma recordOutcome_effect:
  assumes "quiet k"
  shows "x_results (recordOutcome name oc k s) = oset name oc (x_results s)"
    and "x_running (recordOutcome name oc k s) = x_running s"
    and "same_sched s (recordOutcome name oc k s)"
    and "x_crash s \<noteq> None \<Longrightarrow> x_crash (recordOutcome name oc k s) \<noteq> None"
  using assms by (auto simp: recordOutcome_def Let_def quiet_def same_sched_def split: sum.splits)

lemma finish_node_effect:
  assumes "quiet k"
  shows "x_results (finish_node node oc extra k s) = oset (n_name node) oc (x_results s)"
    and "x_running (finish_node node oc extra k s) = x_running s"
    and "same_sched s (finish_node node oc extra k s)"
    and "x_crash s \<noteq> None \<Longrightarrow> x_crash (finish_node node oc extra k s) \<noteq> None"
  by (simp_all only: finish_node_def recordOutcome_effect [OF quiet_comp [OF assms quiet_emit_status]]
      not_False_eq_True)

text \<open>Every handler that settles a node records exactly one outcome for it.\<close>

definition records :: "string \<Rightarrow> string set \<Rightarrow> exec \<Rightarrow> exec \<Rightarrow> bool" where
  "records name sts s s' =
     (\<exists>oc. x_results s' = oset name oc (x_results s) \<and> o_status oc \<in> sts \<and> x_running s' = x_running s \<and>
           same_sched s s' \<and> (x_crash s \<noteq> None \<longrightarrow> x_crash s' \<noteq> None))"

lemma records_finish:
  "quiet k \<Longrightarrow> o_status oc \<in> sts \<Longrightarrow> records (n_name node) sts s (finish_node node oc extra k s)"
  unfolding records_def by (intro exI [of _ oc]) (simp add: finish_node_effect)

lemma records_fail_node: "records (n_name node) {''failed'', ''skipped''} s (fail_node now st att e node s)"
  unfolding fail_node_def by (rule records_finish) (simp_all add: outcome0_def)

lemma records_fail_early: "quiet k \<Longrightarrow> records (n_name node) {''failed'', ''skipped''} s (fail_early p e k node s)"
  unfolding fail_early_def by (rule records_finish) (simp_all add: outcome0_def)

lemma records_skip: "records (n_name node) {''failed'', ''skipped''} s (skip_node r node s)"
  unfolding skip_node_def by (rule records_finish) (simp_all add: outcome0_def)

text \<open>Items as they are created and advanced: never more calls than the retry budget allows.\<close>

definition item_ok :: "engine \<Rightarrow> node \<Rightarrow> item \<Rightarrow> bool" where
  "item_ok eng node it =
     (int (it_attempt it) \<le> max_retries eng node + 1 \<and> (it_result it = None \<longrightarrow> 1 \<le> it_attempt it))"

definition job_ok :: "engine \<Rightarrow> node \<Rightarrow> job \<Rightarrow> bool" where
  "job_ok eng node j = (list_all (item_ok eng node) (j_items j) \<and> (\<not> j_batch j \<longrightarrow> length (j_items j) = 1))"

definition launches :: "engine \<Rightarrow> node \<Rightarrow> exec \<Rightarrow> exec \<Rightarrow> bool" where
  "launches eng node s s' =
     (\<exists>j. x_running s' = oset (n_name node) j (x_running s) \<and> job_ok eng node j \<and> x_results s' = x_results s \<and>
          same_sched s s' \<and> x_crash s' = x_crash s \<and> x_aborting s' = x_aborting s)"

lemma max_retries_nonneg [simp]: "0 \<le> max_retries eng node"
  using resolveMaxRetries_bounds by (simp add: max_retries_def)

lemma item_ok_fresh: "item_ok eng node \<lparr>it_input = v, it_attempt = Suc 0, it_result = None\<rparr>"
  by (simp add: item_ok_def)

lemma item_ok_start: "item_ok eng node (start_item eng node ctx iv)"
  using max_retries_nonneg [of eng node]
  by (auto simp: start_item_def item_ok_def split: sum.splits)

lemma launch_effect:
  "records (n_name node) {''failed'', ''skipped''} s (launch eng now node inputs batch s) \<or>
   launches eng node s (launch eng now node inputs batch s)"
proof -
  let ?s2 = "(emit_status (n_name node) ''running'' [(''input'', inputs)] s)
     \<lparr>x_writes := x_writes (emit_status (n_name node) ''running'' [(''input'', inputs)] s)
        @ [(n_name node, running_partial now inputs)]\<rparr>"
  have s2: "x_results ?s2 = x_results s" "x_running ?s2 = x_running s" "same_sched s ?s2" "x_crash ?s2 = x_crash s"
    by (simp_all add: emit_status_def same_sched_def)
  have f: "records (n_name node) {''failed'', ''skipped''} s (fail_node now now JUndef e node ?s2)" for e
    using records_fail_node [of node ?s2 now now JUndef e] s2
    unfolding records_def same_sched_def by simp
  show ?thesis
  proof (cases batch)
    case None
    have "launches eng node s (launch eng now node inputs batch s)"
      unfolding launches_def
      by (intro exI [of _ "\<lparr>j_batch = False, j_started = now,
             j_items = [\<lparr>it_input = inputs, it_attempt = 1, it_result = None\<rparr>]\<rparr>"])
         (simp add: None launch_def Let_def job_ok_def item_ok_fresh same_sched_def emit_status_def)
    then show ?thesis ..
  next
    case (Some vs)
    show ?thesis
    proof (cases "assertIterationCap (g_env eng) (w_maxIterations (g_wf eng)) (length vs)
                     (''node '' @ quoted (n_name node) @ '' batch'')")
      case (Inl e)
      have "launch eng now node inputs batch s = fail_node now now JUndef e node ?s2"
        using Some Inl by (simp add: launch_def Let_def)
      then show ?thesis using f by simp
    next
      case (Inr u)
      have "list_all (item_ok eng node) (map (start_item eng node ctx) its)" for ctx its
        by (simp add: list_all_iff item_ok_start)
      moreover have "launch eng now node inputs batch s = ?s2\<lparr>x_running := oset (n_name node)
             \<lparr>j_batch = True, j_started = now,
              j_items = map (start_item eng node (x_ctx ?s2)) (enumerate 0 vs)\<rparr> (x_running ?s2)\<rparr>"
        by (simp only: launch_def Let_def Some Inr option.case sum.case)
      ultimately have "launches eng node s (launch eng now node inputs batch s)"
        unfolding launches_def
        by (intro exI [of _ "\<lparr>j_batch = True, j_started = now,
               j_items = map (start_item eng node (x_ctx ?s2)) (enumerate 0 vs)\<rparr>"])
           (simp add: job_ok_def same_sched_def emit_status_def)
      then show ?thesis ..
    qed
  qed
qed

lemma start_node_effect:
  "records (n_name node) {''failed'', ''skipped''} s (start_node eng now node s) \<or>
   launches eng node s (start_node eng now node s) \<and>
     (\<forall>p \<in> set (parents_of eng (n_name node)). status_of s p \<noteq> Some ''skipped'')"
proof (cases "find (\<lambda>p. status_of s p = Some ''skipped'') (parents_of eng (n_name node))")
  case (Some p)
  then show ?thesis by (simp add: start_node_def records_skip)
next
  case None
  then have np: "\<forall>p \<in> set (parents_of eng (n_name node)). status_of s p \<noteq> Some ''skipped''"
    by (auto simp: find_None_iff)
  show ?thesis
    unfolding start_node_def None
    using np launch_effect [of node s eng now]
    by (auto simp: records_skip records_fail_early split: sum.splits js.splits)
qed

lemma start_skipped:
  "p \<in> set (parents_of eng (n_name node)) \<Longrightarrow> status_of s p = Some ''skipped'' \<Longrightarrow>
   records (n_name node) {''skipped''} s (start_node eng now node s)"
proof -
  assume p: "p \<in> set (parents_of eng (n_name node))" "status_of s p = Some ''skipped''"
  then obtain q where "find (\<lambda>p. status_of s p = Some ''skipped'') (parents_of eng (n_name node)) = Some q"
    by (cases "find (\<lambda>p. status_of s p = Some ''skipped'') (parents_of eng (n_name node))")
       (auto simp: find_None_iff)
  then show ?thesis
    by (simp add: start_node_def skip_node_def records_finish outcome0_def)
qed

end
