(* ===== verification/ExecutorInv.thy ===== *)
theory ExecutorInv
  imports ExecutorRun
begin

text \<open>
  The invariant of the executor's runs.  A ghost set \<open>D\<close> collects the nodes whose successors have
  been counted down; \<open>H\<close> are the nodes hydrated from an earlier run.  The table of remaining
  indegrees always counts the edges from outside \<open>D\<close>, every recorded or running node that was
  not hydrated has all its parents in \<open>D\<close>, and the ready list is exactly the frontier of \<open>D\<close>.
\<close>

abbreviation nds :: "engine \<Rightarrow> string set" where
  "nds eng \<equiv> set (node_names (g_wf eng))"

abbreviation egs :: "engine \<Rightarrow> edge list" where
  "egs eng \<equiv> w_edges (g_wf eng)"

abbreviation res :: "exec \<Rightarrow> string set" where
  "res s \<equiv> set (okeys (x_results s))"

abbreviation runs :: "exec \<Rightarrow> string set" where
  "runs s \<equiv> set (okeys (x_running s))"

definition is_skipped :: "exec \<Rightarrow> string \<Rightarrow> bool" where
  "is_skipped s p = (status_of s p = Some ''skipped'')"

definition jobs_ok :: "engine \<Rightarrow> exec \<Rightarrow> bool" where
  "jobs_ok eng s = (\<forall>name j node. oget (x_running s) name = Some j \<longrightarrow> byName_of eng name = Some node \<longrightarrow> job_ok eng node j)"

definition core_inv :: "engine \<Rightarrow> string set \<Rightarrow> string set \<Rightarrow> exec \<Rightarrow> bool" where
  "core_inv eng H D s =
     (deg_ok (node_names (g_wf eng)) (egs eng) D (x_remaining s) \<and>
      D \<subseteq> res s \<and> res s \<subseteq> nds eng \<and> runs s \<subseteq> nds eng \<and> distinct (okeys (x_running s)) \<and> runs s \<inter> res s = {} \<and>
      jobs_ok eng s \<and>
      (\<forall>v \<in> D. \<exists>st. status_of s v = Some st \<and> terminal_status st) \<and>
      (\<forall>v \<in> res s. \<exists>st. status_of s v = Some st \<and> (terminal_status st \<or> st = ''waiting'')) \<and>
      (\<forall>v \<in> res s \<union> runs s. v \<in> H \<or> pending_in (egs eng) D v = 0) \<and>
      (\<forall>v \<in> runs s. \<forall>p \<in> set (parents_of eng v). \<not> is_skipped s p) \<and>
      (\<forall>v \<in> res s - H. (\<exists>p \<in> set (parents_of eng v). is_skipped s p) \<longrightarrow> is_skipped s v) \<and>
      H \<subseteq> res s)"

definition layer_inv :: "engine \<Rightarrow> string set \<Rightarrow> exec \<Rightarrow> bool" where
  "layer_inv eng D s =
     (case x_layer s of
        None \<Rightarrow> x_running s = [] \<and>
          (x_aborting s = None \<longrightarrow>
             (\<forall>v \<in> res s - D. status_of s v = Some ''waiting'') \<and>
             distinct (x_ready s) \<and> set (x_ready s) = {v \<in> nds eng - res s. pending_in (egs eng) D v = 0})
      | Some L \<Rightarrow> x_ready s = [] \<and> distinct L \<and> set L \<inter> D = {} \<and> set L \<subseteq> res s \<union> runs s \<and> runs s \<subseteq> set L \<and>
          (\<forall>v \<in> res s - D - set L. status_of s v = Some ''waiting'') \<and>
          {v \<in> nds eng - res s - runs s. pending_in (egs eng) D v = 0} = {})"

definition sched_inv :: "engine \<Rightarrow> string set \<Rightarrow> string set \<Rightarrow> exec \<Rightarrow> bool" where
  "sched_inv eng H D s = (core_inv eng H D s \<and> layer_inv eng D s)"

section \<open>The engine's tables\<close>

lemma engine_graph: "engine_ok eng \<Longrightarrow> graph_ok (node_names (g_wf eng)) (egs eng)"
  by (simp add: engine_ok_def)

lemma engine_dag:
  assumes "engine_ok eng"
  shows "adj_ok (egs eng) (d_adj (g_dag eng))"
    "deg_ok (node_names (g_wf eng)) (egs eng) {} (d_indegree (g_dag eng))"
    "d_byName (g_dag eng) = map (\<lambda>n. (n_name n, n)) (w_nodes (g_wf eng))"
  using buildDag_ok [of "w_nodes (g_wf eng)" "egs eng"] assms
  by (auto simp: engine_ok_def node_names_def)

lemma byName_Some: "engine_ok eng \<Longrightarrow> byName_of eng name = Some node \<Longrightarrow> n_name node = name \<and> name \<in> nds eng \<and> node \<in> set (w_nodes (g_wf eng))"
  unfolding byName_of_def engine_dag(3) by (auto simp: node_names_def dest!: map_of_SomeD)

lemma byName_ex: "engine_ok eng \<Longrightarrow> name \<in> nds eng \<Longrightarrow> \<exists>node. byName_of eng name = Some node"
  unfolding byName_of_def engine_dag(3)
  by (cases "oget (map (\<lambda>n. (n_name n, n)) (w_nodes (g_wf eng))) name")
     (force simp: node_names_def map_of_eq_None_iff)+

lemma has_result_iff: "engine_ok eng \<Longrightarrow> v \<in> nds eng \<Longrightarrow> has_result s v \<longleftrightarrow> v \<in> res s"
  by (auto simp: has_result_def obj_in_def engine_ok_def list_all_iff comp_def)

lemma node_order_eq: "engine_ok eng \<Longrightarrow> node_order eng = node_names (g_wf eng)"
  by (simp add: node_order_def engine_dag(3) node_names_def comp_def)

lemma parents_pending:
  "pending_in (egs eng) D v = 0 \<longleftrightarrow> set (parents_of eng v) \<subseteq> D"
  by (auto simp: pending_in_def parents_of_def filter_empty_conv)

lemma parents_subset: "engine_ok eng \<Longrightarrow> set (parents_of eng v) \<subseteq> nds eng"
  by (auto simp: parents_of_def engine_ok_def graph_ok_def)

lemma status_of_oset: "x_results s' = oset v oc (x_results s) \<Longrightarrow>
  status_of s' w = (if w = v then Some (o_status oc) else status_of s w)"
  by (simp add: status_of_def)

lemma status_res: "v \<in> res s \<longleftrightarrow> (\<exists>st. status_of s v = Some st)"
  using oget_None_iff [of "x_results s" v] by (auto simp: status_of_def)

section \<open>Recording and launching keep the core\<close>

lemma core_record:
  assumes core: "core_inv eng H D s" and r: "records v sts s s'"
    and v: "v \<in> nds eng" "v \<notin> res s" "v \<notin> runs s" "pending_in (egs eng) D v = 0"
    and sts: "sts \<subseteq> {''success'', ''failed'', ''skipped'', ''waiting''}"
    and skip: "(\<exists>p \<in> set (parents_of eng v). is_skipped s p) \<Longrightarrow> sts \<subseteq> {''skipped''}"
  shows "core_inv eng H D s'"
proof -
  obtain oc where oc: "x_results s' = oset v oc (x_results s)" "o_status oc \<in> sts"
      "x_running s' = x_running s" "same_sched s s'"
    using r by (auto simp: records_def)
  have st: "status_of s' w = (if w = v then Some (o_status oc) else status_of s w)" for w
    by (rule status_of_oset [OF oc(1)])
  have vD: "v \<notin> D" using v core by (auto simp: core_inv_def)
  have res': "res s' = insert v (res s)" using oc(1) by simp
  have sk: "is_skipped s' w = is_skipped s w" if "w \<noteq> v" for w
    using that by (simp add: is_skipped_def st)
  have par: "p \<noteq> v" if "p \<in> set (parents_of eng w)" "pending_in (egs eng) D w = 0" for p w
    using that vD by (auto simp: parents_pending)
  have vst: "terminal_status (o_status oc) \<or> o_status oc = ''waiting''"
    using oc(2) sts by (auto simp: terminal_status_def)
  have rem: "x_remaining s' = x_remaining s" using oc(4) by (simp add: same_sched_def)
  have jo: "jobs_ok eng s'" using core oc(3) by (simp add: jobs_ok_def core_inv_def)
  have vH: "v \<notin> H" using core v(2) by (auto simp: core_inv_def)
  have f: "\<forall>w \<in> res s' \<union> runs s'. w \<in> H \<or> pending_in (egs eng) D w = 0"
    using core v(4) oc(3) unfolding res' core_inv_def by auto
  have g: "\<forall>w \<in> runs s'. \<forall>p \<in> set (parents_of eng w). \<not> is_skipped s' p"
  proof (intro ballI)
    fix w p assume w: "w \<in> runs s'" and p: "p \<in> set (parents_of eng w)"
    have "w \<notin> H" using w core oc(3) by (auto simp: core_inv_def)
    then have "pending_in (egs eng) D w = 0" using f w by blast
    then have "p \<noteq> v" using par p by blast
    then show "\<not> is_skipped s' p" using sk w p core oc(3) by (auto simp: core_inv_def)
  qed
  have h: "\<forall>w \<in> res s' - H. (\<exists>p \<in> set (parents_of eng w). is_skipped s' p) \<longrightarrow> is_skipped s' w"
  proof (intro ballI impI)
    fix w assume w: "w \<in> res s' - H" and ex: "\<exists>p \<in> set (parents_of eng w). is_skipped s' p"
    then obtain p where p: "p \<in> set (parents_of eng w)" "is_skipped s' p" by blast
    have "pending_in (egs eng) D w = 0" using f w by blast
    then have "p \<noteq> v" using par p by blast
    then have ps: "is_skipped s p" using sk p by simp
    show "is_skipped s' w"
    proof (cases "w = v")
      case True
      then have "sts \<subseteq> {''skipped''}" using skip p ps by blast
      then show ?thesis using oc(2) True by (auto simp: is_skipped_def st)
    next
      case False
      then have "w \<in> res s - H" using w res' by blast
      then have "is_skipped s w" using core p(1) ps by (auto simp: core_inv_def)
      then show ?thesis using sk False by simp
    qed
  qed
  have c: "\<forall>w \<in> D. \<exists>st. status_of s' w = Some st \<and> terminal_status st"
    using core vD st by (auto simp: core_inv_def)
  have j: "\<forall>w \<in> res s'. \<exists>st. status_of s' w = Some st \<and> (terminal_status st \<or> st = ''waiting'')"
    using core st vst unfolding res' core_inv_def by auto
  show ?thesis
    using core v oc(3) rem jo c j f g h unfolding core_inv_def res' by auto
qed

lemma core_launch:
  assumes core: "core_inv eng H D s" and l: "launches eng node s s'" and b: "byName_of eng v = Some node"
    and eng: "engine_ok eng"
    and v: "v \<notin> res s" "v \<notin> runs s" "pending_in (egs eng) D v = 0"
    and np: "\<forall>p \<in> set (parents_of eng v). \<not> is_skipped s p"
  shows "core_inv eng H D s'"
proof -
  have nv: "n_name node = v" "v \<in> nds eng" using byName_Some [OF eng b] by auto
  obtain j where j: "x_running s' = oset v j (x_running s)" "job_ok eng node j"
      "x_results s' = x_results s" "same_sched s s'"
    using l nv by (auto simp: launches_def)
  have runs': "runs s' = insert v (runs s)" using j(1) by simp
  have st: "status_of s' w = status_of s w" for w using j(3) by (simp add: status_of_def)
  have sk: "is_skipped s' w = is_skipped s w" for w by (simp add: is_skipped_def st)
  have jo: "jobs_ok eng s'" using core j(1,2) b by (auto simp: jobs_ok_def core_inv_def)
  have d: "distinct (okeys (x_running s'))" using core j(1) by (simp add: core_inv_def distinct_oset)
  have rem: "x_remaining s' = x_remaining s" using j(4) by (simp add: same_sched_def)
  show ?thesis
    using core v np nv(2) jo d rem j(3) unfolding core_inv_def runs' st sk by auto
qed

section \<open>Starting a layer\<close>

text \<open>While a layer is being started: \<open>don\<close> have been started, \<open>todo\<close> not yet.\<close>

definition mid_inv :: "engine \<Rightarrow> string set \<Rightarrow> string set \<Rightarrow> string list \<Rightarrow> string list \<Rightarrow> exec \<Rightarrow> bool" where
  "mid_inv eng H D don todo s =
     (core_inv eng H D s \<and> x_ready s = [] \<and> x_layer s = Some (don @ todo) \<and> x_status s = None \<and> distinct (don @ todo) \<and>
      set (don @ todo) \<inter> D = {} \<and> set don \<subseteq> res s \<union> runs s \<and> runs s \<subseteq> set don \<and>
      set todo \<inter> (res s \<union> runs s) = {} \<and> set todo \<subseteq> nds eng \<and>
      (\<forall>v \<in> res s - D - set don. status_of s v = Some ''waiting'') \<and>
      {v \<in> nds eng - res s - runs s. pending_in (egs eng) D v = 0} = set todo)"

lemma mid_step:
  assumes m: "mid_inv eng H D don (v # todo) s" and eng: "engine_ok eng"
  shows "mid_inv eng H D (don @ [v]) todo (start_named eng now v s)"
proof -
  have core: "core_inv eng H D s" using m by (simp add: mid_inv_def)
  have v: "v \<in> nds eng" "v \<notin> res s" "v \<notin> runs s" "pending_in (egs eng) D v = 0"
    using m by (auto simp: mid_inv_def)
  obtain node where b: "byName_of eng v = Some node" using byName_ex [OF eng v(1)] by blast
  have nv: "n_name node = v" using byName_Some [OF eng b] by simp
  let ?s = "start_node eng now node s"
  have frame: "(\<exists>oc. x_results ?s = oset v oc (x_results s)) \<and> x_running ?s = x_running s \<and> same_sched s ?s
     \<or> (\<exists>j. x_running ?s = oset v j (x_running s)) \<and> x_results ?s = x_results s \<and> same_sched s ?s"
    using start_node_effect [of node s eng now] nv by (auto simp: records_def launches_def)
  have core': "core_inv eng H D ?s"
  proof (cases "\<exists>p \<in> set (parents_of eng v). is_skipped s p")
    case True
    then obtain p where "p \<in> set (parents_of eng (n_name node))" "status_of s p = Some ''skipped''"
      using nv by (auto simp: is_skipped_def)
    from start_skipped [OF this] have "records v {''skipped''} s ?s" by (simp add: nv)
    from core_record [OF core this v] show ?thesis by simp
  next
    case False
    from start_node_effect [of node s eng now] nv
    consider (rec) "records v {''failed'', ''skipped''} s ?s" | (lch) "launches eng node s ?s" by auto
    then show ?thesis
    proof cases
      case rec
      from core_record [OF core this v] False show ?thesis by blast
    next
      case lch
      from core_launch [OF core lch b eng v(2-4)] False show ?thesis by blast
    qed
  qed
  have rr: "res ?s = insert v (res s) \<and> runs ?s = runs s \<or> res ?s = res s \<and> runs ?s = insert v (runs s)"
    using frame by (elim disjE conjE exE) simp_all
  then have union: "res ?s \<union> runs ?s = insert v (res s \<union> runs s)" by blast
  have nd: "v \<notin> set don" "v \<notin> set todo" using m by (auto simp: mid_inv_def)
  have wait: "status_of ?s w = Some ''waiting''" if w: "w \<in> res ?s - D - set (don @ [v])" for w
  proof -
    have "w \<noteq> v" "w \<in> res s - D - set don" using w rr by auto
    then have "status_of s w = Some ''waiting''" using m by (auto simp: mid_inv_def)
    then show ?thesis using frame \<open>w \<noteq> v\<close> by (auto simp: status_of_def)
  qed
  have set_eq: "{w \<in> nds eng - res ?s - runs ?s. pending_in (egs eng) D w = 0} = set todo"
  proof -
    have "nds eng - res ?s - runs ?s = nds eng - res s - runs s - {v}" using union by blast
    then have "{w \<in> nds eng - res ?s - runs ?s. pending_in (egs eng) D w = 0}
        = {w \<in> nds eng - res s - runs s. pending_in (egs eng) D w = 0} - {v}" by blast
    also have "{w \<in> nds eng - res s - runs s. pending_in (egs eng) D w = 0} = set (v # todo)"
      using m by (simp only: mid_inv_def)
    finally show ?thesis using nd(2) by simp
  qed
  have runs: "runs ?s \<subseteq> set (don @ [v])"
  proof -
    have "runs s \<subseteq> set don" using m by (simp only: mid_inv_def)
    then have "insert v (runs s) \<subseteq> set (don @ [v])" by auto
    then show ?thesis using rr by blast
  qed
  have sc: "x_ready ?s = x_ready s" "x_layer ?s = x_layer s" "x_status ?s = x_status s"
    using frame by (auto simp: same_sched_def)
  have todo: "set todo \<inter> (res ?s \<union> runs ?s) = {}" using m nd unfolding union by (auto simp: mid_inv_def)
  have don: "set (don @ [v]) \<subseteq> res ?s \<union> runs ?s" using m unfolding union by (auto simp: mid_inv_def)
  have "start_named eng now v s = ?s" by (simp add: start_named_def b)
  then show ?thesis
    using m core' sc todo don runs wait set_eq unfolding mid_inv_def by simp
qed

lemma mid_fold:
  assumes eng: "engine_ok eng"
  shows "mid_inv eng H D don todo s \<Longrightarrow> mid_inv eng H D (don @ todo) [] (fold (start_named eng now) todo s)"
proof (induction todo arbitrary: don s)
  case (Cons v todo)
  from Cons.IH [OF mid_step [OF Cons.prems eng]] show ?case by simp
qed simp

lemma begin_inv:
  assumes inv: "sched_inv eng H D s" and eng: "engine_ok eng" and l: "x_layer s = None" "x_aborting s = None" "live s"
  shows "sched_inv eng H D (begin_layer eng now s)"
proof -
  let ?s0 = "s\<lparr>x_ready := [], x_layer := Some (x_ready s)\<rparr>"
  have li: "x_running s = []" "\<forall>v \<in> res s - D. status_of s v = Some ''waiting''" "distinct (x_ready s)"
     "set (x_ready s) = {v \<in> nds eng - res s. pending_in (egs eng) D v = 0}"
    using inv l by (auto simp: sched_inv_def layer_inv_def)
  have core: "core_inv eng H D s" using inv by (simp add: sched_inv_def)
  then have core0: "core_inv eng H D ?s0"
    by (simp add: core_inv_def jobs_ok_def status_of_def is_skipped_def)
  have "mid_inv eng H D [] (x_ready s) ?s0"
    using li core core0 l(3) by (auto simp: mid_inv_def core_inv_def status_of_def live_def)
  from mid_fold [OF eng this, of now]
  have m: "mid_inv eng H D (x_ready s) [] (begin_layer eng now s)" by (simp add: begin_layer_def)
  then show ?thesis by (auto simp: sched_inv_def mid_inv_def layer_inv_def)
qed

end
