(* ===== verification/ExecutorSafety.thy ===== *)
theory ExecutorSafety
  imports ExecutorInv
begin

text \<open>
  The remaining steps keep the invariant of \<open>ExecutorInv\<close>; hydration establishes it; every run
  ends.
\<close>

section \<open>Reading the invariant\<close>

lemma core_done: "core_inv eng H D s \<Longrightarrow> v \<in> D \<Longrightarrow> \<exists>st. status_of s v = Some st \<and> terminal_status st"
  by (simp only: core_inv_def)

lemma core_status:
  "core_inv eng H D s \<Longrightarrow> v \<in> res s \<Longrightarrow> \<exists>st. status_of s v = Some st \<and> (terminal_status st \<or> st = ''waiting'')"
  by (simp only: core_inv_def)

lemma core_parents: "core_inv eng H D s \<Longrightarrow> v \<in> res s \<union> runs s \<Longrightarrow> v \<notin> H \<Longrightarrow> set (parents_of eng v) \<subseteq> D"
  unfolding parents_pending [symmetric] by (simp only: core_inv_def) blast

lemma core_skip:
  "core_inv eng H D s \<Longrightarrow> v \<in> res s - H \<Longrightarrow> p \<in> set (parents_of eng v) \<Longrightarrow> is_skipped s p \<Longrightarrow> is_skipped s v"
  unfolding core_inv_def by blast

section \<open>Settling an attempt\<close>

lemma settle_fields:
  "x_results (settle eng node j i r s) = x_results s"
  "x_running (settle eng node j i r s) =
     oset (n_name node) (j\<lparr>j_items := (j_items j)[i := next_item eng node r (j_items j ! i)]\<rparr>) (x_running s)"
  "same_sched s (settle eng node j i r s)" "x_aborting (settle eng node j i r s) = x_aborting s"
  "x_crash (settle eng node j i r s) = x_crash s"
  by (auto simp: settle_def Let_def same_sched_def emit_status_def split: sum.splits)

lemma next_item_ok:
  "item_ok eng node it \<Longrightarrow> it_result it = None \<Longrightarrow> item_ok eng node (next_item eng node r it)"
  by (auto simp: next_item_def item_ok_def split: sum.splits)

lemma settle_job_ok:
  assumes "job_ok eng node j" "i < length (j_items j)" "it_result (j_items j ! i) = None"
  shows "job_ok eng node (j\<lparr>j_items := (j_items j)[i := next_item eng node r (j_items j ! i)]\<rparr>)"
  using assms next_item_ok [of eng node "j_items j ! i" r]
  by (auto simp: job_ok_def list_all_length nth_list_update)

lemma settle_inv:
  assumes inv: "sched_inv eng H D s" and eng: "engine_ok eng" and l: "x_layer s = Some layer"
    and j: "oget (x_running s) name = Some j" and b: "byName_of eng name = Some node"
    and i: "i < length (j_items j)" "it_result (j_items j ! i) = None"
  shows "sched_inv eng H D (settle eng node j i r s)"
proof -
  let ?s = "settle eng node j i r s"
  let ?j = "j\<lparr>j_items := (j_items j)[i := next_item eng node r (j_items j ! i)]\<rparr>"
  have core: "core_inv eng H D s" and li: "layer_inv eng D s" using inv by (auto simp: sched_inv_def)
  have nm: "n_name node = name" using byName_Some [OF eng b] by simp
  have mem: "name \<in> set (okeys (x_running s))" using j by (rule oget_mem_keys)
  have ru: "x_running ?s = oset name ?j (x_running s)" by (simp add: settle_fields nm)
  have keys: "okeys (x_running ?s) = okeys (x_running s)" unfolding ru by (rule okeys_oset_mem [OF mem])
  have jok: "job_ok eng node j" using core j b by (auto simp: core_inv_def jobs_ok_def)
  have jobs: "jobs_ok eng ?s"
    using core b settle_job_ok [OF jok i, of r] by (auto simp: jobs_ok_def core_inv_def ru)
  have st: "status_of ?s w = status_of s w" "is_skipped ?s w = is_skipped s w" for w
    by (simp_all add: status_of_def is_skipped_def settle_fields)
  have sc: "x_remaining ?s = x_remaining s" "x_ready ?s = x_ready s" "x_layer ?s = x_layer s"
    using settle_fields(3) [of s eng node j i r] by (simp_all add: same_sched_def)
  have "core_inv eng H D ?s"
    using core jobs unfolding core_inv_def keys st sc settle_fields(1) by simp
  moreover have "layer_inv eng D ?s"
    using li l unfolding layer_inv_def keys st sc settle_fields(1) by simp
  ultimately show ?thesis by (simp add: sched_inv_def)
qed

section \<open>Recording a node\<close>

lemma complete_effect:
  "records (n_name node) {''success'', ''failed'', ''waiting''} (s\<lparr>x_running := odel (n_name node) (x_running s)\<rparr>)
     (complete eng now node j s) \<or> x_crash (complete eng now node j s) \<noteq> None"
proof -
  let ?s = "s\<lparr>x_running := odel (n_name node) (x_running s)\<rparr>"
  have f: "records (n_name node) {''success'', ''failed'', ''waiting''} ?s (fail_node now st att e node ?s)" for st att e
    unfolding fail_node_def by (rule records_finish) (simp_all add: outcome0_def)
  have w: "records (n_name node) {''success'', ''failed'', ''waiting''} ?s
      (finish_node node (oc\<lparr>o_status := ''waiting''\<rparr>) extra (\<lambda>s. s) ?s)" for oc :: outcome and extra
    by (rule records_finish) simp_all
  have g: "records (n_name node) {''success'', ''failed'', ''waiting''} ?s
      (finish_node node ((outcome0 ''success'')\<lparr>o_output := a, o_attempts := b, o_started := c, o_finished := d\<rparr>)
         extra (\<lambda>s. s) (?s\<lparr>x_ctx := ctx'\<rparr>))" for a b c d extra ctx'
  proof -
    have "records (n_name node) {''success'', ''failed'', ''waiting''} (?s\<lparr>x_ctx := ctx'\<rparr>)
      (finish_node node ((outcome0 ''success'')\<lparr>o_output := a, o_attempts := b, o_started := c, o_finished := d\<rparr>)
         extra (\<lambda>s. s) (?s\<lparr>x_ctx := ctx'\<rparr>))"
      by (rule records_finish) (simp_all add: outcome0_def)
    then show ?thesis by (simp add: records_def same_sched_def)
  qed
  show ?thesis
  proof (cases "first_error (j_items j)")
    case (Some ea)
    then show ?thesis using f by (cases ea) (simp add: complete_def Let_def)
  next
    case None
    show ?thesis
    proof (cases "is_waiting (job_output j)")
      case True
      then show ?thesis using None w by (simp add: complete_def Let_def)
    next
      case False
      then show ?thesis using None g
        by (cases "bind_outputs eng node (job_output j) (x_ctx s)") (simp_all add: complete_def Let_def)
    qed
  qed
qed

lemma set_odel_keys: "distinct (okeys m) \<Longrightarrow> set (okeys (odel k m)) = set (okeys m) - {k}"
  by simp

lemma oget_odel_Some: "oget (odel k m) k' = Some v \<Longrightarrow> oget m k' = Some v"
  by (simp split: if_splits)

lemma complete_inv:
  assumes inv: "sched_inv eng H D s" and eng: "engine_ok eng" and l: "x_layer s = Some layer"
    and j: "oget (x_running s) name = Some j" and b: "byName_of eng name = Some node"
    and lv: "live (complete eng now node j s)"
  shows "sched_inv eng H D (complete eng now node j s)"
proof -
  let ?s1 = "s\<lparr>x_running := odel name (x_running s)\<rparr>"
  let ?s = "complete eng now node j s"
  have core: "core_inv eng H D s" and li: "layer_inv eng D s" using inv by (auto simp: sched_inv_def)
  have nm: "n_name node = name" using byName_Some [OF eng b] by simp
  have mem: "name \<in> runs s" using j by (rule oget_mem_keys)
  have rec: "records name {''success'', ''failed'', ''waiting''} ?s1 ?s"
    using complete_effect [of node s eng now j] lv by (simp add: nm live_def)
  have runs1: "runs ?s1 = runs s - {name}" by simp
  have st1: "status_of ?s1 w = status_of s w" "is_skipped ?s1 w = is_skipped s w" for w
    by (simp_all add: status_of_def is_skipped_def)
  have "jobs_ok eng ?s1" using core by (auto simp: core_inv_def jobs_ok_def)
  then have core1: "core_inv eng H D ?s1"
    using core unfolding core_inv_def runs1 st1 by (auto simp: distinct_odel)
  have v: "name \<in> nds eng" "name \<notin> res ?s1" "name \<notin> runs ?s1" "name \<notin> H"
    using core mem unfolding core_inv_def by auto
  have p: "pending_in (egs eng) D name = 0"
    using core mem v(4) unfolding core_inv_def by blast
  have np: "\<not> (\<exists>p \<in> set (parents_of eng name). is_skipped ?s1 p)"
    using core mem unfolding core_inv_def st1 by blast
  have core': "core_inv eng H D ?s"
    by (rule core_record [OF core1 rec v(1-3) p]) (use np in auto)
  obtain oc where oc: "x_results ?s = oset name oc (x_results s)" "x_running ?s = odel name (x_running s)"
      "same_sched ?s1 ?s" using rec by (auto simp: records_def)
  have rr: "res ?s = insert name (res s)" "runs ?s = runs s - {name}" by (simp_all add: oc)
  have sc: "x_ready ?s = x_ready s" "x_layer ?s = x_layer s" using oc(3) by (simp_all add: same_sched_def)
  have nl: "name \<in> set layer" using li l mem by (auto simp: layer_inv_def)
  have st: "status_of ?s w = status_of s w" if "w \<noteq> name" for w
    using status_of_oset [OF oc(1), of w] that by simp
  have wait: "\<forall>v \<in> res ?s - D - set layer. status_of ?s v = Some ''waiting''"
  proof
    fix w assume w: "w \<in> res ?s - D - set layer"
    have all: "\<forall>v \<in> res s - D - set layer. status_of s v = Some ''waiting''" using li l by (simp add: layer_inv_def)
    have "w \<in> insert name (res s) - D - set layer" using w by (simp only: rr)
    then have ne: "w \<noteq> name" and "w \<in> res s - D - set layer" using nl by blast+
    from bspec [OF all this(2)] show "status_of ?s w = Some ''waiting''" by (simp only: st [OF ne])
  qed
  have un: "res ?s \<union> runs ?s = res s \<union> runs s" using mem unfolding rr by blast
  then have fr: "nds eng - res ?s - runs ?s = nds eng - res s - runs s" by blast
  have "layer_inv eng D ?s"
  proof -
    have "runs s \<subseteq> set layer" using li l by (simp add: layer_inv_def)
    then have "runs ?s \<subseteq> set layer" unfolding rr(2) by blast
    then show ?thesis using li l wait un unfolding layer_inv_def sc fr by simp
  qed
  with core' show ?thesis by (simp add: sched_inv_def)
qed

section \<open>Rolling the ready list forward\<close>

definition roll_inv :: "engine \<Rightarrow> string set \<Rightarrow> exec \<Rightarrow> exec \<Rightarrow> bool" where
  "roll_inv eng D s0 s =
     (\<exists>rem rdy. s = s0\<lparr>x_remaining := rem, x_ready := rdy\<rparr> \<and> deg_ok (node_names (g_wf eng)) (egs eng) D rem \<and>
        distinct rdy \<and> set rdy = {v \<in> nds eng - res s0. pending_in (egs eng) D v = 0})"

lemma roll_step:
  assumes r: "roll_inv eng D s0 s" and eng: "engine_ok eng" and v: "v \<notin> D" "status_of s0 v \<noteq> Some ''waiting''"
  shows "roll_inv eng (insert v D) s0 (roll_forward eng v s)"
proof -
  obtain rem rdy where s: "s = s0\<lparr>x_remaining := rem, x_ready := rdy\<rparr>"
      and d: "deg_ok (node_names (g_wf eng)) (egs eng) D rem" "distinct rdy"
        "set rdy = {v \<in> nds eng - res s0. pending_in (egs eng) D v = 0}"
    using r by (auto simp: roll_inv_def)
  obtain rem' new where
    rel: "release (\<lambda>x. \<not> has_result s x) (succs (egs eng) v) (rem, rdy) = (rem', rdy @ new)"
      "deg_ok (node_names (g_wf eng)) (egs eng) (insert v D) rem'" "distinct new"
      "set new = {x \<in> nds eng. \<not> has_result s x \<and> pending_in (egs eng) D x \<noteq> 0 \<and> pending_in (egs eng) (insert v D) x = 0}"
    using release_step [OF engine_graph [OF eng] d(1) v(1)] by blast
  have hr: "x \<in> nds eng \<Longrightarrow> has_result s x \<longleftrightarrow> x \<in> res s0" for x
    using has_result_iff [OF eng, of x s] by (simp add: s)
  have mono: "pending_in (egs eng) D x = 0 \<Longrightarrow> pending_in (egs eng) (insert v D) x = 0" for x
    using pending_in_mono [of D "insert v D" "egs eng" x] by auto
  have "set (rdy @ new) = {x \<in> nds eng - res s0. pending_in (egs eng) (insert v D) x = 0}"
  proof (rule set_eqI)
    fix x
    show "x \<in> set (rdy @ new) \<longleftrightarrow> x \<in> {x \<in> nds eng - res s0. pending_in (egs eng) (insert v D) x = 0}"
      using d(3) rel(4) hr [of x] mono [of x] by (cases "x \<in> nds eng") auto
  qed
  moreover have "distinct (rdy @ new)" using d(2,3) rel(3,4) by auto
  moreover have "status_of s v \<noteq> Some ''waiting''" using v by (simp add: s status_of_def)
  moreover have "succs_of (d_adj (g_dag eng)) v = succs (egs eng) v"
    using engine_dag(1) [OF eng] by (simp add: adj_ok_def)
  ultimately have "roll_forward eng v s = s0\<lparr>x_remaining := rem', x_ready := rdy @ new\<rparr>"
    using rel(1) by (simp add: roll_forward_def Let_def s)
  then show ?thesis
    unfolding roll_inv_def using rel(2) \<open>distinct (rdy @ new)\<close>
      \<open>set (rdy @ new) = {x \<in> nds eng - res s0. pending_in (egs eng) (insert v D) x = 0}\<close> by blast
qed

lemma roll_waiting: "roll_inv eng D s0 s \<Longrightarrow> status_of s0 v = Some ''waiting'' \<Longrightarrow> roll_forward eng v s = s"
  by (auto simp: roll_inv_def roll_forward_def status_of_def)

lemma roll_fold:
  assumes eng: "engine_ok eng"
  shows "roll_inv eng D s0 s \<Longrightarrow> distinct layer \<Longrightarrow> set layer \<inter> D = {} \<Longrightarrow>
    roll_inv eng (D \<union> {v \<in> set layer. status_of s0 v \<noteq> Some ''waiting''}) s0 (fold (roll_forward eng) layer s)"
proof (induction layer arbitrary: s D)
  case Nil
  then show ?case by simp
next
  case (Cons v layer)
  show ?case
  proof (cases "status_of s0 v = Some ''waiting''")
    case True
    have "D \<union> {w \<in> set (v # layer). status_of s0 w \<noteq> Some ''waiting''} = D \<union> {w \<in> set layer. status_of s0 w \<noteq> Some ''waiting''}"
      using True by auto
    then show ?thesis using Cons roll_waiting [OF Cons.prems(1) True] by simp
  next
    case False
    have r: "roll_inv eng (insert v D) s0 (roll_forward eng v s)"
      using roll_step [OF Cons.prems(1) eng _ False] Cons.prems by simp
    have "D \<union> {w \<in> set (v # layer). status_of s0 w \<noteq> Some ''waiting''}
        = insert v D \<union> {w \<in> set layer. status_of s0 w \<noteq> Some ''waiting''}" using False by auto
    then show ?thesis using Cons.IH [OF r] Cons.prems by simp
  qed
qed

lemma core_grow:
  assumes core: "core_inv eng H D s" and D: "D \<subseteq> D'" "D' \<subseteq> res s"
    and t: "\<And>v. v \<in> D' \<Longrightarrow> \<exists>st. status_of s v = Some st \<and> terminal_status st"
    and d: "deg_ok (node_names (g_wf eng)) (egs eng) D' rem"
  shows "core_inv eng H D' (s\<lparr>x_remaining := rem, x_ready := rdy, x_layer := lay\<rparr>)"
proof -
  have mono: "pending_in (egs eng) D v = 0 \<Longrightarrow> pending_in (egs eng) D' v = 0" for v
    using pending_in_mono [OF D(1), of "egs eng" v] by auto
  have st: "status_of (s\<lparr>x_remaining := rem, x_ready := rdy, x_layer := lay\<rparr>) = status_of s"
       "is_skipped (s\<lparr>x_remaining := rem, x_ready := rdy, x_layer := lay\<rparr>) = is_skipped s"
       "jobs_ok eng (s\<lparr>x_remaining := rem, x_ready := rdy, x_layer := lay\<rparr>) = jobs_ok eng s"
    by (auto simp: status_of_def is_skipped_def jobs_ok_def fun_eq_iff)
  show ?thesis
    using core D t d mono unfolding core_inv_def st by auto
qed

lemma end_inv:
  assumes inv: "sched_inv eng H D s" and eng: "engine_ok eng" and l: "x_layer s = Some layer" and r: "x_running s = []"
  shows "\<exists>D'. sched_inv eng H D' (end_layer eng layer s)"
proof -
  have core: "core_inv eng H D s" and li: "layer_inv eng D s" using inv by (auto simp: sched_inv_def)
  show ?thesis
  proof (cases "x_aborting s")
    case (Some a)
    have "core_inv eng H D (s\<lparr>x_layer := None\<rparr>)"
      using core by (simp add: core_inv_def jobs_ok_def status_of_def is_skipped_def)
    moreover have "layer_inv eng D (s\<lparr>x_layer := None\<rparr>)" using r Some by (simp add: layer_inv_def)
    ultimately show ?thesis using Some by (auto simp: sched_inv_def end_layer_def)
  next
    case None
    have L: "x_ready s = []" "distinct layer" "set layer \<inter> D = {}" "set layer \<subseteq> res s"
      "\<forall>v \<in> res s - D - set layer. status_of s v = Some ''waiting''"
      "{v \<in> nds eng - res s. pending_in (egs eng) D v = 0} = {}"
      using li l r by (auto simp: layer_inv_def)
    have "s = s\<lparr>x_remaining := x_remaining s, x_ready := x_ready s\<rparr>" by simp
    moreover have "deg_ok (node_names (g_wf eng)) (egs eng) D (x_remaining s)" using core by (simp add: core_inv_def)
    ultimately have "roll_inv eng D s s" unfolding roll_inv_def using L(1,6)
      by (intro exI [of _ "x_remaining s"] exI [of _ "x_ready s"] conjI) auto
    let ?D = "D \<union> {v \<in> set layer. status_of s v \<noteq> Some ''waiting''}"
    have "roll_inv eng ?D s (fold (roll_forward eng) layer s)"
      by (rule roll_fold [OF eng \<open>roll_inv eng D s s\<close> L(2,3)])
    then obtain rem rdy where f: "fold (roll_forward eng) layer s = s\<lparr>x_remaining := rem, x_ready := rdy\<rparr>"
        and d: "deg_ok (node_names (g_wf eng)) (egs eng) ?D rem" "distinct rdy"
          "set rdy = {v \<in> nds eng - res s. pending_in (egs eng) ?D v = 0}"
      by (auto simp: roll_inv_def)
    have e: "end_layer eng layer s = s\<lparr>x_remaining := rem, x_ready := rdy, x_layer := None\<rparr>"
      using None by (simp add: end_layer_def f)
    have sub: "?D \<subseteq> res s" using core L(4) by (auto simp: core_inv_def)
    have t: "\<exists>st. status_of s v = Some st \<and> terminal_status st" if v: "v \<in> ?D" for v
    proof -
      have "\<exists>st. status_of s v = Some st \<and> (terminal_status st \<or> st = ''waiting'')"
        by (rule core_status [OF core subsetD [OF sub v]])
      moreover have "v \<in> D \<Longrightarrow> \<exists>st. status_of s v = Some st \<and> terminal_status st"
        by (rule core_done [OF core])
      ultimately show ?thesis using v by auto
    qed
    have "core_inv eng H ?D (end_layer eng layer s)"
      unfolding e by (rule core_grow [OF core _ sub t d(1)]) (rule Un_upper1)
    moreover have "layer_inv eng ?D (end_layer eng layer s)"
      using d(2,3) r L(5) by (auto simp: layer_inv_def e status_of_def)
    ultimately show ?thesis by (auto simp: sched_inv_def)
  qed
qed

section \<open>The invariant along a run\<close>

lemma step_inv:
  assumes st: "exec_step eng s s'" and eng: "engine_ok eng" and inv: "\<exists>D. sched_inv eng H D s" and lv: "live s'"
  shows "\<exists>D. sched_inv eng H D s'"
proof -
  obtain D where D: "sched_inv eng H D s" using inv by blast
  from st show ?thesis
  proof cases
    case (begun now)
    then show ?thesis using begin_inv [OF D eng] by blast
  next
    case (settled layer name j node i evs r)
    then show ?thesis using settle_inv [OF D eng] by blast
  next
    case (completed layer name j node now)
    then show ?thesis using complete_inv [OF D eng] lv by blast
  next
    case (ended layer)
    then show ?thesis using end_inv [OF D eng] by blast
  next
    case finished
    then show ?thesis using lv by (auto simp: finish_run_def Let_def live_def split: if_splits)
  qed
qed

inductive_cases exec_stepE: "exec_step eng s s'"

lemma step_live: "exec_step eng s s' \<Longrightarrow> live s"
  by (auto elim: exec_stepE)

theorem reach_inv:
  assumes "exec_reach eng s s'" "engine_ok eng" "\<exists>D. sched_inv eng H D s" "live s'"
  shows "\<exists>D. sched_inv eng H D s'"
  using assms
proof (induction rule: rtranclp_induct)
  case (step y z)
  then show ?case using step_inv step_live by blast
qed

end
