(* ===== verification/ExecutorProps.thy ===== *)
theory ExecutorProps
  imports ExecutorSafety
begin

text \<open>
  From the invariant to statements about whole runs: the state a fresh or resumed run starts in,
  what is never rewritten, the state a run ends in, and that it ends.
\<close>

section \<open>Hydration\<close>

lemma deg_of_lower [simp]:
  "deg_of (lower_deg k m) k' = (if k' = k then map_option (\<lambda>d. max 0 (d - 1)) (deg_of m k) else deg_of m k')"
  by (simp add: lower_deg_def)

lemma foldl_lower:
  "(\<And>v. v \<in> set xs \<Longrightarrow> \<exists>d. deg_of m v = Some d \<and> int (count_list xs v) \<le> d) \<Longrightarrow>
   deg_of (foldl (\<lambda>m x. lower_deg x m) m xs) w = map_option (\<lambda>d. d - int (count_list xs w)) (deg_of m w)"
proof (induction xs arbitrary: m)
  case Nil
  then show ?case by (simp add: option.map_ident)
next
  case (Cons x xs)
  obtain d where d: "deg_of m x = Some d" "int (count_list (x # xs) x) \<le> d" using Cons.prems [of x] by auto
  have pre: "\<exists>e. deg_of (lower_deg x m) v = Some e \<and> int (count_list xs v) \<le> e" if "v \<in> set xs" for v
    using Cons.prems [of v] that d by (auto split: if_splits)
  have "deg_of (foldl (\<lambda>m x. lower_deg x m) (lower_deg x m) xs) w
      = map_option (\<lambda>e. e - int (count_list xs w)) (deg_of (lower_deg x m) w)"
    by (rule Cons.IH [OF pre])
  then show ?case using d by (cases "deg_of m w") auto
qed

lemma lower_step:
  assumes g: "graph_ok ns es" and d: "deg_ok ns es D m" and u: "u \<notin> D"
  shows "deg_ok ns es (insert u D) (foldl (\<lambda>m x. lower_deg x m) m (succs es u))"
proof -
  have pre: "\<exists>e. deg_of m v = Some e \<and> int (count_list (succs es u) v) \<le> e" if "v \<in> set (succs es u)" for v
    using d succs_subset [OF g that] pending_in_insert [OF u, of es v] by (simp add: deg_ok_def)
  show ?thesis
    using d pending_in_insert [OF u, of es] by (simp add: deg_ok_def foldl_lower [OF pre])
qed

text \<open>While the loop over \<open>initialNodeStates\<close> runs.\<close>

definition hyd_inv :: "engine \<Rightarrow> string set \<Rightarrow> exec \<Rightarrow> bool" where
  "hyd_inv eng D s =
     (core_inv eng (res s) D s \<and> x_running s = [] \<and> x_ready s = [] \<and> x_layer s = None \<and> x_aborting s = None \<and>
      x_status s = None \<and> (\<forall>v \<in> res s - D. status_of s v = Some ''waiting''))"

lemma mirror_effect:
  assumes "\<And>s. x_results (k s) = x_results s"
  shows "x_crash (mirror name prev k s) = None \<Longrightarrow>
    \<exists>ctx'. mirror name prev k s = k (s\<lparr>x_results := oset name prev (x_results s), x_ctx := ctx'\<rparr>)"
  by (auto simp: mirror_def Let_def split: sum.splits)

lemma core_mirror:
  assumes core: "core_inv eng (res s) D s" and r: "x_running s = []"
    and v: "v \<in> nds eng" "v \<notin> res s" and st: "terminal_status (o_status oc) \<or> o_status oc = ''waiting''"
    and D': "D' = D \<or> D' = insert v D \<and> terminal_status (o_status oc)"
    and d: "deg_ok (node_names (g_wf eng)) (egs eng) D' rem"
  shows "core_inv eng (insert v (res s)) D'
     (s\<lparr>x_results := oset v oc (x_results s), x_ctx := ctx', x_remaining := rem\<rparr>)"
proof -
  let ?s = "s\<lparr>x_results := oset v oc (x_results s), x_ctx := ctx', x_remaining := rem\<rparr>"
  have stat: "status_of ?s w = (if w = v then Some (o_status oc) else status_of s w)" for w
    by (rule status_of_oset) simp
  have rs: "res ?s = insert v (res s)" by simp
  have vD: "v \<notin> D" using core v(2) unfolding core_inv_def by blast
  have 1: "D' \<subseteq> insert v (res s)" using D' core unfolding core_inv_def by blast
  have 2: "\<forall>w \<in> D'. \<exists>st. status_of ?s w = Some st \<and> terminal_status st"
    using D' core_done [OF core] vD by (auto simp: stat)
  have 3: "\<forall>w \<in> insert v (res s). \<exists>st. status_of ?s w = Some st \<and> (terminal_status st \<or> st = ''waiting'')"
    using core_status [OF core] st by (auto simp: stat)
  have 4: "insert v (res s) \<subseteq> nds eng" using core v(1) unfolding core_inv_def by blast
  show ?thesis
    unfolding core_inv_def rs using 1 2 3 4 d by (simp add: r jobs_ok_def)
qed

lemma hydrate_step:
  assumes inv: "hyd_inv eng D s" and eng: "engine_ok eng" and fresh: "fst np \<notin> res s"
    and lv: "x_crash (hydrate_one eng np s) = None"
  shows "\<exists>D'. hyd_inv eng D' (hydrate_one eng np s)"
    "res (hydrate_one eng np s) \<subseteq> insert (fst np) (res s)"
proof -
  let ?s = "hydrate_one eng np s" and ?v = "fst np" and ?oc = "snd np"
  have core: "core_inv eng (res s) D s" using inv by (simp add: hyd_inv_def)
  have both: "(\<exists>D'. hyd_inv eng D' ?s) \<and> res ?s \<subseteq> insert ?v (res s)"
  proof (cases "byName_of eng ?v = None \<or> x_crash s \<noteq> None
      \<or> \<not> terminal_status (o_status ?oc) \<and> o_status ?oc \<noteq> ''waiting''")
    case True
    then have "?s = s" using lv by (auto simp: hydrate_one_def split: option.splits)
    then show ?thesis using inv by auto
  next
    case False
    then obtain node where b: "byName_of eng ?v = Some node" and c: "x_crash s = None" by auto
    have v: "?v \<in> nds eng" using byName_Some [OF eng b] by simp
    have vD: "?v \<notin> D" using core fresh unfolding core_inv_def by blast
    show ?thesis
    proof (cases "o_status ?oc = ''waiting''")
      case True
      then have "?s = mirror ?v ?oc (\<lambda>s. s) s" using b c by (simp add: hydrate_one_def)
      with lv mirror_effect [where k = "\<lambda>s. s" and s = s and name = ?v and prev = ?oc]
      obtain ctx' where s': "?s = s\<lparr>x_results := oset ?v ?oc (x_results s), x_ctx := ctx'\<rparr>" by auto
      have "core_inv eng (insert ?v (res s)) D
         (s\<lparr>x_results := oset ?v ?oc (x_results s), x_ctx := ctx', x_remaining := x_remaining s\<rparr>)"
        using core by (intro core_mirror [OF core _ v fresh]) (use True inv in \<open>auto simp: hyd_inv_def core_inv_def\<close>)
      then have "hyd_inv eng D ?s"
        using inv True unfolding hyd_inv_def s' by (auto simp: status_of_def)
      then show ?thesis by (auto simp: s')
    next
      case nw: False
      then have t: "terminal_status (o_status ?oc)" using False by blast
      define r where "r = (if o_status ?oc = ''success'' \<and> \<not> nullish (o_output ?oc)
                      then bind_outputs eng node (o_output ?oc) (x_ctx s) else Inr (x_ctx s))"
      let ?k = "\<lambda>s. s\<lparr>x_remaining := foldl (\<lambda>m x. lower_deg x m) (x_remaining s) (succs_of (d_adj (g_dag eng)) ?v)\<rparr>"
      have "?s = (case r of Inl e \<Rightarrow> crash e s | Inr ctx' \<Rightarrow> mirror ?v ?oc ?k (s\<lparr>x_ctx := ctx'\<rparr>))"
        using b c nw t by (simp add: hydrate_one_def r_def)
      then obtain c1 where m: "?s = mirror ?v ?oc ?k (s\<lparr>x_ctx := c1\<rparr>)"
        using lv by (cases r) auto
      with lv mirror_effect [where k = ?k and s = "s\<lparr>x_ctx := c1\<rparr>" and name = ?v and prev = ?oc]
      obtain ctx' where s': "?s = ?k (s\<lparr>x_results := oset ?v ?oc (x_results s), x_ctx := ctx'\<rparr>)" by auto
      let ?rem = "foldl (\<lambda>m x. lower_deg x m) (x_remaining s) (succs_of (d_adj (g_dag eng)) ?v)"
      have sc: "succs_of (d_adj (g_dag eng)) ?v = succs (egs eng) ?v"
        using engine_dag(1) [OF eng] by (simp add: adj_ok_def)
      have d: "deg_ok (node_names (g_wf eng)) (egs eng) (insert ?v D) ?rem"
        unfolding sc by (rule lower_step [OF engine_graph [OF eng] _ vD]) (use core in \<open>simp add: core_inv_def\<close>)
      have "core_inv eng (insert ?v (res s)) (insert ?v D)
         (s\<lparr>x_results := oset ?v ?oc (x_results s), x_ctx := ctx', x_remaining := ?rem\<rparr>)"
        by (rule core_mirror [OF core _ v fresh _ _ d]) (use inv t in \<open>auto simp: hyd_inv_def\<close>)
      then have "hyd_inv eng (insert ?v D) ?s"
        using inv t unfolding hyd_inv_def s' by (auto simp: status_of_def)
      then show ?thesis by (auto simp: s')
    qed
  qed
  show "\<exists>D'. hyd_inv eng D' ?s" "res ?s \<subseteq> insert ?v (res s)" using both by auto
qed

lemma hydrate_crashed: "x_crash s \<noteq> None \<Longrightarrow> x_crash (fold (hydrate_one eng) nps s) \<noteq> None"
proof (induction nps arbitrary: s)
  case (Cons np nps)
  have "x_crash (hydrate_one eng np s) \<noteq> None" using Cons.prems by (auto simp: hydrate_one_def split: option.splits)
  with Cons.IH show ?case by simp
qed simp

lemma hydrate_fold:
  assumes eng: "engine_ok eng"
  shows "hyd_inv eng D s \<Longrightarrow> distinct (map fst nps) \<Longrightarrow> set (map fst nps) \<inter> res s = {} \<Longrightarrow>
    x_crash (fold (hydrate_one eng) nps s) = None \<Longrightarrow>
    (\<exists>D'. hyd_inv eng D' (fold (hydrate_one eng) nps s)) \<and>
    res (fold (hydrate_one eng) nps s) \<subseteq> res s \<union> set (map fst nps)"
proof (induction nps arbitrary: D s)
  case Nil
  then show ?case by auto
next
  case (Cons np nps)
  let ?s = "hydrate_one eng np s"
  have lv: "x_crash ?s = None" using Cons.prems(4) hydrate_crashed [of ?s eng nps] by (cases "x_crash ?s") auto
  have f: "fst np \<notin> res s" using Cons.prems(3) by auto
  obtain D1 where D1: "hyd_inv eng D1 ?s" using hydrate_step(1) [OF Cons.prems(1) eng f lv] by blast
  have sub: "res ?s \<subseteq> insert (fst np) (res s)" by (rule hydrate_step(2) [OF Cons.prems(1) eng f lv])
  have "set (map fst nps) \<inter> (insert (fst np) (res s)) = {}" using Cons.prems(2,3) by auto
  then have "set (map fst nps) \<inter> res ?s = {}" using sub by blast
  then have IH: "(\<exists>D'. hyd_inv eng D' (fold (hydrate_one eng) nps ?s)) \<and>
      res (fold (hydrate_one eng) nps ?s) \<subseteq> res ?s \<union> set (map fst nps)"
    using Cons.IH [OF D1] Cons.prems(2,4) by simp
  then have "res (fold (hydrate_one eng) nps ?s) \<subseteq> res s \<union> insert (fst np) (set (map fst nps))"
    using sub by blast
  with IH show ?case by (simp only: fold_Cons comp_apply list.map list.set)
qed

lemma init_inv: "engine_ok eng \<Longrightarrow> hyd_inv eng {} (exec_init eng data)"
  using engine_dag(2) [of eng] by (simp add: hyd_inv_def core_inv_def exec_init_def jobs_ok_def)

lemma start_inv:
  assumes eng: "engine_ok eng" and d: "distinct (map fst nps)" and lv: "live (start_run eng data nps)"
  shows "\<exists>D. sched_inv eng (res (start_run eng data nps)) D (start_run eng data nps)"
    "res (start_run eng data nps) \<subseteq> set (map fst nps)"
proof -
  let ?h = "fold (hydrate_one eng) nps (exec_init eng data)" and ?s = "start_run eng data nps"
  have c: "x_crash ?h = None" using lv by (auto simp: start_run_def Let_def live_def split: if_splits)
  have r0: "res (exec_init eng data) = {}" by (simp add: exec_init_def)
  obtain D where D: "hyd_inv eng D ?h" and sub: "res ?h \<subseteq> set (map fst nps)"
    using hydrate_fold [OF eng init_inv [OF eng] d _ c] unfolding r0 by auto
  have core: "core_inv eng (res ?h) D ?h" using D by (simp add: hyd_inv_def)
  let ?e = "emit ''execution:start'' [(''graph'', JStr (w_name (g_wf eng)))] ?h"
  have s: "?s = ?e\<lparr>x_ready := filter (is_ready ?e) (node_order eng)\<rparr>"
  proof -
    have "is_ready ?e = is_ready ?h" by (simp add: fun_eq_iff is_ready_def has_result_def)
    then show ?thesis using c by (simp add: start_run_def Let_def)
  qed
  have frame: "x_results ?s = x_results ?h" "x_running ?s = x_running ?h" "x_remaining ?s = x_remaining ?h"
    by (simp_all add: s)
  have st: "status_of ?s = status_of ?h" "is_skipped ?s = is_skipped ?h" "jobs_ok eng ?s = jobs_ok eng ?h"
    by (auto simp: status_of_def is_skipped_def jobs_ok_def frame fun_eq_iff)
  have core': "core_inv eng (res ?s) D ?s" using core unfolding core_inv_def st frame .
  have rdy: "is_ready ?e v \<longleftrightarrow> v \<notin> res ?h \<and> pending_in (egs eng) D v = 0" if "v \<in> nds eng" for v
    using that core has_result_iff [OF eng that, of ?e] by (simp add: is_ready_def core_inv_def deg_ok_def)
  have dn: "distinct (node_names (g_wf eng))" using engine_graph [OF eng] by (simp add: graph_ok_def)
  have "set (x_ready ?s) = {v \<in> nds eng - res ?h. pending_in (egs eng) D v = 0}"
    using rdy by (auto simp: s node_order_eq [OF eng])
  then have "layer_inv eng D ?s"
    using D dn unfolding layer_inv_def st frame by (simp add: s hyd_inv_def node_order_eq [OF eng])
  with core' show "\<exists>D. sched_inv eng (res ?s) D ?s" by (auto simp: sched_inv_def)
  show "res ?s \<subseteq> set (map fst nps)" using sub by (simp add: frame)
qed

end
