(* ===== verification/ExecutorEnd.thy ===== *)
theory ExecutorEnd
  imports ExecutorProps
begin

text \<open>
  What a run leaves behind: recorded outcomes are never rewritten, the last step gives every
  declared node a row, and the status of the run is read off them.
\<close>

section \<open>Frames\<close>

lemma start_named_frame:
  assumes "engine_ok eng"
  shows "w \<noteq> v \<Longrightarrow> oget (x_results (start_named eng now v s)) w = oget (x_results s) w"
    and "same_sched s (start_named eng now v s)"
proof -
  have "(w \<noteq> v \<longrightarrow> oget (x_results (start_named eng now v s)) w = oget (x_results s) w) \<and>
      same_sched s (start_named eng now v s)"
  proof (cases "byName_of eng v")
    case (Some node)
    then have "n_name node = v" using byName_Some [OF assms] by blast
    then show ?thesis
      using start_node_effect [of node s eng now] Some by (auto simp: start_named_def records_def launches_def)
  qed (auto simp: start_named_def same_sched_def)
  then show "w \<noteq> v \<Longrightarrow> oget (x_results (start_named eng now v s)) w = oget (x_results s) w"
    and "same_sched s (start_named eng now v s)" by blast+
qed

lemma same_sched_trans: "same_sched a b \<Longrightarrow> same_sched b c \<Longrightarrow> same_sched a c"
  by (simp add: same_sched_def)

lemma same_sched_refl [simp, intro]: "same_sched a a"
  by (simp add: same_sched_def)

lemma fold_start_frame:
  assumes "engine_ok eng"
  shows "w \<notin> set vs \<Longrightarrow> oget (x_results (fold (start_named eng now) vs s)) w = oget (x_results s) w"
    and "same_sched s (fold (start_named eng now) vs s)"
proof (induction vs arbitrary: s)
  case (Cons v vs)
  {
    case 1
    then show ?case using Cons.IH(1) [of "start_named eng now v s"] start_named_frame(1) [OF assms, of w v now s] by simp
  next
    case 2
    show ?case
      using Cons.IH(2) [of "start_named eng now v s"] start_named_frame(2) [OF assms, of s now v] same_sched_trans
      by (simp only: fold_Cons comp_apply)
  }
qed simp_all

lemma begin_layer_frame:
  assumes "engine_ok eng"
  shows "w \<notin> set (x_ready s) \<Longrightarrow> oget (x_results (begin_layer eng now s)) w = oget (x_results s) w"
    "x_status (begin_layer eng now s) = x_status s" "x_layer (begin_layer eng now s) = Some (x_ready s)"
  using fold_start_frame(1) [OF assms, of w "x_ready s" now "s\<lparr>x_ready := [], x_layer := Some (x_ready s)\<rparr>"]
    fold_start_frame(2) [OF assms, of "s\<lparr>x_ready := [], x_layer := Some (x_ready s)\<rparr>" now "x_ready s"]
  by (simp_all add: begin_layer_def same_sched_def)

lemma roll_frame:
  "x_results (roll_forward eng v s) = x_results s" "x_status (roll_forward eng v s) = x_status s"
  "x_running (roll_forward eng v s) = x_running s" "x_aborting (roll_forward eng v s) = x_aborting s"
  "x_crash (roll_forward eng v s) = x_crash s" "x_ctx (roll_forward eng v s) = x_ctx s"
  "x_writes (roll_forward eng v s) = x_writes s"
  by (simp_all add: roll_forward_def Let_def)

lemma fold_roll_frame:
  "x_results (fold (roll_forward eng) vs s) = x_results s \<and> x_status (fold (roll_forward eng) vs s) = x_status s \<and>
   x_running (fold (roll_forward eng) vs s) = x_running s \<and> x_aborting (fold (roll_forward eng) vs s) = x_aborting s \<and>
   x_crash (fold (roll_forward eng) vs s) = x_crash s \<and> x_ctx (fold (roll_forward eng) vs s) = x_ctx s \<and>
   x_writes (fold (roll_forward eng) vs s) = x_writes s"
  by (induction vs arbitrary: s) (simp_all add: roll_frame)

lemma end_layer_frame [simp]:
  "x_results (end_layer eng L s) = x_results s" "x_status (end_layer eng L s) = x_status s"
  "x_running (end_layer eng L s) = x_running s" "x_aborting (end_layer eng L s) = x_aborting s"
  "x_crash (end_layer eng L s) = x_crash s" "x_layer (end_layer eng L s) = None"
  "x_ctx (end_layer eng L s) = x_ctx s" "x_writes (end_layer eng L s) = x_writes s"
  using fold_roll_frame [of eng L s] by (simp_all add: end_layer_def)

lemma complete_sched: "same_sched s (complete eng now node j s)"
proof -
  let ?s = "s\<lparr>x_running := odel (n_name node) (x_running s)\<rparr>"
  have b: "same_sched s ?s" by (simp add: same_sched_def)
  have f: "same_sched s (finish_node node oc extra k (?s\<lparr>x_ctx := c\<rparr>))" if "quiet k" for oc extra k c
    using finish_node_effect(3) [OF that, of "?s\<lparr>x_ctx := c\<rparr>" node oc extra] by (simp add: same_sched_def)
  have f': "same_sched s (finish_node node oc extra k ?s)" if "quiet k" for oc extra k
    using finish_node_effect(3) [OF that, of ?s node oc extra] by (simp add: same_sched_def)
  have c: "same_sched s (crash e (?s\<lparr>x_ctx := c\<rparr>))" for e c by (simp add: same_sched_def)
  show ?thesis
    by (auto simp: complete_def Let_def fail_node_def f f' c split: option.splits sum.splits)
qed

section \<open>Marking the rest\<close>

lemma mark_pending_case:
  assumes "x_crash (mark_pending a r v s) = None"
  shows "x_crash s = None" "x_aborting (mark_pending a r v s) = x_aborting s"
    "x_results (mark_pending a r v s) = (if has_result s v then x_results s else oset v (pending_outcome r) (x_results s))"
  using assms
  by (auto simp: mark_pending_def recordOutcome_def Let_def emit_status_def split: if_splits sum.splits)

lemma mark_fold_crashed: "x_crash s \<noteq> None \<Longrightarrow> fold (mark_pending a r) vs s = s"
proof (induction vs arbitrary: s)
  case (Cons v vs)
  have "mark_pending a r v s = s" using Cons.prems by (simp add: mark_pending_def)
  with Cons show ?case by simp
qed simp

lemma mark_fold:
  assumes eng: "engine_ok eng"
  shows "set vs \<subseteq> nds eng \<Longrightarrow> x_crash (fold (mark_pending a r) vs s) = None \<Longrightarrow>
    x_crash s = None \<and> x_aborting (fold (mark_pending a r) vs s) = x_aborting s \<and>
    (\<forall>w. oget (x_results (fold (mark_pending a r) vs s)) w =
       (if w \<in> set vs \<and> oget (x_results s) w = None then Some (pending_outcome r) else oget (x_results s) w))"
proof (induction vs arbitrary: s)
  case (Cons v vs)
  let ?s = "mark_pending a r v s"
  have p: "set vs \<subseteq> nds eng" "x_crash (fold (mark_pending a r) vs ?s) = None" using Cons.prems by simp_all
  note IH = Cons.IH [OF p]
  then have c: "x_crash ?s = None" by simp
  note mp = mark_pending_case [OF c]
  have hr: "has_result s v \<longleftrightarrow> oget (x_results s) v \<noteq> None"
    using has_result_iff [OF eng, of v s] Cons.prems(1) oget_None_iff [of "x_results s" v] by auto
  have st: "oget (x_results ?s) w = (if w = v \<and> oget (x_results s) v = None then Some (pending_outcome r) else oget (x_results s) w)" for w
    using mp(3) hr by auto
  show ?case using IH mp(1,2) st by auto
qed simp

lemma finish_run_effect:
  assumes eng: "engine_ok eng" and c: "x_crash (finish_run eng s) = None"
  shows "x_crash s = None" "x_aborting (finish_run eng s) = x_aborting s"
    "x_status (finish_run eng s) = Some (overall_status (finish_run eng s))"
    "\<And>w. w \<notin> nds eng \<or> oget (x_results s) w \<noteq> None \<Longrightarrow> oget (x_results (finish_run eng s)) w = oget (x_results s) w"
    "\<And>w. w \<in> nds eng \<Longrightarrow> oget (x_results s) w = None \<Longrightarrow> status_of (finish_run eng s) w = Some ''pending''"
proof -
  define s1 where "s1 = (case x_aborting s of None \<Rightarrow> s | Some r \<Rightarrow> fold (mark_pending True r) (node_order eng) s)"
  define s2 where "s2 = fold (mark_pending False ''not reached'') (node_order eng) s1"
  have f: "finish_run eng s = (if x_crash s2 \<noteq> None then s2
         else (emit ''execution:end'' [(''status'', JStr (overall_status s2))] s2)\<lparr>x_status := Some (overall_status s2)\<rparr>)"
    by (simp add: finish_run_def s1_def s2_def Let_def)
  have c2: "x_crash s2 = None" using c f by (auto split: if_splits)
  have fin: "finish_run eng s = (emit ''execution:end'' [(''status'', JStr (overall_status s2))] s2)\<lparr>x_status := Some (overall_status s2)\<rparr>"
    using f c2 by simp
  have ord: "set (node_order eng) \<subseteq> nds eng" by (simp add: node_order_eq [OF eng])
  note m2 = mark_fold [OF eng ord c2 [unfolded s2_def], folded s2_def]
  have m1: "x_crash s = None \<and> x_aborting s1 = x_aborting s \<and>
      (\<forall>w. oget (x_results s1) w = oget (x_results s) w \<or>
           w \<in> nds eng \<and> oget (x_results s) w = None \<and> (\<exists>r. oget (x_results s1) w = Some (pending_outcome r)))"
  proof (cases "x_aborting s")
    case None
    then show ?thesis using m2 by (simp add: s1_def)
  next
    case (Some r)
    have c1: "x_crash (fold (mark_pending True r) (node_order eng) s) = None" using m2 Some by (simp add: s1_def)
    show ?thesis using mark_fold [OF eng ord c1] Some by (auto simp: s1_def node_order_eq [OF eng])
  qed
  show "x_crash s = None" "x_aborting (finish_run eng s) = x_aborting s"
    using m1 m2 by (simp_all add: fin)
  have "overall_status (finish_run eng s) = overall_status s2" by (simp add: fin overall_status_def Let_def)
  then show "x_status (finish_run eng s) = Some (overall_status (finish_run eng s))" by (simp add: fin)
  fix w
  show "w \<notin> nds eng \<or> oget (x_results s) w \<noteq> None \<Longrightarrow> oget (x_results (finish_run eng s)) w = oget (x_results s) w"
  proof -
    assume a: "w \<notin> nds eng \<or> oget (x_results s) w \<noteq> None"
    have "oget (x_results s1) w = oget (x_results s) w" using m1 a by metis
    moreover have "oget (x_results s2) w = oget (x_results s1) w"
      using m2 a calculation ord by auto
    ultimately show ?thesis by (simp add: fin)
  qed
  show "w \<in> nds eng \<Longrightarrow> oget (x_results s) w = None \<Longrightarrow> status_of (finish_run eng s) w = Some ''pending''"
  proof -
    assume w: "w \<in> nds eng" "oget (x_results s) w = None"
    have 1: "oget (x_results s1) w = None \<or> (\<exists>r. oget (x_results s1) w = Some (pending_outcome r))"
      using m1 w(2) by metis
    have 2: "oget (x_results s2) w = (if oget (x_results s1) w = None then Some (pending_outcome ''not reached'')
        else oget (x_results s1) w)"
      using m2 w(1) by (simp add: node_order_eq [OF eng])
    have "\<exists>r. oget (x_results s2) w = Some (pending_outcome r)" using 1 2 by auto
    then show ?thesis by (auto simp: fin status_of_def pending_outcome_def outcome0_def)
  qed
qed

section \<open>Recorded outcomes stay\<close>

lemma step_results_kept:
  assumes st: "exec_step eng s s'" and eng: "engine_ok eng" and inv: "sched_inv eng H D s" and v: "v \<in> res s"
    and c: "x_crash s' = None"
  shows "oget (x_results s') v = oget (x_results s) v"
  using st
proof cases
  case (begun now)
  have "v \<notin> set (x_ready s)" using inv v begun by (auto simp: sched_inv_def layer_inv_def)
  then show ?thesis using begin_layer_frame(1) [OF eng] begun by simp
next
  case (settled layer name j node i evs r)
  then show ?thesis by (simp add: settle_fields)
next
  case (completed layer name j node now)
  have nm: "n_name node = name" using byName_Some [OF eng] completed by blast
  have "name \<in> runs s" using completed oget_mem_keys by fast
  then have "v \<noteq> name" using inv v unfolding sched_inv_def core_inv_def by blast
  moreover have "records name {''success'', ''failed'', ''waiting''} (s\<lparr>x_running := odel name (x_running s)\<rparr>) s'"
    using complete_effect [of node s eng now j] c completed(1) by (simp add: nm)
  ultimately show ?thesis by (auto simp: records_def)
next
  case (ended layer)
  then show ?thesis by simp
next
  case finished
  have "oget (x_results s) v \<noteq> None" using v oget_None_iff [of "x_results s" v] by simp
  then show ?thesis using finish_run_effect(4) [OF eng] c finished by simp
qed

section \<open>The last step\<close>

lemma step_status:
  assumes st: "exec_step eng s s'" and eng: "engine_ok eng" and fin: "x_status s' \<noteq> None"
  shows "s' = finish_run eng s \<and> x_layer s = None \<and> (x_ready s = [] \<or> x_aborting s \<noteq> None)"
  using st
proof cases
  case (begun now)
  then show ?thesis using fin begin_layer_frame(2) [OF eng, of now s] by (simp add: live_def)
next
  case (settled layer name j node i evs r)
  then show ?thesis using fin settle_fields(3) [of s eng node j i r] by (simp add: live_def same_sched_def)
next
  case (completed layer name j node now)
  then show ?thesis using fin complete_sched [of s eng now node j] by (simp add: live_def same_sched_def)
next
  case (ended layer)
  then show ?thesis using fin by (simp add: live_def)
next
  case finished
  then show ?thesis by simp
qed

lemma final_from:
  assumes r: "exec_reach eng s0 s" and eng: "engine_ok eng" and l0: "live s0" and fin: "x_status s \<noteq> None"
  shows "\<exists>s1. exec_reach eng s0 s1 \<and> live s1 \<and> x_layer s1 = None \<and> (x_ready s1 = [] \<or> x_aborting s1 \<noteq> None)
     \<and> s = finish_run eng s1"
proof -
  from r consider "s = s0" | y where "exec_reach eng s0 y" "exec_step eng y s"
    by (metis rtranclp.cases)
  then show ?thesis
  proof cases
    case 1
    then show ?thesis using l0 fin by (simp add: live_def)
  next
    case 2
    then show ?thesis using step_status [OF 2(2) eng fin] step_live [OF 2(2)] by blast
  qed
qed

text \<open>When nothing is left to start and nothing waits, everything has been counted down.\<close>

lemma frontier_empty_all:
  assumes eng: "engine_ok eng" and fr: "{v \<in> nds eng - D. pending_in (egs eng) D v = 0} = {}" and D: "D \<subseteq> nds eng"
  shows "D = nds eng"
proof (rule ccontr)
  assume "D \<noteq> nds eng"
  then have ne: "nds eng - D \<noteq> {}" using D by blast
  have prd: "\<exists>u \<in> nds eng - D. (u, v) \<in> edge_rel (egs eng)" if v: "v \<in> nds eng - D" for v
  proof -
    have "v \<notin> {v \<in> nds eng - D. pending_in (egs eng) D v = 0}" unfolding fr by simp
    with v have "pending_in (egs eng) D v \<noteq> 0" by simp
    then obtain u where u: "(u, v) \<in> edge_rel (egs eng)" "u \<notin> D" by (auto simp: pending_in_0)
    moreover have "u \<in> nds eng" using u engine_graph [OF eng] by (auto simp: edge_rel_def graph_ok_def)
    ultimately show ?thesis by blast
  qed
  have "finite (nds eng - D)" by simp
  then have "\<not> acyclic (edge_rel (egs eng))" by (rule stuck_set_cyclic [OF _ ne prd])
  then show False using eng by (simp add: engine_ok_def)
qed

lemma end_all_done:
  assumes eng: "engine_ok eng" and inv: "sched_inv eng H D s" and e: "x_layer s = None" "x_ready s = []" "x_aborting s = None"
    and nw: "\<And>v. v \<in> res s \<Longrightarrow> status_of s v \<noteq> Some ''waiting''"
  shows "D = nds eng"
proof (rule frontier_empty_all [OF eng])
  have core: "core_inv eng H D s" using inv by (simp add: sched_inv_def)
  note li0 = conjunct2 [OF inv [unfolded sched_inv_def layer_inv_def e(1) option.case]]
  note li1 = mp [OF conjunct2 [OF li0] e(3)]
  have li: "\<forall>v \<in> res s - D. status_of s v = Some ''waiting''" "{v \<in> nds eng - res s. pending_in (egs eng) D v = 0} = {}"
    using conjunct1 [OF li1] conjunct2 [OF conjunct2 [OF li1]] by (simp_all only: e(2) list.set)
  have 1: "res s \<subseteq> D"
  proof
    fix v assume v: "v \<in> res s"
    show "v \<in> D"
    proof (rule ccontr)
      assume "v \<notin> D"
      with v have "v \<in> res s - D" by simp
      from bspec [OF li(1) this] nw [OF v] show False by contradiction
    qed
  qed
  have 2: "D \<subseteq> res s" "res s \<subseteq> nds eng" using core by (simp_all only: core_inv_def)
  have "D = res s" using 1 2(1) by (rule subset_antisym [rotated])
  then show "{v \<in> nds eng - D. pending_in (egs eng) D v = 0} = {}" "D \<subseteq> nds eng"
    using li(2) 2(2) by simp_all
qed

end
