(* ===== verification/ExecutorLive.thy ===== *)
theory ExecutorLive
  imports ExecutorEnd
begin

text \<open>
  Runs end: a measure that every step lowers, and a step from every live state.  And they end
  with a status rather than an exception when no output variable is called \<open>nodes\<close>: then the
  context mirrors the recorded outcomes at every moment.
\<close>

section \<open>The measure\<close>

definition item_weight :: "engine \<Rightarrow> node \<Rightarrow> item \<Rightarrow> nat" where
  "item_weight eng node it = (if it_result it = None then nat (max_retries eng node) + 2 - it_attempt it else 0)"

definition job_weight :: "engine \<Rightarrow> string \<times> job \<Rightarrow> nat" where
  "job_weight eng nj =
     (case byName_of eng (fst nj) of None \<Rightarrow> 1
      | Some node \<Rightarrow> Suc (sum_list (map (item_weight eng node) (j_items (snd nj)))))"

definition run_rank :: "engine \<Rightarrow> exec \<Rightarrow> nat \<times> nat \<times> nat \<times> nat" where
  "run_rank eng s =
     (if live s then 1 else 0, card (nds eng - res s - runs s),
      sum_list (map (job_weight eng) (x_running s)), if x_layer s = None then 0 else 1)"

definition rank_less :: "((nat \<times> nat \<times> nat \<times> nat) \<times> (nat \<times> nat \<times> nat \<times> nat)) set" where
  "rank_less = less_than <*lex*> less_than <*lex*> less_than <*lex*> less_than"

lemma wf_rank_less: "wf rank_less"
  unfolding rank_less_def by (intro wf_lex_prod wf_less_than)

lemma sum_oset:
  "distinct (okeys m) \<Longrightarrow> oget m k = Some v \<Longrightarrow>
   sum_list (map f (oset k w m)) + f (k, v) = sum_list (map f m) + (f (k, w) :: nat)"
  by (induction m) (auto split: if_splits)

lemma sum_odel_notin: "k \<notin> set (okeys m) \<Longrightarrow> sum_list (map f (odel k m)) = sum_list (map f m)"
  by (induction m) auto

lemma sum_odel:
  "distinct (okeys m) \<Longrightarrow> oget m k = Some v \<Longrightarrow>
   sum_list (map f (odel k m)) + (f (k, v) :: nat) = sum_list (map f m)"
  by (induction m) (auto simp: sum_odel_notin split: if_splits)

lemma sum_list_update_less:
  "i < length xs \<Longrightarrow> f y < f (xs ! i) \<Longrightarrow> sum_list (map f (xs[i := y])) < (sum_list (map f xs) :: nat)"
proof (induction xs arbitrary: i)
  case (Cons x xs)
  then show ?case by (cases i) auto
qed simp

lemma next_item_lighter:
  assumes "item_ok eng node it" "it_result it = None"
  shows "item_weight eng node (next_item eng node r it) < item_weight eng node it"
  using assms max_retries_nonneg [of eng node]
  by (auto simp: next_item_def item_weight_def item_ok_def split: sum.splits)

lemma settle_lighter:
  assumes core: "core_inv eng H D s" and j: "oget (x_running s) name = Some j" and b: "byName_of eng name = Some node"
    and nm: "n_name node = name" and i: "i < length (j_items j)" "it_result (j_items j ! i) = None"
  shows "sum_list (map (job_weight eng) (x_running (settle eng node j i r s))) < sum_list (map (job_weight eng) (x_running s))"
proof -
  let ?its = "(j_items j)[i := next_item eng node r (j_items j ! i)]"
  have "job_ok eng node j" using core j b by (auto simp: core_inv_def jobs_ok_def)
  then have "item_ok eng node (j_items j ! i)" using i by (auto simp: job_ok_def list_all_length)
  from next_item_lighter [OF this i(2)]
  have w: "job_weight eng (name, j\<lparr>j_items := ?its\<rparr>) < job_weight eng (name, j)"
    using sum_list_update_less [OF i(1), where f = "item_weight eng node"] b by (simp add: job_weight_def)
  have d: "distinct (okeys (x_running s))" using core by (simp add: core_inv_def)
  show ?thesis using sum_oset [OF d j, of "job_weight eng" "j\<lparr>j_items := ?its\<rparr>"] w
    by (simp add: settle_fields nm)
qed

lemma job_weight_pos: "0 < job_weight eng nj"
  by (simp add: job_weight_def split: option.splits)

lemma move_element: "a \<in> B \<Longrightarrow> N - insert a A - (B - {a}) = N - A - B"
  by blast

lemma finish_dead: "\<not> live (finish_run eng s)"
  by (auto simp: finish_run_def Let_def live_def)

lemma step_rank:
  assumes st: "exec_step eng s s'" and eng: "engine_ok eng" and inv: "sched_inv eng H D s"
  shows "(run_rank eng s', run_rank eng s) \<in> rank_less"
proof (cases "live s'")
  case False
  then show ?thesis using step_live [OF st] by (simp add: run_rank_def rank_less_def)
next
  case True
  have l: "live s" by (rule step_live [OF st])
  have core: "core_inv eng H D s" using inv by (simp add: sched_inv_def)
  from st show ?thesis
  proof cases
    case (begun now)
    have li: "layer_inv eng D s'" and core': "core_inv eng H D s'"
      using begin_inv [OF inv eng begun(3,5) l, of now] begun(1) by (auto simp: sched_inv_def)
    have lay: "x_layer s' = Some (x_ready s)" using begin_layer_frame(3) [OF eng] begun by simp
    have 1: "set (x_ready s) \<subseteq> res s' \<union> runs s'" using li lay by (simp add: layer_inv_def)
    have r0: "x_running s = []" using inv begun(3) by (simp add: sched_inv_def layer_inv_def)
    have 2: "res s \<subseteq> res s'"
    proof
      fix v assume v: "v \<in> res s"
      have "oget (x_results s') v = oget (x_results s) v"
        by (rule step_results_kept [OF st eng inv v]) (use True in \<open>simp add: live_def\<close>)
      moreover have "oget (x_results s) v \<noteq> None" using v by (simp only: oget_None_iff not_not)
      ultimately have "oget (x_results s') v \<noteq> None" by simp
      then show "v \<in> res s'" by (simp only: oget_None_iff not_not)
    qed
    obtain v where v: "v \<in> set (x_ready s)" using begun(4) by (cases "x_ready s") auto
    have vin: "v \<in> nds eng - res s"
    proof -
      have "set (x_ready s) = {v \<in> nds eng - res s. pending_in (egs eng) D v = 0}"
        using inv begun(3,5) by (simp add: sched_inv_def layer_inv_def)
      then show ?thesis using v by blast
    qed
    have "nds eng - res s' - runs s' \<subset> nds eng - res s - runs s"
    proof
      show "nds eng - res s' - runs s' \<subseteq> nds eng - res s - runs s" using 2 r0 by auto
      have "v \<notin> nds eng - res s' - runs s'" using v 1 by blast
      moreover have "v \<in> nds eng - res s - runs s" using vin r0 by simp
      ultimately show "nds eng - res s' - runs s' \<noteq> nds eng - res s - runs s" by metis
    qed
    then have "card (nds eng - res s' - runs s') < card (nds eng - res s - runs s)" by (simp add: psubset_card_mono)
    then show ?thesis using l True by (simp add: run_rank_def rank_less_def)
  next
    case (settled layer name j node i evs r)
    have nm: "n_name node = name" using byName_Some [OF eng settled(5)] by simp
    have mem: "name \<in> set (okeys (x_running s))" using settled(4) by (rule oget_mem_keys)
    have keys: "okeys (x_running s') = okeys (x_running s)"
      unfolding settled(1) settle_fields(2) nm by (rule okeys_oset_mem [OF mem])
    have "res s' = res s" by (simp add: settled(1) settle_fields)
    moreover have "sum_list (map (job_weight eng) (x_running s')) < sum_list (map (job_weight eng) (x_running s))"
      unfolding settled(1) by (rule settle_lighter [OF core settled(4,5) nm settled(7,8)])
    ultimately show ?thesis using l True by (simp add: run_rank_def rank_less_def keys)
  next
    case (completed layer name j node now)
    have nm: "n_name node = name" using byName_Some [OF eng completed(5)] by simp
    have mem: "name \<in> runs s" using completed(4) by (rule oget_mem_keys)
    have rec: "records name {''success'', ''failed'', ''waiting''} (s\<lparr>x_running := odel name (x_running s)\<rparr>) s'"
      using complete_effect [of node s eng now j] True completed(1) by (simp add: nm live_def)
    then obtain oc where oc: "x_results s' = oset name oc (x_results s)" and ru: "x_running s' = odel name (x_running s)"
      by (auto simp: records_def)
    have "res s' = insert name (res s)" unfolding oc by simp
    have "runs s' = runs s - {name}" unfolding ru by simp
    then have un: "nds eng - res s' - runs s' = nds eng - res s - runs s"
      unfolding \<open>res s' = insert name (res s)\<close> by (simp only: move_element [OF mem])
    have d: "distinct (okeys (x_running s))" using core by (simp add: core_inv_def)
    have "sum_list (map (job_weight eng) (x_running s')) < sum_list (map (job_weight eng) (x_running s))"
      using sum_odel [OF d completed(4), of "job_weight eng"] job_weight_pos [of eng "(name, j)"] ru by simp
    then show ?thesis using l True un by (simp add: run_rank_def rank_less_def)
  next
    case (ended layer)
    then show ?thesis using l True by (simp add: run_rank_def rank_less_def)
  next
    case finished
    then show ?thesis using True finish_dead by simp
  qed
qed

theorem no_infinite_run:
  assumes eng: "engine_ok eng" and inv: "\<exists>D. sched_inv eng H D (f 0)"
  shows "\<not> (\<forall>i. exec_step eng (f i) (f (Suc i)))"
proof
  assume st: "\<forall>i. exec_step eng (f i) (f (Suc i))"
  have l: "live (f i)" for i using st step_live by blast
  have iv: "\<exists>D. sched_inv eng H D (f i)" for i
  proof (induction i)
    case (Suc i)
    then show ?case using step_inv [OF spec [OF st, of i] eng _ l] by blast
  qed (rule inv)
  have "\<forall>i. (run_rank eng (f (Suc i)), run_rank eng (f i)) \<in> rank_less"
    using iv step_rank [OF spec [OF st] eng] by blast
  then have "\<exists>g. \<forall>i. (g (Suc i), g i) \<in> rank_less" by (rule exI [of _ "\<lambda>i. run_rank eng (f i)"])
  then show False using wf_rank_less unfolding wf_iff_no_infinite_down_chain by (rule notE [rotated])
qed

section \<open>Progress\<close>

lemma attempt_can_settle: "attempt_result eng node [Fulfils v] = Some (Inr v)"
  by (simp add: attempt_result_def withTimeout_def Let_def promise_result_def race_init_def split: option.splits)

lemma undecided_open: "\<not> job_decided j \<Longrightarrow> \<exists>i < length (j_items j). it_result (j_items j ! i) = None"
proof -
  assume "\<not> job_decided j"
  then obtain it where it: "it \<in> set (j_items j)" "\<not> item_done it" "\<not> item_failed it"
    by (auto simp: job_decided_def list_ex_iff list_all_iff)
  then have "it_result it = None" by (auto simp: item_done_def item_failed_def split: option.splits sum.splits)
  with it(1) show ?thesis by (metis in_set_conv_nth)
qed

theorem run_progress:
  assumes eng: "engine_ok eng" and inv: "sched_inv eng H D s" and l: "live s"
  shows "\<exists>s'. exec_step eng s s'"
proof (cases "x_layer s")
  case None
  then show ?thesis using begun [OF l None] finished [OF l None] by blast
next
  case (Some layer)
  show ?thesis
  proof (cases "x_running s")
    case Nil
    then show ?thesis using ended [OF l Some] by blast
  next
    case (Cons nj rest)
    obtain name j where nj: "nj = (name, j)" by (cases nj)
    have j: "oget (x_running s) name = Some j" by (simp add: Cons nj)
    have "name \<in> runs s" using j by (rule oget_mem_keys)
    then have "name \<in> nds eng" using inv unfolding sched_inv_def core_inv_def by blast
    then obtain node where b: "byName_of eng name = Some node" using byName_ex [OF eng] by blast
    show ?thesis
    proof (cases "job_decided j")
      case True
      show ?thesis using completed [OF l Some j b True] by blast
    next
      case False
      from undecided_open [OF this] obtain i where i: "i < length (j_items j)" "it_result (j_items j ! i) = None" by blast
      show ?thesis using settled [OF l Some j b False i attempt_can_settle] by blast
    qed
  qed
qed

section \<open>The context mirrors the outcomes\<close>

text \<open>No output is bound to the variable \<open>nodes\<close>, and the registry knows the actions.\<close>

definition outputs_safe :: "engine \<Rightarrow> bool" where
  "outputs_safe eng =
     (list_all (\<lambda>n. n_outputVar n \<noteq> ''nodes'' \<and>
                    list_all (\<lambda>kv. js_string (snd kv) \<noteq> ''nodes'') (js_entries (n_outputs n)) \<and>
                    (n_outputVar n \<noteq> [] \<longrightarrow> (case g_primary eng (n_action n) of Inl _ \<Rightarrow> False | Inr _ \<Rightarrow> True)))
        (w_nodes (g_wf eng)))"

definition mirrored :: "exec \<Rightarrow> bool" where
  "mirrored s = (x_crash s = None \<and>
     (\<exists>kvs. oget (x_ctx s) ''nodes'' = Some (JObj kvs) \<and>
        (\<forall>v oc. oget (x_results s) v = Some oc \<longrightarrow> oget kvs v = Some (node_entry oc) \<or> oget kvs v = Some (prev_entry oc))))"

lemma mirrored_same:
  "mirrored s \<Longrightarrow> x_crash s' = None \<Longrightarrow> oget (x_ctx s') ''nodes'' = oget (x_ctx s) ''nodes'' \<Longrightarrow>
   x_results s' = x_results s \<Longrightarrow> mirrored s'"
  by (simp add: mirrored_def)

lemma mirrored_record:
  assumes m: "mirrored s" and k: "quiet k"
  shows "mirrored (recordOutcome name oc k s)"
proof -
  obtain kvs where c: "x_crash s = None" "oget (x_ctx s) ''nodes'' = Some (JObj kvs)"
      "\<And>v oc. oget (x_results s) v = Some oc \<Longrightarrow> oget kvs v = Some (node_entry oc) \<or> oget kvs v = Some (prev_entry oc)"
    using m by (auto simp: mirrored_def)
  let ?ctx = "oset ''nodes'' (JObj (oset name (node_entry oc) kvs)) (x_ctx s)"
  let ?s = "(s\<lparr>x_results := oset name oc (x_results s), x_ctx := ?ctx,
      x_writes := x_writes s @ [(name, entry_partial oc)]\<rparr>)"
  have "recordOutcome name oc k s = k ?s"
    using c(2) by (simp add: recordOutcome_def set_node_entry_def Let_def)
  moreover have "mirrored ?s" using c by (auto simp: mirrored_def)
  ultimately show ?thesis using k by (auto simp: quiet_def mirrored_def)
qed

lemma mirrored_finish: "mirrored s \<Longrightarrow> quiet k \<Longrightarrow> mirrored (finish_node node oc extra k s)"
  unfolding finish_node_def by (rule mirrored_record [OF _ quiet_comp [OF _ quiet_emit_status]])

lemma mirrored_fail: "mirrored s \<Longrightarrow> mirrored (fail_node now st att e node s)"
  by (simp add: fail_node_def mirrored_finish)

lemma mirrored_early: "mirrored s \<Longrightarrow> quiet k \<Longrightarrow> mirrored (fail_early p e k node s)"
  by (simp add: fail_early_def mirrored_finish)

lemma mirrored_skip: "mirrored s \<Longrightarrow> mirrored (skip_node r node s)"
  by (simp add: skip_node_def mirrored_finish)

lemma mirrored_launch:
  assumes m: "mirrored s"
  shows "mirrored (launch eng now node inputs batch s)"
proof -
  have s2: "mirrored ((emit_status a b c s)\<lparr>x_writes := w\<rparr>)" for a b c w
    by (rule mirrored_same [OF m]) (use m in \<open>simp_all add: emit_status_def mirrored_def\<close>)
  have r: "mirrored ((emit_status a b c s)\<lparr>x_writes := w, x_running := r\<rparr>)" for a b c w r
    by (rule mirrored_same [OF m]) (use m in \<open>simp_all add: emit_status_def mirrored_def\<close>)
  show ?thesis
    using mirrored_fail [OF s2] r by (auto simp: launch_def Let_def split: option.splits sum.splits)
qed

lemma mirrored_start: "mirrored s \<Longrightarrow> mirrored (start_node eng now node s)"
  by (auto simp: start_node_def mirrored_skip mirrored_early mirrored_launch
      split: option.splits sum.splits js.splits)

lemma apply_pairs_nodes:
  "list_all (\<lambda>kv. js_string (snd kv) \<noteq> ''nodes'') kvs \<Longrightarrow> oget (apply_pairs raw kvs ctx) ''nodes'' = oget ctx ''nodes''"
  by (induction raw kvs ctx rule: apply_pairs.induct) auto

lemma bind_outputs_nodes:
  assumes "outputs_safe eng" "node \<in> set (w_nodes (g_wf eng))"
  shows "\<exists>ctx'. bind_outputs eng node out ctx = Inr ctx' \<and> oget ctx' ''nodes'' = oget ctx ''nodes''"
proof -
  have n: "n_outputVar node \<noteq> ''nodes''" "list_all (\<lambda>kv. js_string (snd kv) \<noteq> ''nodes'') (js_entries (n_outputs node))"
      "n_outputVar node \<noteq> [] \<longrightarrow> (case g_primary eng (n_action node) of Inl _ \<Rightarrow> False | Inr _ \<Rightarrow> True)"
    using assms by (auto simp: outputs_safe_def list_all_iff)
  have a: "oget (applyOutputMapping out (n_outputs node) ctx) ''nodes'' = oget ctx ''nodes''"
    by (simp add: applyOutputMapping_def apply_pairs_nodes [OF n(2)])
  show ?thesis
  proof (cases "n_outputVar node = []")
    case True
    then show ?thesis using a by (simp add: bind_outputs_def Let_def)
  next
    case False
    then obtain p where "g_primary eng (n_action node) = Inr p" using n(3) by (auto split: sum.splits)
    then show ?thesis using a n(1) False by (simp add: bind_outputs_def Let_def)
  qed
qed

lemma mirrored_complete:
  assumes m: "mirrored s" and o_: "outputs_safe eng" "node \<in> set (w_nodes (g_wf eng))"
  shows "mirrored (complete eng now node j s)"
proof -
  have 1: "mirrored (s\<lparr>x_running := r\<rparr>)" for r by (rule mirrored_same [OF m]) (use m in \<open>simp_all add: mirrored_def\<close>)
  obtain ctx' where c: "bind_outputs eng node (job_output j) (x_ctx s) = Inr ctx'"
      "oget ctx' ''nodes'' = oget (x_ctx s) ''nodes''"
    using bind_outputs_nodes [OF o_] by blast
  have 2: "mirrored (s\<lparr>x_running := r, x_ctx := ctx'\<rparr>)" for r
    by (rule mirrored_same [OF m]) (use m c in \<open>simp_all add: mirrored_def\<close>)
  show ?thesis
    using c by (auto simp: complete_def Let_def mirrored_fail 1 2 mirrored_finish split: option.splits)
qed

lemma mirrored_mark: "mirrored s \<Longrightarrow> mirrored (mark_pending a r v s)"
  by (auto simp: mark_pending_def intro!: mirrored_record)

lemma mirrored_fold: "(\<And>s v. mirrored s \<Longrightarrow> mirrored (f v s)) \<Longrightarrow> mirrored s \<Longrightarrow> mirrored (fold f vs s)"
  by (induction vs arbitrary: s) auto

lemma mirrored_start_named: "mirrored s \<Longrightarrow> mirrored (start_named eng now v s)"
  by (auto simp: start_named_def mirrored_start split: option.splits)

lemma step_mirrored:
  assumes st: "exec_step eng s s'" and eng: "engine_ok eng" and sf: "outputs_safe eng" and m: "mirrored s"
  shows "mirrored s'"
  using st
proof cases
  case (begun now)
  have "mirrored (s\<lparr>x_ready := [], x_layer := Some (x_ready s)\<rparr>)"
    by (rule mirrored_same [OF m]) (use m in \<open>simp_all add: mirrored_def\<close>)
  then show ?thesis unfolding begun(1) begin_layer_def by (intro mirrored_fold mirrored_start_named)
next
  case (settled layer name j node i evs r)
  have "x_ctx s' = x_ctx s"
    unfolding settled(1) by (auto simp: settle_def Let_def emit_status_def split: sum.splits)
  moreover have "x_crash s' = None" using m by (simp add: settled(1) settle_fields mirrored_def)
  ultimately show ?thesis using mirrored_same [OF m] by (simp add: settled(1) settle_fields)
next
  case (completed layer name j node now)
  then show ?thesis using mirrored_complete [OF m sf] byName_Some [OF eng] by blast
next
  case (ended layer)
  then show ?thesis using m by (auto intro: mirrored_same [OF m] simp: mirrored_def)
next
  case finished
  let ?s1 = "case x_aborting s of None \<Rightarrow> s | Some r \<Rightarrow> fold (mark_pending True r) (node_order eng) s"
  let ?s2 = "fold (mark_pending False ''not reached'') (node_order eng) ?s1"
  have "mirrored ?s1" using m by (cases "x_aborting s") (auto intro!: mirrored_fold mirrored_mark)
  then have m2: "mirrored ?s2" by (intro mirrored_fold mirrored_mark)
  then have c: "x_crash ?s2 = None" by (simp add: mirrored_def)
  have "s' = (emit ''execution:end'' [(''status'', JStr (overall_status ?s2))] ?s2)\<lparr>x_status := Some (overall_status ?s2)\<rparr>"
    using c by (simp add: finished(1) finish_run_def Let_def)
  then show ?thesis using m2 by (auto intro: mirrored_same simp: mirrored_def)
qed

lemma reach_mirrored:
  "exec_reach eng s s' \<Longrightarrow> engine_ok eng \<Longrightarrow> outputs_safe eng \<Longrightarrow> mirrored s \<Longrightarrow> mirrored s'"
  by (induction rule: rtranclp_induct) (auto intro: step_mirrored)

lemma mirrored_hydrate:
  assumes eng: "engine_ok eng" and sf: "outputs_safe eng" and m: "mirrored s"
  shows "mirrored (hydrate_one eng np s)"
proof -
  have mir: "mirrored (mirror name oc k s)" if m: "mirrored s" and k: "\<And>s. mirrored s \<Longrightarrow> mirrored (k s)" for name oc k s
  proof -
    obtain kvs where c: "x_crash s = None" "oget (x_ctx s) ''nodes'' = Some (JObj kvs)"
        "\<And>v oc. oget (x_results s) v = Some oc \<Longrightarrow> oget kvs v = Some (node_entry oc) \<or> oget kvs v = Some (prev_entry oc)"
      using m by (auto simp: mirrored_def)
    let ?s = "(s\<lparr>x_results := oset name oc (x_results s), x_ctx := oset ''nodes'' (JObj (oset name (prev_entry oc) kvs)) (x_ctx s)\<rparr>)"
    have "mirror name oc k s = k ?s" using c(2) by (simp add: mirror_def set_node_entry_def Let_def)
    moreover have "mirrored ?s" using c by (auto simp: mirrored_def)
    ultimately show ?thesis using k by simp
  qed
  show ?thesis
  proof (cases "byName_of eng (fst np)")
    case (Some node)
    then have n: "node \<in> set (w_nodes (g_wf eng))" using byName_Some [OF eng] by blast
    obtain ctx' where c: "bind_outputs eng node (o_output (snd np)) (x_ctx s) = Inr ctx'"
        "oget ctx' ''nodes'' = oget (x_ctx s) ''nodes''" using bind_outputs_nodes [OF sf n] by blast
    have 2: "mirrored (s\<lparr>x_ctx := ctx'\<rparr>)" by (rule mirrored_same [OF m]) (use m c in \<open>simp_all add: mirrored_def\<close>)
    have 3: "mirrored (t\<lparr>x_remaining := r\<rparr>)" if "mirrored t" for t r
      by (rule mirrored_same [OF that]) (use that in \<open>simp_all add: mirrored_def\<close>)
    show ?thesis using m 2 3 c by (auto simp: hydrate_one_def Some intro!: mir)
  qed (use m in \<open>simp add: hydrate_one_def\<close>)
qed

lemma start_mirrored:
  assumes eng: "engine_ok eng" and sf: "outputs_safe eng"
  shows "mirrored (start_run eng data nps)"
proof -
  have "mirrored (exec_init eng data)" by (simp add: mirrored_def exec_init_def)
  then have m: "mirrored (fold (hydrate_one eng) nps (exec_init eng data))"
    by (intro mirrored_fold mirrored_hydrate [OF eng sf])
  then have "x_crash (fold (hydrate_one eng) nps (exec_init eng data)) = None" by (simp add: mirrored_def)
  then show ?thesis using m by (auto simp: start_run_def Let_def intro: mirrored_same simp: mirrored_def)
qed

end
