(* ===== verification/ExecutorRuns.thy ===== *)
theory ExecutorRuns
  imports ExecutorLive
begin

text \<open>
  Runs from \<open>start_run\<close> to their last state: what every reachable state of a fresh or a resumed
  run satisfies, in the vocabulary of the source (results, jobs in flight, parents).
\<close>

section \<open>Reachable states of a run\<close>

definition run_state :: "engine \<Rightarrow> jsctx \<Rightarrow> (string \<times> outcome) list \<Rightarrow> exec \<Rightarrow> bool" where
  "run_state eng data nps s =
     (engine_ok eng \<and> distinct (map fst nps) \<and> live (start_run eng data nps) \<and> exec_reach eng (start_run eng data nps) s)"

lemma run_inv:
  assumes "run_state eng data nps s" "live s"
  shows "\<exists>D. sched_inv eng (res (start_run eng data nps)) D s"
  using assms reach_inv start_inv(1) unfolding run_state_def by blast

lemma reach_kept:
  assumes "exec_reach eng s s'" "engine_ok eng" "\<exists>D. sched_inv eng H D s" "x_crash s' = None" "v \<in> res s"
  shows "oget (x_results s') v = oget (x_results s) v"
  using assms
proof (induction rule: rtranclp_induct)
  case (step y z)
  have ly: "live y" by (rule step_live [OF step.hyps(2)])
  then have cy: "x_crash y = None" by (simp add: live_def)
  obtain D where D: "sched_inv eng H D y" using reach_inv [OF step.hyps(1) step.prems(1,2) ly] by blast
  have eq: "oget (x_results y) v = oget (x_results s) v" using step.IH step.prems cy by blast
  then have "v \<in> res y" using step.prems(4) by (metis oget_None_iff)
  then show ?case using step_results_kept [OF step.hyps(2) step.prems(1) D _ step.prems(3)] eq by simp
qed simp

lemma run_kept:
  assumes "run_state eng data nps s" "live s" "exec_reach eng s s'" "x_crash s' = None" "v \<in> res s"
  shows "oget (x_results s') v = oget (x_results s) v"
  by (rule reach_kept [OF assms(3) _ run_inv [OF assms(1,2)] assms(4,5)])
     (use assms(1) in \<open>simp add: run_state_def\<close>)

lemma status_listed: "status_of s w = Some st \<Longrightarrow> st \<in> set (map (o_status \<circ> snd) (x_results s))"
  by (auto simp: status_of_def dest!: map_of_SomeD intro: rev_image_eqI)

section \<open>Hydrated nodes\<close>

definition hydratable :: "outcome \<Rightarrow> bool" where
  "hydratable oc = (terminal_status (o_status oc) \<or> o_status oc = ''waiting'')"

lemma hydrate_results:
  assumes "x_crash (hydrate_one eng np s) = None"
  shows "x_results (hydrate_one eng np s) =
     (if byName_of eng (fst np) \<noteq> None \<and> hydratable (snd np) then oset (fst np) (snd np) (x_results s) else x_results s)"
  using assms
  by (auto simp: hydrate_one_def mirror_def hydratable_def Let_def split: option.splits if_splits sum.splits)

lemma hydrate_fold_other:
  "x_crash (fold (hydrate_one eng) nps s) = None \<Longrightarrow> v \<notin> set (map fst nps) \<Longrightarrow>
   oget (x_results (fold (hydrate_one eng) nps s)) v = oget (x_results s) v"
proof (induction nps arbitrary: s)
  case (Cons np nps)
  have c: "x_crash (hydrate_one eng np s) = None"
    using Cons.prems(1) hydrate_crashed [of "hydrate_one eng np s" eng nps] by (cases "x_crash (hydrate_one eng np s)") auto
  show ?case using Cons.IH [of "hydrate_one eng np s"] Cons.prems hydrate_results [OF c] by auto
qed simp

lemma hydrate_fold_results:
  "x_crash (fold (hydrate_one eng) nps s) = None \<Longrightarrow> distinct (map fst nps) \<Longrightarrow> (v, oc) \<in> set nps \<Longrightarrow>
   byName_of eng v \<noteq> None \<Longrightarrow> hydratable oc \<Longrightarrow>
   oget (x_results (fold (hydrate_one eng) nps s)) v = Some oc"
proof (induction nps arbitrary: s)
  case (Cons np nps)
  have c: "x_crash (hydrate_one eng np s) = None"
    using Cons.prems(1) hydrate_crashed [of "hydrate_one eng np s" eng nps] by (cases "x_crash (hydrate_one eng np s)") auto
  show ?case
  proof (cases "np = (v, oc)")
    case True
    then show ?thesis
      using Cons.prems hydrate_fold_other [of eng nps "hydrate_one eng np s" v] hydrate_results [OF c] by simp
  next
    case False
    then show ?thesis using Cons.IH [of "hydrate_one eng np s"] Cons.prems by auto
  qed
qed simp

lemma start_hydrated:
  assumes "engine_ok eng" "distinct (map fst nps)" "live (start_run eng data nps)" "(v, oc) \<in> set nps" "v \<in> nds eng" "hydratable oc"
  shows "oget (x_results (start_run eng data nps)) v = Some oc"
proof -
  let ?h = "fold (hydrate_one eng) nps (exec_init eng data)"
  have c: "x_crash ?h = None" using assms(3) by (auto simp: start_run_def Let_def live_def split: if_splits)
  have "byName_of eng v \<noteq> None" using byName_ex [OF assms(1,5)] by auto
  from hydrate_fold_results [OF c assms(2,4) this assms(6)] show ?thesis using c by (simp add: start_run_def Let_def)
qed

lemma run_hydrated:
  assumes "run_state eng data nps s" "live s" "(v, oc) \<in> set nps" "v \<in> nds eng" "hydratable oc"
  shows "oget (x_results s) v = Some oc \<and> v \<notin> runs s"
proof -
  have st: "oget (x_results (start_run eng data nps)) v = Some oc"
    using start_hydrated assms unfolding run_state_def by blast
  have c: "x_crash s = None" using assms(2) by (simp add: live_def)
  have "run_state eng data nps (start_run eng data nps)" "live (start_run eng data nps)"
    using assms(1) by (auto simp: run_state_def)
  with run_kept [OF this _ c oget_mem_keys [OF st]] assms(1) have e: "oget (x_results s) v = Some oc"
    using st by (simp add: run_state_def)
  obtain D where "core_inv eng (res (start_run eng data nps)) D s"
    using run_inv [OF assms(1,2)] by (auto simp: sched_inv_def)
  then have "runs s \<inter> res s = {}" by (simp add: core_inv_def)
  with e show ?thesis using oget_mem_keys by fast
qed

section \<open>Every run ends\<close>

lemma hydrate_one_status: "x_status (hydrate_one eng np s) = x_status s"
  by (auto simp: hydrate_one_def mirror_def Let_def split: option.splits sum.splits)

lemma hydrate_status: "x_status (fold (hydrate_one eng) nps s) = x_status s"
  by (induction nps arbitrary: s) (simp_all add: hydrate_one_status)

lemma start_run_status: "x_status (start_run eng data nps) = None"
  by (simp add: start_run_def Let_def hydrate_status exec_init_def)

lemma run_ends_from:
  assumes eng: "engine_ok eng" and sf: "outputs_safe eng"
  shows "\<exists>D. sched_inv eng H D s \<Longrightarrow> live s \<Longrightarrow> mirrored s \<Longrightarrow>
     \<exists>s'. exec_reach eng s s' \<and> x_crash s' = None \<and> x_status s' \<noteq> None"
proof (induction "run_rank eng s" arbitrary: s rule: wf_induct_rule [OF wf_rank_less])
  case (1 s)
  obtain D where D: "sched_inv eng H D s" using 1 by blast
  obtain t where t: "exec_step eng s t" using run_progress [OF eng D 1(3)] by blast
  have m: "mirrored t" by (rule step_mirrored [OF t eng sf 1(4)])
  then have c: "x_crash t = None" by (simp add: mirrored_def)
  show ?case
  proof (cases "live t")
    case True
    have inv: "\<exists>D. sched_inv eng H D t" using step_inv [OF t eng _ True] D by blast
    from 1(1) [OF step_rank [OF t eng D] inv True m] t show ?thesis
      by (meson converse_rtranclp_into_rtranclp)
  next
    case False
    then show ?thesis using t c by (auto simp: live_def)
  qed
qed

section \<open>From a parsed workflow to a run\<close>

text \<open>The first lines of \<open>executeDag\<close>: the tables are built from the parsed document.\<close>

definition new_engine ::
  "environ \<Rightarrow> feel \<Rightarrow> (string \<Rightarrow> string option js_result) \<Rightarrow> workflow \<Rightarrow> (string \<times> js) list \<Rightarrow> engine js_result" where
  "new_engine env feel primary wfl override =
     (case buildDag (w_nodes wfl) (w_edges wfl) of
        Inl e \<Rightarrow> Inl e
      | Inr d \<Rightarrow> Inr \<lparr>g_env = env, g_feel = feel, g_primary = primary, g_wf = wfl, g_dag = d, g_override = override\<rparr>)"

definition plain_names :: "workflow \<Rightarrow> bool" where
  "plain_names w = list_all (\<lambda>n. n \<notin> set object_prototype_keys) (node_names w)"

lemma new_engine_ok:
  assumes "well_formed required w" "plain_names w"
  shows "\<exists>eng. new_engine env feel primary w override = Inr eng \<and> engine_ok eng \<and> g_wf eng = w"
proof -
  have g: "graph_ok (map n_name (w_nodes w)) (w_edges w)"
    using assms(1) by (simp add: well_formed_def node_names_def)
  obtain d where d: "buildDag (w_nodes w) (w_edges w) = Inr d" using buildDag_ok [OF g] by blast
  show ?thesis
    using assms g by (simp add: new_engine_def d engine_ok_def well_formed_def plain_names_def node_names_def)
qed

section \<open>A sample workflow\<close>

text \<open>
  The concrete run the witnesses use: \<open>fetch\<close> feeds \<open>check\<close> and \<open>store\<close>; \<open>check\<close> runs only if the
  flag of the initial data is set, and \<open>mail\<close> comes after both.
\<close>

definition sample_node :: "string \<Rightarrow> string \<Rightarrow> string \<Rightarrow> node" where
  "sample_node name cond outv =
     \<lparr>n_name = name, n_action = ''http.request'', n_inputs = JObj [(''url'', JStr ''u'')], n_outputs = JObj [],
      n_executeIf = cond, n_retry = JNum 1, n_retryDelay = JNum 0, n_timeout = JUndef,
      n_onError = ''continue'', n_batchOver = [], n_outputVar = outv\<rparr>"

definition sample_wf :: workflow where
  "sample_wf =
     \<lparr>w_name = ''sample'', w_timeout = JUndef, w_nodeTimeout = JUndef, w_maxIterations = JUndef,
      w_maxTokens = JUndef, w_data = [(''flag'', JBool True)],
      w_nodes = [sample_node ''fetch'' [] ''page'', sample_node ''check'' ''${flag}'' [],
                 sample_node ''store'' [] [], sample_node ''mail'' [] []],
      w_edges = [\<lparr>e_from = ''fetch'', e_to = ''check''\<rparr>, \<lparr>e_from = ''fetch'', e_to = ''store''\<rparr>,
                 \<lparr>e_from = ''check'', e_to = ''mail''\<rparr>, \<lparr>e_from = ''store'', e_to = ''mail''\<rparr>]\<rparr>"

definition sample_dag :: dag where
  "sample_dag = (case buildDag (w_nodes sample_wf) (w_edges sample_wf) of Inr d \<Rightarrow> d
     | Inl _ \<Rightarrow> \<lparr>d_adj = [], d_indegree = [], d_byName = [], d_roots = []\<rparr>)"

definition sample_eng :: engine where
  "sample_eng =
     \<lparr>g_env = (\<lambda>_. None), g_feel = (\<lambda>_ _. Inr JUndef), g_primary = (\<lambda>_. Inr None), g_wf = sample_wf,
      g_dag = sample_dag, g_override = []\<rparr>"

text \<open>Every call succeeds with the number of its attempt.\<close>

definition sample_oracle :: "string \<Rightarrow> nat \<Rightarrow> nat \<Rightarrow> js race_event list" where
  "sample_oracle name i k = (if name = ''store'' \<and> k = 1 then [TimerFires] else [Fulfils (JNum (of_nat k))])"

lemma sample_well_formed: "well_formed (\<lambda>_. None) sample_wf"
proof -
  have "check_workflow (\<lambda>_. None) sample_wf = Inr sample_wf" by code_simp
  then show ?thesis by (simp only: check_workflow_iff) auto
qed

lemma sample_ok: "engine_ok sample_eng"
proof -
  have p: "plain_names sample_wf" by code_simp
  obtain eng where e: "new_engine (\<lambda>_. None) (\<lambda>_ _. Inr JUndef) (\<lambda>_. Inr None) sample_wf [] = Inr eng" "engine_ok eng"
    using new_engine_ok [OF sample_well_formed p] by blast
  then have "eng = sample_eng" by (auto simp: new_engine_def sample_eng_def sample_dag_def split: sum.splits)
  with e(2) show ?thesis by simp
qed

lemma sample_safe: "outputs_safe sample_eng"
  by code_simp

definition sample_start :: "(string \<times> js) list \<Rightarrow> (string \<times> outcome) list \<Rightarrow> exec" where
  "sample_start data nps = start_run sample_eng data nps"

definition sample_run :: "nat \<Rightarrow> (string \<times> js) list \<Rightarrow> (string \<times> outcome) list \<Rightarrow> exec" where
  "sample_run n data nps = drive n sample_eng sample_oracle (JStr ''t'') (sample_start data nps)"

lemma sample_reach: "exec_reach sample_eng (start_run sample_eng data nps) (sample_run n data nps)"
  by (simp add: sample_run_def sample_start_def drive_reach)

lemma sample_final: "x_status (sample_run 30 [] []) = Some ''success''" "live (start_run sample_eng [] [])"
  by code_simp+

lemma sample_flag_off: "x_status (sample_run 30 [(''flag'', JBool False)] []) = Some ''success''"
   "status_of (sample_run 30 [(''flag'', JBool False)] []) ''mail'' = Some ''skipped''"
  by code_simp+


lemma sample_state:
  "run_state sample_eng [] [] (sample_run n [] [])"
  "run_state sample_eng [(''flag'', JBool False)] [] (sample_run n [(''flag'', JBool False)] [])"
proof -
  have "live (start_run sample_eng [(''flag'', JBool False)] [])" by code_simp
  then show "run_state sample_eng [] [] (sample_run n [] [])"
    "run_state sample_eng [(''flag'', JBool False)] [] (sample_run n [(''flag'', JBool False)] [])"
    by (simp_all add: run_state_def sample_ok sample_final sample_reach)
qed

end
