(* ===== verification/Batch.thy ===== *)
theory Batch
  imports Executor
begin

text \<open>
  \<open>backend/src/engine/batch.js\<close>: one run of the workflow per item, by a pool of at most
  \<open>concurrency\<close> loops that share a cursor.  A run of one item is a parameter (its status, context and
  node records, or the error \<open>executeDag\<close> threw); the pool is a step relation, because the loops
  interleave at their awaits.
\<close>

record batch_item =
  b_index :: nat
  b_status :: string
  b_ctx :: js
  b_nodes :: js
  b_error :: js

record batch_pool =
  p_cursor :: nat
  p_idle :: nat
  p_active :: "nat list"
  p_returned :: nat
  p_results :: "batch_item option list"

definition item_initial :: "js \<Rightarrow> (string \<times> js) list" where
  "item_initial item = (if is_objlike item then js_entries item else [(''input'', item)])"

definition child_id :: "string \<Rightarrow> nat \<Rightarrow> string" where
  "child_id parent i = parent @ ''#'' @ show_nat i"

text \<open>\<open>Math.max(1, opts.concurrency || 4)\<close>, then \<open>Math.min(concurrency, items.length)\<close> loops.\<close>

definition pool_size :: "nat option \<Rightarrow> nat \<Rightarrow> nat" where
  "pool_size concurrency n =
     (let c = (case concurrency of None \<Rightarrow> 4 | Some 0 \<Rightarrow> 4 | Some k \<Rightarrow> k) in min (max 1 c) n)"

definition pool_init :: "nat option \<Rightarrow> nat \<Rightarrow> batch_pool" where
  "pool_init concurrency n =
     \<lparr>p_cursor = 0, p_idle = pool_size concurrency n, p_active = [], p_returned = 0, p_results = replicate n None\<rparr>"

type_synonym item_run = "(string \<times> js \<times> js) js_result"

definition item_record :: "nat \<Rightarrow> item_run \<Rightarrow> batch_item" where
  "item_record i r =
     (case r of
        Inr (st, ctx, nodes) \<Rightarrow> \<lparr>b_index = i, b_status = st, b_ctx = ctx, b_nodes = nodes, b_error = JUndef\<rparr>
      | Inl e \<Rightarrow> \<lparr>b_index = i, b_status = ''failed'', b_ctx = JUndef, b_nodes = JUndef, b_error = JStr (e_message e)\<rparr>)"

text \<open>One turn of a loop: take the next index, or return when the cursor is past the end.\<close>

definition pool_take :: "nat \<Rightarrow> batch_pool \<Rightarrow> batch_pool" where
  "pool_take n p =
     (if p_cursor p < n
      then p\<lparr>p_cursor := Suc (p_cursor p), p_idle := p_idle p - 1, p_active := p_active p @ [p_cursor p]\<rparr>
      else p\<lparr>p_cursor := Suc (p_cursor p), p_idle := p_idle p - 1, p_returned := Suc (p_returned p)\<rparr>)"

definition pool_put :: "nat \<Rightarrow> item_run \<Rightarrow> batch_pool \<Rightarrow> batch_pool" where
  "pool_put i r p =
     p\<lparr>p_active := remove1 i (p_active p), p_idle := Suc (p_idle p),
       p_results := (p_results p)[i := Some (item_record i r)]\<rparr>"

inductive pool_step :: "nat \<Rightarrow> batch_pool \<Rightarrow> batch_pool \<Rightarrow> bool" for n where
  take_next: "0 < p_idle p \<Longrightarrow> pool_step n p (pool_take n p)"
| item_done: "i \<in> set (p_active p) \<Longrightarrow> pool_step n p (pool_put i r p)"

inductive_cases pool_stepE: "pool_step n p q"

text \<open>The status of the whole batch, and the up-front cap.\<close>

definition batch_status :: "batch_item list \<Rightarrow> string" where
  "batch_status rs =
     (if list_all (\<lambda>r. b_status r = ''success'') rs then ''success''
      else if list_all (\<lambda>r. b_status r = ''failed'') rs then ''failed'' else ''partial'')"

definition executeBatch :: "environ \<Rightarrow> js \<Rightarrow> js list \<Rightarrow> nat option \<Rightarrow> batch_pool js_result" where
  "executeBatch env wf_max items concurrency =
     (case assertIterationCap env wf_max (length items) ''executeBatch'' of
        Inl e \<Rightarrow> Inl e | Inr _ \<Rightarrow> Inr (pool_init concurrency (length items)))"

text \<open>What \<open>executeBatch\<close> returns once every loop has returned.\<close>

definition batch_result :: "batch_pool \<Rightarrow> (string \<times> batch_item list) option" where
  "batch_result p =
     (if p_idle p = 0 \<and> p_active p = []
      then (let rs = concat (map (\<lambda>x. case x of None \<Rightarrow> [] | Some r \<Rightarrow> [r]) (p_results p)) in Some (batch_status rs, rs))
      else None)"

section \<open>The pool\<close>

definition pool_inv :: "nat option \<Rightarrow> nat \<Rightarrow> batch_pool \<Rightarrow> bool" where
  "pool_inv c n p =
     (p_idle p + length (p_active p) + p_returned p = pool_size c n \<and> distinct (p_active p) \<and>
      length (p_results p) = n \<and> (0 < p_returned p \<longrightarrow> n \<le> p_cursor p) \<and>
      (\<forall>i < n. (p_results p ! i = None) = (i \<in> set (p_active p) \<or> p_cursor p \<le> i)) \<and>
      (\<forall>i \<in> set (p_active p). i < n \<and> i < p_cursor p) \<and>
      (\<forall>i < n. \<forall>r. p_results p ! i = Some r \<longrightarrow> b_index r = i))"

lemma pool_init_inv: "pool_inv c n (pool_init c n)"
  by (simp add: pool_inv_def pool_init_def)

lemma pool_step_inv: "pool_step n p q \<Longrightarrow> pool_inv c n p \<Longrightarrow> pool_inv c n q"
proof (elim pool_stepE)
  assume q: "q = pool_take n p" and i: "0 < p_idle p" and inv: "pool_inv c n p"
  show "pool_inv c n q"
    using inv i unfolding q pool_inv_def pool_take_def
    by (auto simp: less_Suc_eq_le le_less Suc_le_eq)
next
  fix i r
  assume q: "q = pool_put i r p" and i: "i \<in> set (p_active p)" and inv: "pool_inv c n p"
  have "length (remove1 i (p_active p)) = length (p_active p) - 1" "0 < length (p_active p)"
    using i by (simp_all only: length_remove1 length_pos_if_in_set if_True)
  then have len: "Suc (p_idle p + length (remove1 i (p_active p))) = p_idle p + length (p_active p)" by simp
  have "b_index (item_record i r) = i" by (simp add: item_record_def split: sum.splits prod.splits)
  then show "pool_inv c n q"
    using inv i len unfolding q pool_inv_def pool_put_def by (auto simp: nth_list_update simp del: length_remove1)
qed

lemma pool_reach_inv: "(pool_step n)\<^sup>*\<^sup>* (pool_init c n) p \<Longrightarrow> pool_inv c n p"
  by (induction rule: rtranclp_induct) (auto intro: pool_init_inv pool_step_inv)

lemma pool_bound: "pool_inv c n p \<Longrightarrow> length (p_active p) \<le> pool_size c n"
  by (simp add: pool_inv_def)

lemma pool_finished:
  assumes inv: "pool_inv c n p" and d: "p_idle p = 0" "p_active p = []"
  shows "\<forall>i < n. \<exists>r. p_results p ! i = Some r \<and> b_index r = i"
proof (intro allI impI)
  fix i assume i: "i < n"
  have "0 < pool_size c n" using i by (auto simp: pool_size_def Let_def split: option.splits nat.splits)
  then have "n \<le> p_cursor p" using inv d by (simp add: pool_inv_def)
  then have "p_results p ! i \<noteq> None" using inv d i by (simp add: pool_inv_def)
  then show "\<exists>r. p_results p ! i = Some r \<and> b_index r = i" using inv i by (auto simp: pool_inv_def)
qed

lemma batch_result_complete:
  assumes "pool_inv c n p" "batch_result p = Some (st, rs)"
  shows "map b_index rs = [0..<n]"
proof -
  have d: "p_idle p = 0" "p_active p = []"
    and rs: "rs = concat (map (\<lambda>x. case x of None \<Rightarrow> [] | Some r \<Rightarrow> [r]) (p_results p))"
    using assms(2) by (auto simp: batch_result_def Let_def split: if_splits)
  have all: "\<forall>i < n. \<exists>r. p_results p ! i = Some r \<and> b_index r = i" by (rule pool_finished [OF assms(1) d])
  have len: "length (p_results p) = n" using assms(1) by (simp add: pool_inv_def)
  have g: "map b_index (concat (map (\<lambda>x. case x of None \<Rightarrow> [] | Some r \<Rightarrow> [r]) xs)) = [k..<k + length xs]"
    if "\<forall>i < length xs. \<exists>r. xs ! i = Some r \<and> b_index r = k + i" for xs k
    using that
  proof (induction xs arbitrary: k)
    case (Cons x xs)
    obtain r where r: "x = Some r" "b_index r = k" using Cons.prems by force
    have "\<forall>i < length xs. \<exists>r. xs ! i = Some r \<and> b_index r = Suc k + i" using Cons.prems by force
    note IH = Cons.IH [OF this]
    have "[k ..< k + length (x # xs)] = k # [Suc k ..< Suc k + length xs]" by (simp add: upt_rec)
    then show ?case using IH r by (simp del: upt_Suc add: upt_rec)
  qed simp
  show ?thesis using g [of "p_results p" 0] all len rs by simp
qed

end
