(* ===== verification/ExecApi.thy ===== *)
theory ExecApi
  imports NodeStateStore
begin

text \<open>
  The mutating handlers of \<open>backend/src/api/executions.js\<close>: resume, skip, respond and delete, on the
  tables \<open>executions\<close> and \<open>node_states\<close> and the job queue.  The role check of the route is
  \<open>AuthMiddleware\<close>'s; here the caller is its workspace and project.
\<close>

record queue_job =
  q_exec :: string
  q_graph :: string
  q_override :: "(string \<times> js) list"

record exec_db =
  db_execs :: exec_table
  db_nodes :: ns_table
  db_queue :: "queue_job list"

record caller =
  c_workspace :: string
  c_project :: string

definition find_exec :: "caller \<Rightarrow> string \<Rightarrow> exec_db \<Rightarrow> exec_row option" where
  "find_exec u i db =
     (case oget (db_execs db) i of
        Some r \<Rightarrow> if er_workspace r = c_workspace u \<and> er_project r = c_project u then Some r else None
      | None \<Rightarrow> None)"

definition in_flight :: "exec_row \<Rightarrow> bool" where
  "in_flight r = (er_status r = ''running'' \<or> er_status r = ''queued'')"

text \<open>\<open>UPDATE executions SET status='queued', error=NULL, finished_at=NULL\<close>\<close>

definition requeue_row :: "exec_row \<Rightarrow> exec_row" where
  "requeue_row r = r\<lparr>er_status := ''queued'', er_error := JNull, er_finished := JNull\<rparr>"

definition enqueue :: "string \<Rightarrow> string \<Rightarrow> (string \<times> js) list \<Rightarrow> exec_db \<Rightarrow> exec_db" where
  "enqueue i g ov db =
     db\<lparr>db_execs := update_row i requeue_row (db_execs db),
        db_queue := db_queue db @ [\<lparr>q_exec = i, q_graph = g, q_override = ov\<rparr>]\<rparr>"

text \<open>\<open>ORDER BY finished_at ASC LIMIT 1\<close> (ISO timestamps as text, nulls last).\<close>

fun str_before :: "string \<Rightarrow> string \<Rightarrow> bool" where
  "str_before [] [] = False"
| "str_before [] (_ # _) = True"
| "str_before (_ # _) [] = False"
| "str_before (a # as) (b # bs) =
     ((of_char a :: nat) < of_char b \<or> a = b \<and> str_before as bs)"

definition ts_before :: "js \<Rightarrow> js \<Rightarrow> bool" where
  "ts_before a b = (case (a, b) of (JStr x, JStr y) \<Rightarrow> str_before x y | (JStr _, _) \<Rightarrow> True | _ \<Rightarrow> False)"

definition first_failed :: "string \<Rightarrow> ns_table \<Rightarrow> string option" where
  "first_failed i t =
     (case filter (\<lambda>e. fst (fst e) = i \<and> ns_status (snd e) = JStr ''failed'') t of
        [] \<Rightarrow> None
      | e # es \<Rightarrow> Some (snd (fst (foldl (\<lambda>a b. if ts_before (ns_finished (snd b)) (ns_finished (snd a)) then b else a) e es))))"

definition partial0 :: ns_partial where
  "partial0 = \<lparr>np_status = JUndef, np_attempts = JUndef, np_inputs = JUndef, np_output = JUndef,
     np_error = JUndef, np_reason = JUndef, np_started = JUndef, np_finished = JUndef\<rparr>"

definition resume :: "js \<Rightarrow> caller \<Rightarrow> string \<Rightarrow> string \<Rightarrow> js \<Rightarrow> exec_db \<Rightarrow> js js_result \<times> exec_db" where
  "resume now u i target inputs db =
     (case find_exec u i db of
        None \<Rightarrow> (Inl (not_found_error ''execution''), db)
      | Some row \<Rightarrow>
          if in_flight row then
            (Inl (validation_error (''execution is '' @ er_status row @ ''; cannot resume an in-flight run'') JUndef), db)
          else case (if target \<noteq> [] then Some target else first_failed i (db_nodes db)) of
            None \<Rightarrow> (Inl (validation_error ''no failed node to resume from'' JUndef), db)
          | Some node \<Rightarrow>
              (let db1 = db\<lparr>db_nodes := resetNodeForReplay now i node ''pending'' (db_nodes db)\<rparr>;
                   edit = is_objlike inputs;
                   db2 = (if edit then db1\<lparr>db_nodes := upsertNodeState now (i, node)
                            (partial0\<lparr>np_status := JStr ''pending'', np_inputs := inputs\<rparr>) (db_nodes db1)\<rparr>
                          else db1)
               in (Inr (JObj [(''id'', JStr i), (''status'', JStr ''queued''), (''resumedFrom'', JStr node)]),
                   enqueue i (er_graph row) (if edit then [(node, inputs)] else []) db2)))"

definition skip :: "js \<Rightarrow> caller \<Rightarrow> string \<Rightarrow> string \<Rightarrow> exec_db \<Rightarrow> js js_result \<times> exec_db" where
  "skip now u i node db =
     (if node = [] then (Inl (validation_error ''body.node is required'' JUndef), db)
      else case find_exec u i db of
        None \<Rightarrow> (Inl (not_found_error ''execution''), db)
      | Some row \<Rightarrow>
          if in_flight row then
            (Inl (validation_error (''execution is '' @ er_status row @ ''; cannot edit an in-flight run'') JUndef), db)
          else (Inr (JObj [(''id'', JStr i), (''status'', JStr ''queued''), (''skippedNode'', JStr node)]),
                enqueue i (er_graph row) []
                  (db\<lparr>db_nodes := resetNodeForReplay now i node ''skipped'' (db_nodes db)\<rparr>)))"

definition respond_data :: "js \<Rightarrow> js" where
  "respond_data body =
     (case body of JObj kvs \<Rightarrow> (case oget kvs ''data'' of Some v \<Rightarrow> v | None \<Rightarrow> body) | _ \<Rightarrow> body)"

definition respond_output :: "js \<Rightarrow> js \<Rightarrow> js" where
  "respond_output body tm = JObj [(''data'', respond_data body), (''respondedAt'', tm)]"

definition respond :: "js \<Rightarrow> caller \<Rightarrow> string \<Rightarrow> string \<Rightarrow> js \<Rightarrow> exec_db \<Rightarrow> js js_result \<times> exec_db" where
  "respond now u i node body db =
     (case find_exec u i db of
        None \<Rightarrow> (Inl (not_found_error ''execution''), db)
      | Some row \<Rightarrow>
          (case oget (db_nodes db) (i, node) of
             None \<Rightarrow> (Inl (not_found_error (''node '' @ node)), db)
           | Some r \<Rightarrow>
               if ns_status r \<noteq> JStr ''waiting'' then
                 (Inl (validation_error (''node '' @ quoted node @ '' is not waiting (status='' @ js_string (ns_status r) @ '')'') JUndef), db)
               else (Inr (JObj [(''id'', JStr i), (''node'', JStr node), (''status'', JStr ''queued'')]),
                     enqueue i (er_graph row) []
                       (db\<lparr>db_nodes := upsertNodeState now (i, node)
                          (partial0\<lparr>np_status := JStr ''success'', np_output := respond_output body now,
                                    np_finished := now\<rparr>) (db_nodes db)\<rparr>))))"

text \<open>Deleting an execution cascades to its node rows.\<close>

definition delete_exec :: "caller \<Rightarrow> string \<Rightarrow> exec_db \<Rightarrow> js js_result \<times> exec_db" where
  "delete_exec u i db =
     (case find_exec u i db of
        None \<Rightarrow> (Inl (not_found_error ''execution''), db)
      | Some _ \<Rightarrow> (Inr (JObj [(''ok'', JBool True), (''id'', JStr i), (''deleted'', JStr ''execution'')]),
                   db\<lparr>db_execs := odel i (db_execs db), db_nodes := filter (\<lambda>e. fst (fst e) \<noteq> i) (db_nodes db)\<rparr>))"

section \<open>Lemmas\<close>

lemma oget_update_row [simp]: "oget (update_row k f t) k' = (if k' = k then map_option f (oget t k) else oget t k')"
  by (auto simp: update_row_def split: option.splits)

text \<open>A caller never reads or changes an execution of another workspace or project.\<close>

lemma foreign_row:
  "oget (db_execs db) i = Some r \<Longrightarrow> er_workspace r \<noteq> c_workspace u \<or> er_project r \<noteq> c_project u \<Longrightarrow> find_exec u i db = None"
  by (auto simp: find_exec_def)

lemma respond_effect:
  assumes "respond now u i node body db = (Inr v, db')"
  shows "\<exists>r. oget (db_nodes db) (i, node) = Some r \<and> ns_status r = JStr ''waiting''"
    "db_queue db' = db_queue db @ [\<lparr>q_exec = i, q_graph = er_graph (the (oget (db_execs db) i)), q_override = []\<rparr>]"
  using assms by (auto simp: respond_def enqueue_def find_exec_def split: option.splits if_splits)

lemma respond_row:
  assumes "respond now u i node body db = (Inr v, db')" "i \<noteq> []" "node \<noteq> []"
  shows "\<exists>r. oget (db_nodes db') (i, node) = Some r \<and> ns_status r = JStr ''success'' \<and> ns_output r = respond_output body now"
  using assms
  by (auto simp: respond_def enqueue_def upsertNodeState_def ns_merge_def ns_insert_def Let_def partial0_def
      or_null_def js_nullish_def coalesce_def respond_output_def split: option.splits if_splits)

lemma respond_again:
  assumes "respond now u i node body db = (Inr v, db')" "i \<noteq> []" "node \<noteq> []"
  shows "\<exists>e. respond now' u' i node body' db' = (Inl e, db')"
proof -
  obtain r where r: "oget (db_nodes db') (i, node) = Some r" "ns_status r = JStr ''success''"
    using respond_row [OF assms] by blast
  then show ?thesis by (auto simp: respond_def split: option.splits)
qed

end
