(* ===== verification/Worker.thy ===== *)
theory Worker
  imports ExecApi Executor
begin

text \<open>
  \<open>backend/src/worker.js\<close>: one queue job.  The run itself (\<open>executeDag\<close> or \<open>executeBatch\<close>) is a
  parameter that says what the promise the worker races against the workflow timer does; so are
  the graph row, the configuration map, the memory preload and the tracer's ids.  Modelled are
  the resume detection, the choice between a single and a batch run, the data injected into the
  context, the redaction before it is stored, and the transitions of the execution row with both
  rescue paths.  Not modelled: process wiring, logging, spans, the broadcast of events.
\<close>

datatype run_request =
    Single "(string \<times> js) list" "(string \<times> outcome) list" "(string \<times> js) list"
  | Many "js list"

record worker_in =
  k_now :: js
  k_env :: environ
  k_graph :: "workflow js_result"
  k_config :: js
  k_configEnv :: js
  k_memory :: js
  k_ancestors :: js
  k_otel :: "js option"
  k_run :: "workflow \<Rightarrow> run_request \<Rightarrow> (string \<times> js) race_event list"

definition user_context :: "js \<Rightarrow> js \<Rightarrow> js" where
  "user_context inputs ctx =
     (if truthy inputs \<and> (is_array inputs \<or> js_entries inputs \<noteq> []) then inputs else js_or ctx (JObj []))"

definition batch_items :: "js \<Rightarrow> js list option" where
  "batch_items uc =
     (case uc of JArr vs \<Rightarrow> Some vs
      | _ \<Rightarrow> (case js_get uc ''items'' of JArr vs \<Rightarrow> Some vs | _ \<Rightarrow> None))"

definition base_data :: "js \<Rightarrow> (string \<times> js) list" where
  "base_data uc = (if batch_items uc \<noteq> None then [] else if is_objlike uc then js_entries uc else [])"

definition initial_data :: "worker_in \<Rightarrow> workflow \<Rightarrow> string \<Rightarrow> exec_row \<Rightarrow> js \<Rightarrow> (string \<times> js) list" where
  "initial_data k wfl eid row uc =
     foldl (\<lambda>m (key, v). oset key v m) (base_data uc)
       [(''config'', k_config k), (''env'', k_configEnv k),
        (''memory'', if er_workspace row \<noteq> [] then k_memory k else JObj []),
        (''execution'', JObj [(''id'', JStr eid), (''graphId'', JStr (er_graph row)),
            (''workspaceId'', if er_workspace row = [] then JNull else JStr (er_workspace row)),
            (''projectId'', if er_project row = [] then JNull else JStr (er_project row))]),
        (''_parsed'', JObj [(''maxTokens'', w_maxTokens wfl), (''maxIterations'', w_maxIterations wfl)]),
        (''_tokens'', JNum 0), (''_fireCount'', JNum 0),
        (''_ancestors'', case k_ancestors k of JArr vs \<Rightarrow> JArr vs | _ \<Rightarrow> JArr [])]"

text \<open>The keys \<open>redact\<close> strips before the context is stored.\<close>

definition redacted_keys :: "string list" where
  "redacted_keys = [''config'', ''env'', ''memory'', ''execution'', ''_ancestors'', ''_parsed'', ''_tokens'', ''_fireCount'']"

definition redact :: "js \<Rightarrow> js" where
  "redact ctx = (if is_objlike ctx then JObj (filter (\<lambda>kv. fst kv \<notin> set redacted_keys) (js_entries ctx)) else ctx)"

definition redact_item :: "js \<Rightarrow> js" where
  "redact_item it = JObj (oset ''ctx'' (redact (js_get it ''ctx'')) (js_entries it))"

definition final_context :: "worker_in \<Rightarrow> bool \<Rightarrow> js \<Rightarrow> js" where
  "final_context k isBatch result =
     (let c = (if isBatch
               then [(''batch'', JBool True),
                     (''items'', JArr (map redact_item (case result of JArr its \<Rightarrow> its | _ \<Rightarrow> [])))]
               else js_entries (redact result))
      in JObj (case k_otel k of None \<Rightarrow> c | Some t \<Rightarrow> oset ''_otel'' t c))"

definition decode_outcome :: "js \<Rightarrow> outcome" where
  "decode_outcome v =
     \<lparr>o_status = js_str_field v ''status'', o_output = js_get v ''output'', o_error = js_get v ''error'',
      o_reason = js_get v ''reason'', o_started = js_get v ''startedAt'',
      o_finished = js_get v ''finishedAt'', o_attempts = js_get v ''attempts''\<rparr>"

definition initial_states :: "string \<Rightarrow> ns_table \<Rightarrow> (string \<times> outcome) list" where
  "initial_states eid t = map (\<lambda>e. (fst e, decode_outcome (snd e))) (loadNodeStates eid t)"

section \<open>The execution row\<close>

definition claim_row :: "js \<Rightarrow> exec_row \<Rightarrow> exec_row" where
  "claim_row now r = r\<lparr>er_status := ''running'', er_started := coalesce (er_started r) now\<rparr>"

definition fail_row :: "js \<Rightarrow> js_error \<Rightarrow> exec_row \<Rightarrow> exec_row" where
  "fail_row now e r = r\<lparr>er_status := ''failed'', er_finished := now, er_error := JStr (e_message e)\<rparr>"

definition done_row :: "js \<Rightarrow> string \<Rightarrow> js \<Rightarrow> exec_row \<Rightarrow> exec_row" where
  "done_row now st ctx r = r\<lparr>er_status := st, er_finished := now, er_context := ctx\<rparr>"

text \<open>The outer rescue only touches a row that has not reached a final status.\<close>

definition rescue_row :: "js \<Rightarrow> js_error \<Rightarrow> exec_row \<Rightarrow> exec_row" where
  "rescue_row now e r =
     (if er_status r \<in> set [''success'', ''partial'', ''waiting'', ''failed''] then r else fail_row now e r)"

definition set_row :: "string \<Rightarrow> (exec_row \<Rightarrow> exec_row) \<Rightarrow> exec_db \<Rightarrow> exec_db" where
  "set_row i f db = db\<lparr>db_execs := update_row i f (db_execs db)\<rparr>"

section \<open>Processing a job\<close>

definition run_outcome :: "worker_in \<Rightarrow> workflow \<Rightarrow> run_request \<Rightarrow> (string \<times> js) js_result option" where
  "run_outcome k wfl req =
     (let t = resolveWorkflowTimeoutMs (k_env k) (w_timeout wfl)
      in withTimeout t (workflow_timeout_error (case t of Some r \<Rightarrow> r | None \<Rightarrow> 0)) (k_run k wfl req))"

definition blank_row :: exec_row where
  "blank_row = \<lparr>er_status = [], er_finished = JNull, er_error = JNull, er_started = JNull, er_inputs = JNull,
     er_context = JNull, er_graph = [], er_workspace = [], er_project = []\<rparr>"

text \<open>None: the run has not settled, the worker is still awaiting it.\<close>

definition processExecutionBody :: "worker_in \<Rightarrow> queue_job \<Rightarrow> exec_db \<Rightarrow> string js_result option \<times> exec_db" where
  "processExecutionBody k job db =
     (let eid = q_exec job;
          states = initial_states eid (db_nodes db);
          db1 = set_row eid (claim_row (k_now k)) db
      in case k_graph k of
           Inl e \<Rightarrow> (Some (Inl e), db1)
         | Inr wfl \<Rightarrow>
             (let row = (case oget (db_execs db1) eid of Some r \<Rightarrow> r | None \<Rightarrow> blank_row);
                  uc = user_context (er_inputs row) (er_context row);
                  req = (case batch_items uc of
                           Some vs \<Rightarrow> Many vs
                         | None \<Rightarrow> Single (initial_data k wfl eid row uc) states (q_override job))
              in case run_outcome k wfl req of
                   None \<Rightarrow> (None, db1)
                 | Some (Inl e) \<Rightarrow> (Some (Inl e), set_row eid (fail_row (k_now k) e) db1)
                 | Some (Inr (st, result)) \<Rightarrow>
                     (Some (Inr st),
                      set_row eid (done_row (k_now k) st (final_context k (batch_items uc \<noteq> None) result)) db1)))"

definition processExecution :: "worker_in \<Rightarrow> queue_job \<Rightarrow> exec_db \<Rightarrow> string js_result option \<times> exec_db" where
  "processExecution k job db =
     (case processExecutionBody k job db of
        (Some (Inl e), db1) \<Rightarrow>
          (Some (Inl e), if q_exec job \<noteq> [] then set_row (q_exec job) (rescue_row (k_now k) e) db1 else db1)
      | other \<Rightarrow> other)"

section \<open>Lemmas\<close>

lemma oget_set_row [simp]:
  "oget (db_execs (set_row i f db)) i' = (if i' = i then map_option f (oget (db_execs db) i) else oget (db_execs db) i')"
  by (simp add: set_row_def)

lemma set_row_nodes [simp]: "db_nodes (set_row i f db) = db_nodes db"
  by (simp add: set_row_def)

definition final_status :: "string \<Rightarrow> bool" where
  "final_status st = (st \<in> set [''success'', ''partial'', ''waiting'', ''failed''])"

lemma processExecution_final:
  assumes p: "processExecution k job db = (Some r, db')" and row: "oget (db_execs db) (q_exec job) = Some row"
    and id: "q_exec job \<noteq> []"
    and runs: "\<And>wfl req st v. run_outcome k wfl req = Some (Inr (st, v)) \<Longrightarrow> final_status st"
  shows "\<exists>row'. oget (db_execs db') (q_exec job) = Some row' \<and> final_status (er_status row')"
  using p row id runs
  by (auto simp: processExecution_def processExecutionBody_def Let_def rescue_row_def fail_row_def done_row_def
      claim_row_def final_status_def split: sum.splits option.splits prod.splits if_splits)

lemma redact_keys: "is_objlike ctx \<Longrightarrow> k \<in> set redacted_keys \<Longrightarrow> js_get (redact ctx) k = JUndef"
proof -
  assume o1: "is_objlike ctx" and k: "k \<in> set redacted_keys"
  have "oget (filter (\<lambda>kv. fst kv \<notin> set redacted_keys) (js_entries ctx)) k = None"
    using k by (auto simp: map_of_eq_None_iff)
  then show ?thesis using o1 by (simp add: redact_def)
qed

lemma redact_keeps: "k \<notin> set redacted_keys \<Longrightarrow> oget (filter (\<lambda>kv. fst kv \<notin> set redacted_keys) kvs) k = oget kvs k"
  by (induction kvs) auto

lemma final_context_redacted:
  assumes "is_objlike ctx" "k \<in> set redacted_keys"
  shows "js_get (final_context w False ctx) k = JUndef"
proof -
  have "k \<noteq> ''_otel''" using assms(2) by (auto simp: redacted_keys_def)
  have "js_entries (redact ctx) = filter (\<lambda>kv. fst kv \<notin> set redacted_keys) (js_entries ctx)"
    using assms(1) by (simp add: redact_def)
  moreover have "oget (filter (\<lambda>kv. fst kv \<notin> set redacted_keys) (js_entries ctx)) k = None"
    using assms(2) by (auto simp: map_of_eq_None_iff)
  ultimately show ?thesis using \<open>k \<noteq> ''_otel''\<close> by (simp add: final_context_def Let_def split: option.splits)
qed

lemma initial_states_mem:
  assumes "oget t (eid, node) = Some r" "distinct (okeys t)"
  shows "oget (initial_states eid t) node = Some (decode_outcome (loaded r))"
  using assms
proof (induction t)
  case (Cons e t)
  obtain i n x where e: "e = ((i, n), x)" by (cases e) auto
  show ?case
  proof (cases "(i, n) = (eid, node)")
    case True
    then show ?thesis using Cons.prems by (simp add: e initial_states_def loadNodeStates_def)
  next
    case False
    then have "oget t (eid, node) = Some r" using Cons.prems by (auto simp: e)
    from Cons.IH [OF this] Cons.prems(2) False show ?thesis
      by (auto simp: e initial_states_def loadNodeStates_def)
  qed
qed simp

lemma decode_loaded:
  "ns_status r = JStr st \<Longrightarrow> decode_outcome (loaded r) =
    \<lparr>o_status = st, o_output = ns_output r, o_error = ns_error r, o_reason = ns_reason r,
     o_started = ns_started r, o_finished = ns_finished r, o_attempts = ns_attempts r\<rparr>"
  by (simp add: decode_outcome_def loaded_def js_str_field_def)

lemma initial_states_distinct: "distinct (okeys t) \<Longrightarrow> distinct (map fst (initial_states eid t))"
proof (induction t)
  case (Cons e t)
  obtain i n x where e: "e = ((i, n), x)" by (cases e) auto
  have "n \<notin> set (map fst (initial_states eid t)) \<or> i \<noteq> eid"
    using Cons.prems by (auto simp: e initial_states_def loadNodeStates_def image_iff)
  then show ?case using Cons by (auto simp: e initial_states_def loadNodeStates_def)
qed (simp add: initial_states_def loadNodeStates_def)

end
