(* ===== verification/MemoryStore.thy ===== *)
theory MemoryStore
  imports Errors "HOL-Library.Multiset"
begin

text \<open>
  \<open>backend/src/engine/memoryStore.js\<close>: the table \<open>memories\<close>, split by its two partial unique
  indexes.  A key-value row is identified by scope, scope id (a null id is the sentinel UUID),
  namespace and key; the workspace is a column the reads filter on, not part of the identity.
  History rows carry a sequence number.
\<close>

record kv_row =
  kv_value :: js
  kv_ws :: string
  kv_proj :: string

record turn_row =
  tr_scope :: string
  tr_scope_id :: string
  tr_key :: string
  tr_seq :: nat
  tr_value :: js
  tr_ws :: string
  tr_proj :: string

type_synonym kv_key = "string \<times> string \<times> string \<times> string"

record memories =
  mem_kv :: "(kv_key, kv_row) omap"
  mem_turns :: "turn_row list"

definition sentinel_uuid :: string where
  "sentinel_uuid = ''00000000-0000-0000-0000-000000000000''"

definition scope_key :: "string \<Rightarrow> string" where
  "scope_key scopeId = (if scopeId = [] then sentinel_uuid else scopeId)"

definition kv_key :: "string \<Rightarrow> string \<Rightarrow> string \<Rightarrow> string \<Rightarrow> kv_key" where
  "kv_key scope scopeId ns key = (scope, scope_key scopeId, ns, key)"

definition no_workspace :: js_error where
  "no_workspace = plain_error ''memoryStore: workspaceId is required''"

text \<open>\<open>defaults ws\<close> is the id of the workspace's default project, if it has one.\<close>

definition resolveProjectId :: "(string \<Rightarrow> string option) \<Rightarrow> string \<Rightarrow> string \<Rightarrow> string js_result" where
  "resolveProjectId defaults ws proj =
     (if proj \<noteq> [] then Inr proj
      else case defaults ws of
             Some p \<Rightarrow> Inr p
           | None \<Rightarrow> Inl (plain_error (''memoryStore: workspace '' @ ws @ '' has no default project'')))"

section \<open>Key-value rows\<close>

definition getKv :: "string \<Rightarrow> kv_key \<Rightarrow> memories \<Rightarrow> js js_result" where
  "getKv ws k m =
     (if ws = [] then Inl no_workspace
      else Inr (case oget (mem_kv m) k of
                  Some r \<Rightarrow> if kv_ws r = ws then js_nullish (kv_value r) JNull else JNull
                | None \<Rightarrow> JNull))"

definition kv_insert :: "js \<times> string \<times> string \<Rightarrow> kv_row" where
  "kv_insert p = \<lparr>kv_value = fst p, kv_ws = fst (snd p), kv_proj = snd (snd p)\<rparr>"

definition kv_update :: "js \<times> string \<times> string \<Rightarrow> kv_row \<Rightarrow> kv_row" where
  "kv_update p r = r\<lparr>kv_value := fst p\<rparr>"

definition setKv :: "(string \<Rightarrow> string option) \<Rightarrow> string \<Rightarrow> string \<Rightarrow> kv_key \<Rightarrow> js \<Rightarrow> memories \<Rightarrow> unit js_result \<times> memories" where
  "setKv defaults ws proj k v m =
     (if ws = [] then (Inl no_workspace, m)
      else case resolveProjectId defaults ws proj of
             Inl e \<Rightarrow> (Inl e, m)
           | Inr p \<Rightarrow> (Inr (), m\<lparr>mem_kv := upsert kv_insert kv_update k (v, ws, p) (mem_kv m)\<rparr>))"

definition appendKv :: "(string \<Rightarrow> string option) \<Rightarrow> string \<Rightarrow> kv_key \<Rightarrow> js \<Rightarrow> memories \<Rightarrow> nat js_result \<times> memories" where
  "appendKv defaults ws k item m =
     (case getKv ws k m of
        Inl e \<Rightarrow> (Inl e, m)
      | Inr cur \<Rightarrow>
          (let nxt = (case cur of JArr vs \<Rightarrow> vs @ [item] | _ \<Rightarrow> [item]) in
           case setKv defaults ws [] k (JArr nxt) m of
             (Inl e, m') \<Rightarrow> (Inl e, m')
           | (Inr _, m') \<Rightarrow> (Inr (length nxt), m')))"

definition deleteKv :: "string \<Rightarrow> kv_key \<Rightarrow> memories \<Rightarrow> bool js_result \<times> memories" where
  "deleteKv ws k m =
     (if ws = [] then (Inl no_workspace, m)
      else case oget (mem_kv m) k of
             Some r \<Rightarrow> if kv_ws r = ws then (Inr True, m\<lparr>mem_kv := odel k (mem_kv m)\<rparr>) else (Inr False, m)
           | None \<Rightarrow> (Inr False, m))"

definition loadKvForScope :: "string \<Rightarrow> string \<Rightarrow> string \<Rightarrow> string \<Rightarrow> memories \<Rightarrow> ((string \<times> js) list) js_result" where
  "loadKvForScope ws scope scopeId ns m =
     (if ws = [] then Inl no_workspace
      else Inr (foldl (\<lambda>out (k, r). oset (snd (snd (snd k))) (kv_value r) out) []
        (filter (\<lambda>(k, r). kv_ws r = ws \<and> fst k = scope \<and> fst (snd k) = scope_key scopeId \<and> fst (snd (snd k)) = ns)
           (mem_kv m))))"

section \<open>Conversation history\<close>

definition same_conv :: "string \<Rightarrow> string \<Rightarrow> string \<Rightarrow> turn_row \<Rightarrow> bool" where
  "same_conv scope scopeId conv r =
     (tr_scope r = scope \<and> scope_key (tr_scope_id r) = scope_key scopeId \<and> tr_key r = conv)"

definition conv_turns :: "string \<Rightarrow> string \<Rightarrow> string \<Rightarrow> string \<Rightarrow> memories \<Rightarrow> turn_row list" where
  "conv_turns ws scope scopeId conv m = filter (\<lambda>r. tr_ws r = ws \<and> same_conv scope scopeId conv r) (mem_turns m)"

definition max_seq :: "turn_row list \<Rightarrow> nat" where
  "max_seq rs = foldr max (map tr_seq rs) 0"

definition unique_violation :: js_error where
  "unique_violation = (plain_error ''duplicate key value violates unique constraint'')\<lparr>e_code := Some ''23505''\<rparr>"

text \<open>
  One INSERT ... SELECT.  Within one statement sequence the retry re-reads the same rows, so a
  collision (only a row of another workspace can cause one) is final.
\<close>

definition insert_turn :: "string \<Rightarrow> string \<Rightarrow> string \<Rightarrow> string \<Rightarrow> string \<Rightarrow> js \<Rightarrow> memories \<Rightarrow> unit js_result \<times> memories" where
  "insert_turn ws proj scope scopeId conv v m =
     (let s = max_seq (conv_turns ws scope scopeId conv m) + 1 in
      if list_ex (\<lambda>r. same_conv scope scopeId conv r \<and> tr_seq r = s) (mem_turns m)
      then (Inl unique_violation, m)
      else (Inr (), m\<lparr>mem_turns := mem_turns m @
              [\<lparr>tr_scope = scope, tr_scope_id = scopeId, tr_key = conv, tr_seq = s, tr_value = v, tr_ws = ws, tr_proj = proj\<rparr>]\<rparr>))"

fun append_attempts :: "nat \<Rightarrow> string \<Rightarrow> string \<Rightarrow> string \<Rightarrow> string \<Rightarrow> string \<Rightarrow> js \<Rightarrow> memories \<Rightarrow> unit js_result \<times> memories" where
  "append_attempts 0 ws proj scope scopeId conv v m = insert_turn ws proj scope scopeId conv v m"
| "append_attempts (Suc k) ws proj scope scopeId conv v m =
     (case insert_turn ws proj scope scopeId conv v m of
        (Inl e, m') \<Rightarrow> if e_code e \<noteq> Some ''23505'' then (Inl e, m')
                       else append_attempts k ws proj scope scopeId conv v m'
      | ok \<Rightarrow> ok)"

definition turn_value :: "string \<Rightarrow> js \<Rightarrow> js" where
  "turn_value role content = JObj [(''role'', JStr role), (''content'', content)]"

definition appendHistory ::
  "(string \<Rightarrow> string option) \<Rightarrow> string \<Rightarrow> string \<Rightarrow> string \<Rightarrow> string \<Rightarrow> string \<Rightarrow> string \<Rightarrow> js \<Rightarrow> memories \<Rightarrow> unit js_result \<times> memories" where
  "appendHistory defaults ws proj scope scopeId conv role content m =
     (if ws = [] then (Inl no_workspace, m)
      else case resolveProjectId defaults ws proj of
             Inl e \<Rightarrow> (Inl e, m)
           | Inr p \<Rightarrow> append_attempts 1 ws p scope scopeId conv (turn_value role content) m)"

definition safe_limit :: "js \<Rightarrow> nat" where
  "safe_limit limit = (case parse_int (js_string limit) of Some n \<Rightarrow> nat (max 0 (min n 200)) | None \<Rightarrow> 0)"

text \<open>\<open>ORDER BY seq DESC LIMIT n\<close>, then \<open>ORDER BY seq ASC\<close>.\<close>

definition loadHistory :: "string \<Rightarrow> string \<Rightarrow> string \<Rightarrow> string \<Rightarrow> js \<Rightarrow> memories \<Rightarrow> (js list) js_result" where
  "loadHistory ws scope scopeId conv limit m =
     (if ws = [] then Inl no_workspace
      else if safe_limit limit = 0 then Inr []
      else (let recent = take (safe_limit limit) (rev (sort_key tr_seq (conv_turns ws scope scopeId conv m)))
            in Inr (map tr_value (sort_key tr_seq recent))))"

definition clearHistory :: "string \<Rightarrow> string \<Rightarrow> string \<Rightarrow> string \<Rightarrow> memories \<Rightarrow> nat js_result \<times> memories" where
  "clearHistory ws scope scopeId conv m =
     (if ws = [] then (Inl no_workspace, m)
      else (Inr (length (conv_turns ws scope scopeId conv m)),
            m\<lparr>mem_turns := filter (\<lambda>r. \<not> (tr_ws r = ws \<and> same_conv scope scopeId conv r)) (mem_turns m)\<rparr>))"

section \<open>Key-value facts\<close>

interpretation kv: upsert_table map_of "upsert kv_insert kv_update" kv_insert kv_update
  by unfold_locales simp

text \<open>The row of the key is free or the caller's own.\<close>

definition own_key :: "string \<Rightarrow> kv_key \<Rightarrow> memories \<Rightarrow> bool" where
  "own_key ws k m = (case oget (mem_kv m) k of None \<Rightarrow> True | Some r \<Rightarrow> kv_ws r = ws)"

lemma get_after_set:
  "own_key ws k m \<Longrightarrow> setKv defaults ws proj k v m = (Inr (), m') \<Longrightarrow> \<not> nullish v \<Longrightarrow> getKv ws k m' = Inr v"
proof -
  assume o1: "own_key ws k m" and s: "setKv defaults ws proj k v m = (Inr (), m')" and v: "\<not> nullish v"
  obtain p where m': "m' = m\<lparr>mem_kv := upsert kv_insert kv_update k (v, ws, p) (mem_kv m)\<rparr>" and ws: "ws \<noteq> []"
    using s by (auto simp: setKv_def split: if_splits sum.splits)
  show ?thesis
    using o1 v ws unfolding m'
    by (cases "oget (mem_kv m) k") (simp_all add: getKv_def own_key_def kv_insert_def kv_update_def js_nullish_def)
qed

lemma get_other_after_set:
  "k' \<noteq> k \<Longrightarrow> setKv defaults ws proj k v m = (r, m') \<Longrightarrow> getKv ws' k' m' = getKv ws' k' m"
  by (auto simp: setKv_def getKv_def split: if_splits sum.splits option.splits)

lemma append_after:
  assumes "own_key ws k m" "appendKv defaults ws k item m = (Inr n, m')"
  shows "\<exists>vs. getKv ws k m' = Inr (JArr (vs @ [item])) \<and> n = length vs + 1 \<and>
     (\<forall>us. getKv ws k m = Inr (JArr us) \<longrightarrow> vs = us)"
proof -
  obtain cur where cur: "getKv ws k m = Inr cur" using assms(2) by (auto simp: appendKv_def split: sum.splits)
  define nxt where "nxt = (case cur of JArr vs \<Rightarrow> vs @ [item] | _ \<Rightarrow> [item])"
  obtain vs where vs: "nxt = vs @ [item]" "\<forall>us. cur = JArr us \<longrightarrow> vs = us"
    unfolding nxt_def by (cases cur) auto
  have s: "setKv defaults ws [] k (JArr nxt) m = (Inr (), m')" "n = length nxt"
    using assms(2) cur by (auto simp: appendKv_def nxt_def Let_def split: prod.splits sum.splits)
  have "getKv ws k m' = Inr (JArr nxt)" by (rule get_after_set [OF assms(1) s(1)]) simp
  then show ?thesis using vs s(2) cur by auto
qed

text \<open>A write under a key that another workspace owns replaces that workspace's value.\<close>

lemma foreign_overwrite:
  assumes "oget (mem_kv m) k = Some r" "kv_ws r = other" "other \<noteq> ws" "other \<noteq> []"
    and "setKv defaults ws proj k v m = (Inr (), m')" "\<not> nullish v"
  shows "getKv other k m' = Inr v" "getKv ws k m' = Inr JNull"
  using assms by (auto simp: setKv_def getKv_def kv_update_def js_nullish_def split: if_splits sum.splits)

section \<open>History facts\<close>

definition hist_ok :: "string \<Rightarrow> string \<Rightarrow> string \<Rightarrow> string \<Rightarrow> memories \<Rightarrow> bool" where
  "hist_ok ws scope scopeId conv m =
     (map tr_seq (conv_turns ws scope scopeId conv m) = [1 ..< Suc (length (conv_turns ws scope scopeId conv m))] \<and>
      (\<forall>r \<in> set (mem_turns m). same_conv scope scopeId conv r \<longrightarrow> tr_ws r = ws))"

lemma foldr_max_upt: "foldr max [1 ..< Suc n] 0 = n"
proof (induction n)
  case (Suc n)
  have "foldr max [1 ..< Suc n] a = max n a" for a
  proof -
    have g: "foldr max xs a = max (foldr max xs 0) a" for xs and a :: nat by (induction xs) auto
    show ?thesis using g [of "[1 ..< Suc n]" a] Suc by simp
  qed
  then show ?case by simp
qed simp

lemma insert_turn_ok:
  assumes h: "hist_ok ws scope scopeId conv m"
  shows "\<exists>m' r. insert_turn ws proj scope scopeId conv v m = (Inr (), m') \<and> hist_ok ws scope scopeId conv m' \<and>
     conv_turns ws scope scopeId conv m' = conv_turns ws scope scopeId conv m @ [r] \<and> tr_value r = v"
proof -
  let ?ct = "conv_turns ws scope scopeId conv m"
  have mx: "max_seq ?ct = length ?ct"
    using h foldr_max_upt [of "length ?ct"] by (simp add: hist_ok_def max_seq_def)
  let ?r = "\<lparr>tr_scope = scope, tr_scope_id = scopeId, tr_key = conv, tr_seq = length ?ct + 1, tr_value = v, tr_ws = ws, tr_proj = proj\<rparr>"
  have free: "\<not> list_ex (\<lambda>r. same_conv scope scopeId conv r \<and> tr_seq r = length ?ct + 1) (mem_turns m)"
  proof
    assume "list_ex (\<lambda>r. same_conv scope scopeId conv r \<and> tr_seq r = length ?ct + 1) (mem_turns m)"
    then obtain r where r: "r \<in> set (mem_turns m)" "same_conv scope scopeId conv r" "tr_seq r = length ?ct + 1"
      by (auto simp: list_ex_iff)
    then have "tr_ws r = ws" using h by (auto simp: hist_ok_def)
    then have "r \<in> set ?ct" using r by (simp add: conv_turns_def)
    then have "tr_seq r \<in> set (map tr_seq ?ct)" by simp
    then have "tr_seq r \<in> set [1 ..< Suc (length ?ct)]" using h by (metis hist_ok_def)
    then show False using r(3) by simp
  qed
  let ?m = "m\<lparr>mem_turns := mem_turns m @ [?r]\<rparr>"
  have ct: "conv_turns ws scope scopeId conv ?m = ?ct @ [?r]" by (simp add: conv_turns_def same_conv_def)
  have "insert_turn ws proj scope scopeId conv v m = (Inr (), ?m)"
    using free mx by (simp add: insert_turn_def Let_def)
  moreover have "hist_ok ws scope scopeId conv ?m" using h ct by (auto simp: hist_ok_def)
  ultimately show ?thesis using ct by (intro exI [of _ ?m] exI [of _ ?r]) simp
qed

lemma append_history_ok:
  assumes h: "hist_ok ws scope scopeId conv m" and ws: "ws \<noteq> []" and p: "resolveProjectId defaults ws proj = Inr p"
  shows "\<exists>m' r. appendHistory defaults ws proj scope scopeId conv role content m = (Inr (), m') \<and>
     hist_ok ws scope scopeId conv m' \<and>
     conv_turns ws scope scopeId conv m' = conv_turns ws scope scopeId conv m @ [r] \<and> tr_value r = turn_value role content"
  using insert_turn_ok [OF h, of p "turn_value role content"] ws p
  by (auto simp: appendHistory_def)

lemma sort_key_seq: "map tr_seq rs = [a ..< b] \<Longrightarrow> sort_key tr_seq rs = rs"
  by (intro sort_key_id_if_sorted) simp

lemma take_rev_suffix: "take n (rev xs) = rev (drop (length xs - n) xs)"
  by (simp add: take_rev)

lemma sort_key_rev_upt: "map tr_seq rs = [a ..< b] \<Longrightarrow> sort_key tr_seq (rev rs) = rs"
  by (rule sort_key_strict) simp_all

text \<open>The most recent turns, oldest first.\<close>

lemma load_history_ok:
  assumes h: "hist_ok ws scope scopeId conv m" and ws: "ws \<noteq> []"
  shows "loadHistory ws scope scopeId conv limit m =
     Inr (map tr_value (drop (length (conv_turns ws scope scopeId conv m) - safe_limit limit) (conv_turns ws scope scopeId conv m)))"
proof -
  let ?ct = "conv_turns ws scope scopeId conv m"
  have m: "map tr_seq ?ct = [1 ..< Suc (length ?ct)]" using h by (simp add: hist_ok_def)
  have "map tr_seq (drop k ?ct) = [1 + k ..< Suc (length ?ct)]" for k
    using m by (metis drop_map drop_upt)
  then have "sort_key tr_seq (rev (drop k ?ct)) = drop k ?ct" for k by (rule sort_key_rev_upt)
  then show ?thesis
    using ws by (simp add: loadHistory_def Let_def sort_key_seq [OF m] take_rev_suffix)
qed

end
