(* ===== verification/Tags.thy ===== *)
theory Tags
  imports JsString
begin

text \<open>
  \<open>backend/src/utils/tags.js\<close>: every tag list that reaches the executions table goes through
  \<open>normalizeTags\<close>.  The lemmas show the normal form: trimmed, lower-case, non-empty, distinct,
  within the two caps, and a fixed point of the function.
\<close>

definition MAX_TAG_LEN :: nat where "MAX_TAG_LEN = 64"
definition MAX_TAG_COUNT :: nat where "MAX_TAG_COUNT = 32"

text \<open>The loop over the raw entries, with the output so far (the set \<open>seen\<close> is its elements).\<close>

fun tag_loop :: "js list \<Rightarrow> string list \<Rightarrow> string list" where
  "tag_loop [] out = out"
| "tag_loop (raw # rest) out =
     (case raw of
        JStr s \<Rightarrow>
          (let t = lower_str (trim s) in
           if t = [] \<or> MAX_TAG_LEN < length t then tag_loop rest out
           else if t \<in> set out then tag_loop rest out
           else let out' = out @ [t] in
             if MAX_TAG_COUNT \<le> length out' then out' else tag_loop rest out')
      | _ \<Rightarrow> tag_loop rest out)"

definition normalizeTags :: "js \<Rightarrow> string list" where
  "normalizeTags v =
     (case v of
        JArr xs \<Rightarrow> tag_loop xs []
      | JStr s \<Rightarrow> tag_loop (map JStr (split_str '','' s)) []
      | _ \<Rightarrow> [])"

text \<open>A clean tag: what a stored tag looks like.\<close>

definition clean_tag :: "string \<Rightarrow> bool" where
  "clean_tag t = (t \<noteq> [] \<and> length t \<le> MAX_TAG_LEN \<and> lower_str (trim t) = t)"

definition clean_tags :: "string list \<Rightarrow> bool" where
  "clean_tags ts = (distinct ts \<and> (\<forall>t \<in> set ts. clean_tag t) \<and> length ts \<le> MAX_TAG_COUNT)"

lemma is_space_to_lower [simp]: "is_space (to_lower c) = is_space c"
proof -
  have "(of_char c :: nat) < 256" by simp
  then show ?thesis by (auto simp: is_space_def to_lower_def Let_def)
qed

lemma dropWhile_lower: "dropWhile is_space (lower_str s) = lower_str (dropWhile is_space s)"
  by (simp add: lower_str_def dropWhile_map comp_def)

lemma trim_lower: "trim (lower_str s) = lower_str (trim s)"
proof -
  have "rev (lower_str s) = lower_str (rev s)" for s by (simp add: lower_str_def rev_map)
  then show ?thesis by (simp add: trim_def dropWhile_lower)
qed

lemma clean_tag_normal: "lower_str (trim s) \<noteq> [] \<Longrightarrow> length (lower_str (trim s)) \<le> MAX_TAG_LEN \<Longrightarrow>
  clean_tag (lower_str (trim s))"
  by (simp add: clean_tag_def trim_lower)

lemma tag_loop_clean:
  "clean_tags out \<Longrightarrow> length out < MAX_TAG_COUNT \<Longrightarrow> clean_tags (tag_loop raws out)"
proof (induction raws arbitrary: out)
  case Nil
  then show ?case by simp
next
  case (Cons raw raws)
  show ?case
  proof (cases raw)
    case (JStr s)
    let ?t = "lower_str (trim s)"
    have "clean_tags (out @ [?t])" if "?t \<noteq> []" "length ?t \<le> MAX_TAG_LEN" "?t \<notin> set out"
      using that Cons.prems clean_tag_normal [OF that(1,2)] by (auto simp: clean_tags_def)
    then show ?thesis using Cons JStr by (auto simp: Let_def not_less not_le)
  qed (use Cons in simp_all)
qed

lemma tag_loop_fix:
  "clean_tags (out @ ts) \<Longrightarrow> length out < MAX_TAG_COUNT \<Longrightarrow> tag_loop (map JStr ts) out = out @ ts"
proof (induction ts arbitrary: out)
  case Nil
  then show ?case by simp
next
  case (Cons t ts)
  have t: "lower_str (trim t) = t" "t \<noteq> []" "length t \<le> MAX_TAG_LEN" "t \<notin> set out"
    using Cons.prems by (auto simp: clean_tags_def clean_tag_def)
  show ?case
  proof (cases "length (out @ [t]) < MAX_TAG_COUNT")
    case True
    then show ?thesis using Cons.IH [of "out @ [t]"] Cons.prems t by (simp add: Let_def)
  next
    case False
    moreover have "length (out @ t # ts) \<le> MAX_TAG_COUNT" using Cons.prems(1) by (simp add: clean_tags_def)
    ultimately have "ts = []" by (cases ts) auto
    then show ?thesis using False t by (simp add: Let_def)
  qed
qed

lemma normalizeTags_clean: "clean_tags (normalizeTags v)"
  by (auto simp: normalizeTags_def clean_tags_def MAX_TAG_COUNT_def
      intro!: tag_loop_clean [unfolded clean_tags_def MAX_TAG_COUNT_def] split: js.splits)

lemma normalizeTags_fix: "clean_tags ts \<Longrightarrow> normalizeTags (JArr (map JStr ts)) = ts"
  using tag_loop_fix [of "[]" ts] by (simp add: normalizeTags_def MAX_TAG_COUNT_def)

end
