(* ===== verification/Tokens.thy ===== *)
theory Tokens
  imports Errors JsRegex
begin

text \<open>
  \<open>backend/src/auth/tokens.js\<close>: access claims, the signing secret, opaque refresh tokens and their
  rotation; and \<open>base64url\<close>, the printed form of the random bytes.  The hash \<open>sha\<close> and the signer
  are parameters; random bytes, identifiers and the time are arguments.  Rows are kept in the order
  they were inserted; times are milliseconds.
\<close>

section \<open>Durations and the secret\<close>

text \<open>\<open>/^(\d+)\s*(ms|s|m|h|d)?$/\<close>; unlike the engine's parser this one throws.\<close>

definition ttl_re :: regex where
  "ttl_re = rx (r_seq [RBol, RGrp 1 (r_plus r_d), r_star r_s,
     r_opt (RGrp 2 (r_alt [r_lit ''ms'', r_lit ''s'', r_lit ''m'', r_lit ''h'', r_lit ''d''])), REol])"

definition ttl_unit :: "string \<Rightarrow> nat" where
  "ttl_unit u = (if u = ''ms'' then 1 else if u = ''s'' then 1000 else if u = ''m'' then 60 * 1000
                 else if u = ''h'' then 60 * 60 * 1000 else if u = ''d'' then 24 * 60 * 60 * 1000 else 1)"

definition ttl_parse :: "string \<Rightarrow> nat js_result" where
  "ttl_parse s0 =
     (let s = trim s0 in
      case re_exec ttl_re s 0 of
        None \<Rightarrow> Inl (plain_error (''unparseable duration: '' @ s0))
      | Some (b, e, cs) \<Rightarrow>
          (let n = digits_val (case cap s cs 1 of Some d \<Rightarrow> d | None \<Rightarrow> []);
               u = (case cap s cs 2 of Some u \<Rightarrow> u | None \<Rightarrow> ''ms'')
           in Inr (n * ttl_unit u)))"

definition jwt_secret :: "string \<Rightarrow> string \<Rightarrow> string js_result" where
  "jwt_secret jwtSecret env =
     (if (jwtSecret = [] \<or> jwtSecret = ''change-me'') \<and> env = ''production''
      then Inl (plain_error ''JWT_SECRET must be set to a strong random value in production'')
      else Inr (if jwtSecret = [] then ''dev-fallback-jwt-secret'' else jwtSecret))"

record cookie_options =
  co_httpOnly :: bool
  co_sameSite :: string
  co_secure :: bool
  co_path :: string
  co_maxAge :: nat

definition refreshCookieOptions :: "string \<Rightarrow> nat \<Rightarrow> cookie_options" where
  "refreshCookieOptions env ttl =
     \<lparr>co_httpOnly = True, co_sameSite = ''lax'', co_secure = (env = ''production''), co_path = ''/'', co_maxAge = ttl\<rparr>"

section \<open>Access tokens\<close>

record claims =
  cl_sub :: string
  cl_email :: string
  cl_role :: string
  cl_ws :: string
  cl_proj :: "string option"

definition signAccessToken :: "(claims \<Rightarrow> string \<Rightarrow> string) \<Rightarrow> string \<Rightarrow> string \<Rightarrow> claims \<Rightarrow> string js_result" where
  "signAccessToken jwt_sign jwtSecret env c = res_bind (jwt_secret jwtSecret env) (\<lambda>s. Inr (jwt_sign c s))"

definition verifyAccessToken ::
  "(string \<Rightarrow> string \<Rightarrow> string + claims) \<Rightarrow> string \<Rightarrow> string \<Rightarrow> string \<Rightarrow> string + claims" where
  "verifyAccessToken jwt_verify jwtSecret env token =
     (case jwt_secret jwtSecret env of Inl _ \<Rightarrow> Inl ''Error'' | Inr s \<Rightarrow> jwt_verify token s)"

section \<open>Base64url\<close>

text \<open>\<open>buf.toString("base64")\<close> with \<open>+\<close>, \<open>/\<close> replaced and the padding stripped.\<close>

definition b64_char :: "nat \<Rightarrow> char" where
  "b64_char i = char_of (if i < 26 then 65 + i else if i < 52 then 71 + i else if i < 62 then i - 4
     else if i = 62 then 43 else 47 :: nat)"

fun base64 :: "nat list \<Rightarrow> string" where
  "base64 [] = []"
| "base64 [a] = [b64_char (a div 4), b64_char (a mod 4 * 16), CHR ''='', CHR ''='']"
| "base64 [a, b] = [b64_char (a div 4), b64_char (a mod 4 * 16 + b div 16), b64_char (b mod 16 * 4), CHR ''='']"
| "base64 (a # b # c # rest) =
     b64_char (a div 4) # b64_char (a mod 4 * 16 + b div 16) # b64_char (b mod 16 * 4 + c div 64) # b64_char (c mod 64)
     # base64 rest"

definition url_char :: "char \<Rightarrow> char" where
  "url_char c = (if c = CHR ''+'' then CHR ''-'' else if c = CHR ''/'' then CHR ''_'' else c)"

definition base64url :: "nat list \<Rightarrow> string" where
  "base64url buf = rev (dropWhile (\<lambda>c. c = CHR ''='') (rev (map url_char (base64 buf))))"

text \<open>The reader of that form (\<open>Buffer.from(s, "base64url")\<close>).\<close>

definition b64_index :: "char \<Rightarrow> nat" where
  "b64_index c = (let n = of_char c :: nat in
     if 65 \<le> n \<and> n \<le> 90 then n - 65 else if 97 \<le> n \<and> n \<le> 122 then n - 71
     else if 48 \<le> n \<and> n \<le> 57 then n + 4 else if n = 45 then 62 else 63)"

fun from_sextets :: "nat list \<Rightarrow> nat list" where
  "from_sextets (a # b # c # d # rest) =
     (a * 4 + b div 16) # (b mod 16 * 16 + c div 4) # (c mod 4 * 64 + d) # from_sextets rest"
| "from_sextets [a, b, c] = [a * 4 + b div 16, b mod 16 * 16 + c div 4]"
| "from_sextets [a, b] = [a * 4 + b div 16]"
| "from_sextets _ = []"

definition unbase64url :: "string \<Rightarrow> nat list" where
  "unbase64url s = from_sextets (map b64_index s)"

section \<open>Refresh tokens\<close>

record rt_row =
  rt_id :: string
  rt_user :: string
  rt_hash :: string
  rt_expires :: nat
  rt_revoked :: "nat option"
  rt_rotated :: "string option"

definition revoke_where :: "(rt_row \<Rightarrow> bool) \<Rightarrow> nat \<Rightarrow> rt_row list \<Rightarrow> rt_row list" where
  "revoke_where P now = map (\<lambda>r. if P r \<and> rt_revoked r = None then r\<lparr>rt_revoked := Some now\<rparr> else r)"

definition issueRefreshToken ::
  "(string \<Rightarrow> string) \<Rightarrow> nat \<Rightarrow> nat \<Rightarrow> string \<Rightarrow> string \<Rightarrow> string \<Rightarrow> string option \<Rightarrow> rt_row list \<Rightarrow> rt_row list" where
  "issueRefreshToken sha ttl now i token user pred rows =
     (let rows1 = rows @ [\<lparr>rt_id = i, rt_user = user, rt_hash = sha token, rt_expires = now + ttl,
                            rt_revoked = None, rt_rotated = None\<rparr>]
      in case pred of
           None \<Rightarrow> rows1
         | Some p \<Rightarrow> map (\<lambda>r. if rt_id r = p \<and> rt_revoked r = None
                              then r\<lparr>rt_revoked := Some now, rt_rotated := Some i\<rparr> else r) rows1)"

definition consumeRefreshToken ::
  "(string \<Rightarrow> string) \<Rightarrow> nat \<Rightarrow> string \<Rightarrow> rt_row list \<Rightarrow> (string \<times> string) option \<times> rt_row list" where
  "consumeRefreshToken sha now plaintext rows =
     (if plaintext = [] then (None, rows)
      else case find (\<lambda>r. rt_hash r = sha plaintext) rows of
        None \<Rightarrow> (None, rows)
      | Some r \<Rightarrow>
          if rt_rotated r \<noteq> None then (None, revoke_where (\<lambda>x. rt_user x = rt_user r) now rows)
          else if rt_revoked r \<noteq> None then (None, rows)
          else if rt_expires r < now then (None, rows)
          else (Some (rt_id r, rt_user r), rows))"

definition revokeRefreshToken :: "(string \<Rightarrow> string) \<Rightarrow> nat \<Rightarrow> string \<Rightarrow> rt_row list \<Rightarrow> bool \<times> rt_row list" where
  "revokeRefreshToken sha now plaintext rows =
     (if plaintext = [] then (False, rows)
      else (list_ex (\<lambda>r. rt_hash r = sha plaintext \<and> rt_revoked r = None) rows,
            revoke_where (\<lambda>r. rt_hash r = sha plaintext) now rows))"

definition revokeAllForUser :: "nat \<Rightarrow> string \<Rightarrow> rt_row list \<Rightarrow> nat \<times> rt_row list" where
  "revokeAllForUser now user rows =
     (length (filter (\<lambda>r. rt_user r = user \<and> rt_revoked r = None) rows),
      revoke_where (\<lambda>r. rt_user r = user) now rows)"

section \<open>Base64url is injective\<close>

definition bytes :: "nat list \<Rightarrow> bool" where
  "bytes bs = list_all (\<lambda>b. b < 256) bs"

definition url_alphabet :: "char \<Rightarrow> bool" where
  "url_alphabet c = (c \<in> url_char ` b64_char ` {..<64})"

lemma sextet_cases: "i < 64 \<Longrightarrow> i \<in> set [0..<64]"
  by simp

lemma index_char: "i < 64 \<Longrightarrow> b64_index (url_char (b64_char i)) = i"
proof -
  have "list_all (\<lambda>i. b64_index (url_char (b64_char i)) = i) [0..<64]" by code_simp
  then show "i < 64 \<Longrightarrow> ?thesis" by (simp add: list_all_iff)
qed

lemma char_not_pad: "i < 64 \<Longrightarrow> url_char (b64_char i) \<noteq> CHR ''=''"
proof -
  have "list_all (\<lambda>i. url_char (b64_char i) \<noteq> CHR ''='') [0..<64]" by code_simp
  then show "i < 64 \<Longrightarrow> ?thesis" by (simp add: list_all_iff)
qed

text \<open>The sextets of a byte string.\<close>

fun sextets :: "nat list \<Rightarrow> nat list" where
  "sextets [] = []"
| "sextets [a] = [a div 4, a mod 4 * 16]"
| "sextets [a, b] = [a div 4, a mod 4 * 16 + b div 16, b mod 16 * 4]"
| "sextets (a # b # c # rest) = (a div 4) # (a mod 4 * 16 + b div 16) # (b mod 16 * 4 + c div 64) # (c mod 64) # sextets rest"

lemma mod_mult_add_less: "x < m \<Longrightarrow> y < k \<Longrightarrow> x * k + y < m * (k :: nat)"
proof -
  assume "x < m" "y < k"
  then have "x * k + y < Suc x * k" by simp
  also have "\<dots> \<le> m * k" using \<open>x < m\<close> by (intro mult_le_mono1) simp
  finally show ?thesis .
qed

lemma byte_parts:
  fixes b :: nat
  assumes "b < 256"
  shows "b div 16 < 16" "b div 64 < 4" "b div 4 < 64"
  using assms by arith+

lemma unpack:
  fixes x y k :: nat
  assumes "y < k"
  shows "(x * k + y) div k = x" "(x * k + y) mod k = y"
  using assms by (simp_all only: div_mult_self3 [of k] mod_mult_self3 div_less mod_less add_0_right)

text \<open>Three bytes, cut into sextets and joined again.\<close>

lemma join_sextets:
  fixes a b c :: nat
  assumes "b < 256" "c < 256"
  shows "a div 4 * 4 + (a mod 4 * 16 + b div 16) div 16 = a"
    and "(a mod 4 * 16 + b div 16) mod 16 * 16 + (b mod 16 * 4 + c div 64) div 4 = b"
    and "(b mod 16 * 4 + c div 64) mod 4 * 64 + c mod 64 = c"
  by (simp_all only: unpack byte_parts [OF assms(1)] byte_parts [OF assms(2)] div_mult_mod_eq)

lemma sextets_less: "bytes bs \<Longrightarrow> \<forall>x \<in> set (sextets bs). x < 64"
proof (induction bs rule: sextets.induct)
  case (4 a b c rest)
  have "a mod 4 * 16 + b div 16 < 4 * 16" "b mod 16 * 4 + c div 64 < 16 * 4"
    using 4 by (intro mod_mult_add_less; simp add: bytes_def byte_parts)+
  then show ?case using 4 by (auto simp: bytes_def)
next
  case (3 a b)
  have "a mod 4 * 16 + b div 16 < 4 * 16" using 3 by (intro mod_mult_add_less) (simp_all add: bytes_def byte_parts)
  moreover have "b mod 16 * 4 + 0 < 16 * 4" by (intro mod_mult_add_less) simp_all
  ultimately show ?case using 3 by (auto simp: bytes_def)
next
  case (2 a)
  have "a mod 4 * 16 + 0 < 4 * 16" by (intro mod_mult_add_less) simp_all
  then show ?case using 2 by (auto simp: bytes_def)
qed simp

lemma from_sextets_inv: "bytes bs \<Longrightarrow> from_sextets (sextets bs) = bs"
proof (induction bs rule: sextets.induct)
  case (4 a b c rest)
  then have "b < 256" "c < 256" "from_sextets (sextets rest) = rest" by (simp_all add: bytes_def)
  then show ?case by (simp only: sextets.simps from_sextets.simps join_sextets)
next
  case (3 a b)
  then have "b < 256" by (simp add: bytes_def)
  with join_sextets(1,2) [of b 0 a] show ?case by simp
next
  case (2 a)
  show ?case using join_sextets(1) [of 0 0 a] by simp
qed simp

lemma base64_sextets: "\<exists>k. base64 bs = map b64_char (sextets bs) @ replicate k (CHR ''='')"
proof (induction bs rule: base64.induct)
  case (2 a)
  show ?case by (intro exI [of _ 2]) (simp add: numeral_2_eq_2)
next
  case (3 a b)
  show ?case by (intro exI [of _ 1]) simp
qed auto

lemma base64url_sextets:
  assumes "bytes bs"
  shows "base64url bs = map (\<lambda>i. url_char (b64_char i)) (sextets bs)"
proof -
  obtain k where k: "base64 bs = map b64_char (sextets bs) @ replicate k (CHR ''='')" using base64_sextets by blast
  have pad: "map url_char (replicate k (CHR ''='')) = replicate k (CHR ''='')" by (simp add: url_char_def)
  let ?cs = "map (\<lambda>i. url_char (b64_char i)) (sextets bs)"
  have np: "\<forall>c \<in> set (rev ?cs). c \<noteq> CHR ''=''" using sextets_less [OF assms] char_not_pad by auto
  have "dropWhile (\<lambda>c. c = CHR ''='') (replicate k (CHR ''='') @ rev ?cs) = rev ?cs"
  proof (induction k)
    case 0
    then show ?case using np by (cases "rev ?cs") auto
  qed simp
  then have "rev (dropWhile (\<lambda>c. c = CHR ''='') (rev (?cs @ replicate k (CHR ''='')))) = ?cs"
    by (simp only: rev_append rev_replicate rev_rev_ident)
  then show ?thesis unfolding base64url_def k map_append pad map_map comp_def .
qed

lemma base64url_roundtrip: "bytes bs \<Longrightarrow> unbase64url (base64url bs) = bs"
proof -
  assume b: "bytes bs"
  have "map b64_index (base64url bs) = map (\<lambda>i. i) (sextets bs)"
    unfolding base64url_sextets [OF b] map_map
    by (rule map_cong [OF refl]) (use sextets_less [OF b] index_char in auto)
  then show ?thesis by (simp add: unbase64url_def from_sextets_inv [OF b])
qed

lemma length_sextets: "length (sextets bs) = (4 * length bs + 2) div 3"
  by (induction bs rule: sextets.induct) auto

section \<open>Rotation\<close>

text \<open>A dead row stays dead, and nothing but an insertion makes a row.\<close>

definition dead_row :: "rt_row \<Rightarrow> bool" where
  "dead_row r = (rt_revoked r \<noteq> None)"

definition hash_dead :: "string \<Rightarrow> rt_row list \<Rightarrow> bool" where
  "hash_dead h rows = list_all (\<lambda>r. rt_hash r = h \<longrightarrow> dead_row r) rows"

definition user_dead :: "string \<Rightarrow> rt_row list \<Rightarrow> bool" where
  "user_dead u rows = list_all (\<lambda>r. rt_user r = u \<longrightarrow> dead_row r) rows"

lemma revoke_where_dead: "hash_dead h rows \<Longrightarrow> hash_dead h (revoke_where P now rows)"
  by (auto simp: hash_dead_def revoke_where_def dead_row_def list_all_iff)

lemma revoke_where_all: "(\<And>r. rt_user r = u \<Longrightarrow> P r) \<Longrightarrow> user_dead u (revoke_where P now rows)"
  by (auto simp: user_dead_def revoke_where_def dead_row_def list_all_iff)

lemma consume_live:
  assumes "consumeRefreshToken sha now p rows = (Some (i, u), rows')"
  shows "rows' = rows \<and> (\<exists>r \<in> set rows. rt_id r = i \<and> rt_user r = u \<and> rt_hash r = sha p \<and> rt_revoked r = None
    \<and> rt_rotated r = None \<and> now \<le> rt_expires r)"
  using assms
  by (auto simp: consumeRefreshToken_def not_less dest!: find_Some_mem split: if_splits option.splits)

lemma consume_dead: "hash_dead (sha p) rows \<Longrightarrow> fst (consumeRefreshToken sha now p rows) = None"
  by (auto simp: consumeRefreshToken_def hash_dead_def dead_row_def list_all_iff dest!: find_Some_mem split: option.splits)

lemma issue_dead:
  "hash_dead h rows \<Longrightarrow> sha token \<noteq> h \<Longrightarrow> hash_dead h (issueRefreshToken sha ttl now i token user pred rows)"
  by (auto simp: hash_dead_def issueRefreshToken_def dead_row_def list_all_iff Let_def split: option.splits)

lemma consume_keeps_dead: "hash_dead h rows \<Longrightarrow> hash_dead h (snd (consumeRefreshToken sha now p rows))"
  by (auto simp: consumeRefreshToken_def revoke_where_dead split: option.splits)

text \<open>Rotating kills the presented token.\<close>

lemma rotate_dead:
  assumes c: "consumeRefreshToken sha now p rows = (Some (i, u), rows')" and ids: "distinct (map rt_id rows)"
    and hs: "distinct (map rt_hash rows)" and fresh: "sha token \<noteq> sha p"
  shows "hash_dead (sha p) (issueRefreshToken sha ttl now j token u (Some i) rows)
    \<and> (\<exists>r \<in> set (issueRefreshToken sha ttl now j token u (Some i) rows). rt_hash r = sha p \<and> rt_rotated r = Some j)"
proof -
  obtain r where r: "r \<in> set rows" "rt_id r = i" "rt_user r = u" "rt_hash r = sha p" "rt_revoked r = None"
    using consume_live [OF c] by blast
  have one: "x = r" if "x \<in> set rows" "rt_hash x = sha p" for x
    using that r hs by (auto simp: distinct_map inj_on_def)
  show ?thesis
  proof -
    let ?f = "\<lambda>x. if rt_id x = i \<and> rt_revoked x = None then x\<lparr>rt_revoked := Some now, rt_rotated := Some j\<rparr> else x"
    let ?new = "\<lparr>rt_id = j, rt_user = u, rt_hash = sha token, rt_expires = now + ttl, rt_revoked = None, rt_rotated = None\<rparr>"
    have rows': "issueRefreshToken sha ttl now j token u (Some i) rows = map ?f (rows @ [?new])"
      by (simp only: issueRefreshToken_def Let_def option.case)
    have fr: "?f r = r\<lparr>rt_revoked := Some now, rt_rotated := Some j\<rparr>" using r by simp
    have "dead_row (?f x)" if x: "x \<in> set (rows @ [?new])" "rt_hash (?f x) = sha p" for x
    proof -
      have "rt_hash x = sha p" using x(2) by (simp split: if_splits)
      then have "x = r" using x(1) one fresh by auto
      then show ?thesis using r(2,5) by (simp add: dead_row_def)
    qed
    then have "hash_dead (sha p) (map ?f (rows @ [?new]))" by (simp only: hash_dead_def list_all_iff set_map) blast
    moreover have "?f r \<in> set (map ?f (rows @ [?new]))" using r(1) by (simp only: set_map set_append) blast
    moreover have "rt_hash (?f r) = sha p \<and> rt_rotated (?f r) = Some j" using r by simp
    ultimately show ?thesis unfolding rows' by blast
  qed
qed

lemma find_first:
  "x \<in> set rows \<Longrightarrow> P x \<Longrightarrow> (\<And>y. y \<in> set rows \<Longrightarrow> P y \<Longrightarrow> Q y) \<Longrightarrow> \<exists>y. find P rows = Some y \<and> Q y"
  by (induction rows) auto

lemma rotated_found:
  assumes c: "consumeRefreshToken sha now p rows = (Some (i, u), rows')" and ids: "distinct (map rt_id rows)"
    and hs: "distinct (map rt_hash rows)" and fresh: "sha token \<noteq> sha p"
  shows "\<exists>x. find (\<lambda>r. rt_hash r = sha p) (issueRefreshToken sha ttl now j token u (Some i) rows) = Some x
    \<and> rt_rotated x \<noteq> None \<and> rt_user x = u"
proof -
  obtain r where r: "r \<in> set rows" "rt_id r = i" "rt_user r = u" "rt_hash r = sha p" "rt_revoked r = None"
    using consume_live [OF c] by blast
  have one: "x = r" if "x \<in> set rows" "rt_hash x = sha p" for x
    using that r hs by (auto simp: distinct_map inj_on_def)
  let ?f = "\<lambda>x. if rt_id x = i \<and> rt_revoked x = None then x\<lparr>rt_revoked := Some now, rt_rotated := Some j\<rparr> else x"
  let ?new = "\<lparr>rt_id = j, rt_user = u, rt_hash = sha token, rt_expires = now + ttl, rt_revoked = None, rt_rotated = None\<rparr>"
  have rows': "issueRefreshToken sha ttl now j token u (Some i) rows = map ?f (rows @ [?new])"
    by (simp only: issueRefreshToken_def Let_def option.case)
  have "?f r \<in> set (map ?f (rows @ [?new]))" using r(1) by (simp only: set_map set_append) blast
  moreover have "rt_hash (?f r) = sha p" using r by simp
  moreover have "rt_rotated y \<noteq> None \<and> rt_user y = u" if y: "y \<in> set (map ?f (rows @ [?new]))" "rt_hash y = sha p" for y
  proof -
    obtain x where x: "x \<in> set (rows @ [?new])" "y = ?f x" using y(1) by (simp only: set_map) blast
    have "rt_hash x = sha p" using x(2) y(2) by (simp split: if_splits)
    then have "x = r" using x(1) one fresh by auto
    then show ?thesis using x(2) r by simp
  qed
  ultimately show ?thesis unfolding rows' by (rule find_first)
qed

text \<open>Presenting a rotated token burns every token of its user.\<close>

lemma replay_burns:
  assumes "find (\<lambda>r. rt_hash r = sha p) rows = Some r" "rt_rotated r \<noteq> None" "p \<noteq> []"
  shows "consumeRefreshToken sha now p rows = (None, revoke_where (\<lambda>x. rt_user x = rt_user r) now rows)
    \<and> user_dead (rt_user r) (revoke_where (\<lambda>x. rt_user x = rt_user r) now rows)"
  using assms by (simp add: consumeRefreshToken_def revoke_where_all)

section \<open>Random tokens as text\<close>

text \<open>The printed form of random bytes loses nothing and is safe in a cookie or URL: reading it back gives
  the bytes, 32 bytes give 43 characters, and only letters, digits, minus and underscore occur.\<close>

theorem base64url_faithful:
  assumes "bytes bs"
  shows "unbase64url (base64url bs) = bs \<and> length (base64url bs) = (4 * length bs + 2) div 3
    \<and> list_all url_alphabet (base64url bs)"
  using base64url_roundtrip [OF assms] sextets_less [OF assms]
  by (auto simp: base64url_sextets [OF assms] length_sextets list_all_iff url_alphabet_def)

theorem base64url_faithful_witness:
  "unbase64url (base64url [0, 255, 62, 7]) = [0, 255, 62, 7] \<and> length (base64url [0, 255, 62, 7]) = (4 * length [0, 255, 62, 7 :: nat] + 2) div 3
    \<and> list_all url_alphabet (base64url [0, 255, 62, 7])"
  by (rule base64url_faithful) (simp add: bytes_def)

end
