(* ===== verification/ApiKeys.thy ===== *)
theory ApiKeys
  imports Tokens
begin

text \<open>
  \<open>backend/src/auth/apiKeys.js\<close>: keys of service accounts.  The three joined tables are lists of rows;
  the random bytes are an argument, the hash a parameter.
\<close>

definition KEY_PREFIX :: string where "KEY_PREFIX = ''dks_''"
definition KEY_RANDOM_BYTES :: nat where "KEY_RANDOM_BYTES = 32"
definition DISPLAY_PREFIX_LEN :: nat where "DISPLAY_PREFIX_LEN = 8"

record new_key =
  nk_token :: string
  nk_prefix :: string
  nk_hash :: string

definition generateKey :: "(string \<Rightarrow> string) \<Rightarrow> nat list \<Rightarrow> new_key" where
  "generateKey sha random =
     (let token = KEY_PREFIX @ base64url random in
      \<lparr>nk_token = token, nk_prefix = take (length KEY_PREFIX + DISPLAY_PREFIX_LEN) token, nk_hash = sha token\<rparr>)"

definition isApiKeyToken :: "string \<Rightarrow> bool" where
  "isApiKeyToken token = starts_with token KEY_PREFIX"

record key_row =
  ky_id :: string
  ky_account :: string
  ky_hash :: string
  ky_expires :: "nat option"
  ky_revoked :: bool
  ky_used :: "(nat \<times> string option) option"

record account_row =
  sa_id :: string
  sa_project :: string
  sa_name :: string
  sa_role :: string
  sa_status :: string
  sa_deleted :: bool

record project_row =
  pj_id :: string
  pj_ws :: string
  pj_deleted :: bool

record key_db =
  kd_keys :: "key_row list"
  kd_accounts :: "account_row list"
  kd_projects :: "project_row list"

record key_owner =
  ko_key :: string
  ko_account :: string
  ko_name :: string
  ko_role :: string
  ko_project :: string
  ko_ws :: string

text \<open>The join of the three tables for one hash.\<close>

definition key_join :: "string \<Rightarrow> key_db \<Rightarrow> (key_row \<times> account_row \<times> project_row) list" where
  "key_join h db =
     [(k, sa, p). k \<leftarrow> kd_keys db, ky_hash k = h, sa \<leftarrow> kd_accounts db, sa_id sa = ky_account k,
                  p \<leftarrow> kd_projects db, pj_id p = sa_project sa]"

definition findActiveByToken :: "(string \<Rightarrow> string) \<Rightarrow> nat \<Rightarrow> string \<Rightarrow> key_db \<Rightarrow> key_owner option" where
  "findActiveByToken sha now token db =
     (if \<not> isApiKeyToken token then None
      else case key_join (sha token) db of
        [] \<Rightarrow> None
      | (k, sa, p) # _ \<Rightarrow>
          if ky_revoked k then None
          else if (case ky_expires k of None \<Rightarrow> False | Some t \<Rightarrow> t < now) then None
          else if sa_status sa \<noteq> ''active'' then None
          else if sa_deleted sa then None
          else if pj_deleted p then None
          else Some \<lparr>ko_key = ky_id k, ko_account = sa_id sa, ko_name = sa_name sa, ko_role = sa_role sa,
                     ko_project = pj_id p, ko_ws = pj_ws p\<rparr>)"

definition markUsed :: "nat \<Rightarrow> string \<Rightarrow> string \<Rightarrow> key_db \<Rightarrow> key_db" where
  "markUsed now keyId ip db =
     db\<lparr>kd_keys := map (\<lambda>k. if ky_id k = keyId
          then k\<lparr>ky_used := Some (now, if ip = [] then None else Some ip)\<rparr> else k) (kd_keys db)\<rparr>"

section \<open>Lemmas\<close>

lemma generated_is_key: "isApiKeyToken (nk_token (generateKey sha random))"
  by (simp add: isApiKeyToken_def generateKey_def Let_def)

lemma found_owner:
  assumes "findActiveByToken sha now token db = Some ow"
  shows "\<exists>k \<in> set (kd_keys db). \<exists>sa \<in> set (kd_accounts db). \<exists>p \<in> set (kd_projects db).
     ky_hash k = sha token \<and> ky_account k = sa_id sa \<and> sa_project sa = pj_id p \<and>
     \<not> ky_revoked k \<and> (\<forall>t. ky_expires k = Some t \<longrightarrow> now \<le> t) \<and> sa_status sa = ''active'' \<and> \<not> sa_deleted sa \<and> \<not> pj_deleted p \<and>
     ow = \<lparr>ko_key = ky_id k, ko_account = sa_id sa, ko_name = sa_name sa, ko_role = sa_role sa, ko_project = pj_id p, ko_ws = pj_ws p\<rparr>"
proof -
  obtain k sa p rest where j: "key_join (sha token) db = (k, sa, p) # rest"
    using assms by (auto simp: findActiveByToken_def split: list.splits if_splits)
  have "(k, sa, p) \<in> set (key_join (sha token) db)" by (simp add: j)
  then have "k \<in> set (kd_keys db)" "sa \<in> set (kd_accounts db)" "p \<in> set (kd_projects db)"
      "ky_hash k = sha token" "sa_id sa = ky_account k" "pj_id p = sa_project sa"
    by (auto simp: key_join_def split: if_splits)
  then show ?thesis
    using assms j by (intro bexI [of _ k] bexI [of _ sa] bexI [of _ p])
      (auto simp: findActiveByToken_def not_less split: if_splits option.splits)
qed

text \<open>Recording a use changes no answer.\<close>

lemma markUsed_join:
  "key_join h (markUsed now i ip db) =
     map (\<lambda>(k, r). (if ky_id k = i then k\<lparr>ky_used := Some (now, if ip = [] then None else Some ip)\<rparr> else k, r)) (key_join h db)"
  by (simp add: key_join_def markUsed_def map_concat comp_def if_distrib cong: if_cong)

section \<open>What a key opens\<close>

text \<open>A presented key is accepted only for an unrevoked, unexpired key row of an active account in a live
  project, and the answer names that account's role, project and workspace.\<close>

theorem accepted_key_is_live:
  assumes "findActiveByToken sha now token db = Some ow"
  shows "\<exists>k \<in> set (kd_keys db). \<exists>sa \<in> set (kd_accounts db). \<exists>p \<in> set (kd_projects db).
     isApiKeyToken token \<and> ky_hash k = sha token \<and> ky_account k = sa_id sa \<and> sa_project sa = pj_id p \<and>
     \<not> ky_revoked k \<and> (case ky_expires k of None \<Rightarrow> True | Some t \<Rightarrow> now \<le> t) \<and>
     sa_status sa = ''active'' \<and> \<not> sa_deleted sa \<and> \<not> pj_deleted p \<and>
     ow = \<lparr>ko_key = ky_id k, ko_account = sa_id sa, ko_name = sa_name sa, ko_role = sa_role sa, ko_project = pj_id p, ko_ws = pj_ws p\<rparr>"
proof -
  have "isApiKeyToken token" using assms by (auto simp: findActiveByToken_def split: if_splits)
  with found_owner [OF assms] show ?thesis by (fastforce split: option.splits)
qed

definition sample_keys :: key_db where
  "sample_keys =
     \<lparr>kd_keys = [\<lparr>ky_id = ''k1'', ky_account = ''sa1'', ky_hash = ''dks_AQID'', ky_expires = Some 100, ky_revoked = False, ky_used = None\<rparr>],
      kd_accounts = [\<lparr>sa_id = ''sa1'', sa_project = ''p1'', sa_name = ''bot'', sa_role = ''viewer'', sa_status = ''active'', sa_deleted = False\<rparr>],
      kd_projects = [\<lparr>pj_id = ''p1'', pj_ws = ''w1'', pj_deleted = False\<rparr>]\<rparr>"

definition sample_owner :: key_owner where
  "sample_owner = \<lparr>ko_key = ''k1'', ko_account = ''sa1'', ko_name = ''bot'', ko_role = ''viewer'', ko_project = ''p1'', ko_ws = ''w1''\<rparr>"

lemma sample_key_found: "findActiveByToken (\<lambda>x. x) 50 (nk_token (generateKey (\<lambda>x. x) [1, 2, 3])) sample_keys = Some sample_owner"
  by code_simp

theorem accepted_key_is_live_witness:
  "\<exists>k \<in> set (kd_keys sample_keys). ky_hash k = nk_token (generateKey (\<lambda>x. x) [1, 2, 3]) \<and> \<not> ky_revoked k"
  using accepted_key_is_live [OF sample_key_found] by blast

end
