(* ===== verification/Sessions.thy ===== *)
theory Sessions
  imports Tokens
begin

text \<open>
  The session endpoints of \<open>backend/src/api/auth.js\<close> (login, refresh, logout), on the user table and the
  refresh-token rows, with the password helpers of \<open>auth/passwords.js\<close>.  bcrypt is the parameter
  \<open>bc\<close>; the signer and the hash are those of \<open>Tokens\<close>.  The audit log, the rate limiters in front
  of the routes and the single-sign-on routes are not modelled here.
\<close>

section \<open>Passwords\<close>

record bcrypt_ops =
  bc_hash :: "string \<Rightarrow> nat \<Rightarrow> string"
  bc_compare :: "string \<Rightarrow> string \<Rightarrow> bool js_result"

definition COST :: nat where "COST = 11"

definition pw_hash :: "bcrypt_ops \<Rightarrow> string \<Rightarrow> string js_result" where
  "pw_hash bc plaintext =
     (if plaintext = [] then Inl (plain_error ''hash: plaintext required'')
      else if 1000 < length plaintext then Inl (plain_error ''hash: password too long (max 1000 chars)'')
      else Inr (bc_hash bc plaintext COST))"

definition pw_verify :: "bcrypt_ops \<Rightarrow> string \<Rightarrow> string \<Rightarrow> bool" where
  "pw_verify bc plaintext stored =
     (if stored = [] then False else case bc_compare bc plaintext stored of Inl _ \<Rightarrow> False | Inr b \<Rightarrow> b)"

text \<open>\<open>/^\$2[aby]\$(\d{2})\$/\<close>\<close>

definition bcrypt_re :: regex where
  "bcrypt_re = rx (r_seq [RBol, r_lit ''$2'', r_set ''aby'', r_lit ''$'', RGrp 1 (r_seq [r_d, r_d]), r_lit ''$''])"

definition needsRehash :: "string \<Rightarrow> bool" where
  "needsRehash stored =
     (case re_exec bcrypt_re stored 0 of
        None \<Rightarrow> False
      | Some (b, e, cs) \<Rightarrow> digits_val (case cap stored cs 1 of Some d \<Rightarrow> d | None \<Rightarrow> []) < COST)"

section \<open>Users\<close>

record user_row =
  us_id :: string
  us_email :: string
  us_role :: string
  us_ws :: string
  us_status :: string
  us_hash :: string
  us_lastLogin :: "nat option"

record session_db =
  sd_users :: "user_row list"
  sd_tokens :: "rt_row list"

record auth_env =
  ae_secret :: string
  ae_mode :: string
  ae_ttl :: nat
  ae_bcrypt :: bcrypt_ops
  ae_sha :: "string \<Rightarrow> string"
  ae_sign :: "claims \<Rightarrow> string \<Rightarrow> string"

definition publicUser :: "user_row \<Rightarrow> js" where
  "publicUser u = JObj [(''id'', JStr (us_id u)), (''email'', JStr (us_email u)), (''role'', JStr (us_role u)),
     (''workspaceId'', JStr (us_ws u)), (''status'', JStr (us_status u))]"

definition findActiveUserByEmail :: "string \<Rightarrow> session_db \<Rightarrow> user_row option" where
  "findActiveUserByEmail email db =
     find (\<lambda>u. lower_str (us_email u) = lower_str email \<and> us_status u = ''active'') (sd_users db)"

definition user_claims :: "user_row \<Rightarrow> claims" where
  "user_claims u = \<lparr>cl_sub = us_id u, cl_email = us_email u, cl_role = us_role u, cl_ws = us_ws u, cl_proj = None\<rparr>"

definition map_user :: "string \<Rightarrow> (user_row \<Rightarrow> user_row) \<Rightarrow> session_db \<Rightarrow> session_db" where
  "map_user i f db = db\<lparr>sd_users := map (\<lambda>u. if us_id u = i then f u else u) (sd_users db)\<rparr>"

record session_reply =
  sr_access :: string
  sr_user :: js
  sr_cookie :: string

section \<open>Endpoints\<close>

text \<open>The random token and row id a handler draws are arguments.\<close>

definition issueTokensFor :: "auth_env \<Rightarrow> nat \<Rightarrow> string \<Rightarrow> string \<Rightarrow> user_row \<Rightarrow> session_db \<Rightarrow> session_reply js_result \<times> session_db" where
  "issueTokensFor env now i token u db =
     (case signAccessToken (ae_sign env) (ae_secret env) (ae_mode env) (user_claims u) of
        Inl e \<Rightarrow> (Inl e, db)
      | Inr acc \<Rightarrow>
          (Inr \<lparr>sr_access = acc, sr_user = publicUser u, sr_cookie = token\<rparr>,
           db\<lparr>sd_tokens := issueRefreshToken (ae_sha env) (ae_ttl env) now i token (us_id u) None (sd_tokens db)\<rparr>))"

definition login :: "auth_env \<Rightarrow> nat \<Rightarrow> string \<Rightarrow> string \<Rightarrow> js \<Rightarrow> js \<Rightarrow> session_db \<Rightarrow> session_reply js_result \<times> session_db" where
  "login env now i token email password db =
     (case (email, password) of
        (JStr em, JStr pw) \<Rightarrow>
          (case findActiveUserByEmail em db of
             None \<Rightarrow> (Inl (unauthorized_error ''invalid credentials''), db)
           | Some u \<Rightarrow>
               if us_hash u = [] \<or> \<not> pw_verify (ae_bcrypt env) pw (us_hash u)
               then (Inl (unauthorized_error ''invalid credentials''), db)
               else (case (if needsRehash (us_hash u) then pw_hash (ae_bcrypt env) pw else Inr (us_hash u)) of
                       Inl e \<Rightarrow> (Inl e, db)
                     | Inr h \<Rightarrow>
                         issueTokensFor env now i token u
                           (map_user (us_id u) (\<lambda>x. x\<lparr>us_hash := h, us_lastLogin := Some now\<rparr>) db)))
      | _ \<Rightarrow> (Inl (validation_error ''email and password required'' JUndef), db))"

definition refresh :: "auth_env \<Rightarrow> nat \<Rightarrow> string \<Rightarrow> string \<Rightarrow> string \<Rightarrow> session_db \<Rightarrow> session_reply js_result \<times> session_db" where
  "refresh env now i token presented db =
     (if presented = [] then (Inl (unauthorized_error ''missing refresh cookie''), db)
      else case consumeRefreshToken (ae_sha env) now presented (sd_tokens db) of
        (None, rows) \<Rightarrow> (Inl (unauthorized_error ''refresh token invalid''), db\<lparr>sd_tokens := rows\<rparr>)
      | (Some (ri, user), rows) \<Rightarrow>
          (case find (\<lambda>u. us_id u = user) (sd_users db) of
             None \<Rightarrow> (Inl (unauthorized_error ''user not available''), db\<lparr>sd_tokens := rows\<rparr>)
           | Some u \<Rightarrow>
               if us_status u \<noteq> ''active'' then (Inl (unauthorized_error ''user not available''), db\<lparr>sd_tokens := rows\<rparr>)
               else let db1 = db\<lparr>sd_tokens := issueRefreshToken (ae_sha env) (ae_ttl env) now i token (us_id u) (Some ri) rows\<rparr>
                    in case signAccessToken (ae_sign env) (ae_secret env) (ae_mode env) (user_claims u) of
                         Inl e \<Rightarrow> (Inl e, db1)
                       | Inr acc \<Rightarrow> (Inr \<lparr>sr_access = acc, sr_user = publicUser u, sr_cookie = token\<rparr>, db1)))"

definition logout :: "auth_env \<Rightarrow> nat \<Rightarrow> string \<Rightarrow> session_db \<Rightarrow> session_db" where
  "logout env now presented db =
     (if presented = [] then db
      else db\<lparr>sd_tokens := snd (revokeRefreshToken (ae_sha env) now presented (sd_tokens db))\<rparr>)"

section \<open>Histories\<close>

text \<open>
  Everything that happens to the rows: logins, refreshes, logouts and the administrator's
  \<open>revokeAllForUser\<close>, each with what it draws.
\<close>

datatype session_op =
    Login js js string string nat
  | Refresh string string string nat
  | Logout string nat
  | RevokeAll string nat

fun run_op :: "auth_env \<Rightarrow> session_op \<Rightarrow> session_db \<Rightarrow> session_db" where
  "run_op env (Login e p i t now) db = snd (login env now i t e p db)"
| "run_op env (Refresh c i t now) db = snd (refresh env now i t c db)"
| "run_op env (Logout c now) db = logout env now c db"
| "run_op env (RevokeAll u now) db = db\<lparr>sd_tokens := snd (revokeAllForUser now u (sd_tokens db))\<rparr>"

fun drawn :: "session_op \<Rightarrow> string list" where
  "drawn (Login _ _ _ t _) = [t]"
| "drawn (Refresh _ _ t _) = [t]"
| "drawn _ = []"

lemma issueTokensFor_tokens:
  "sd_tokens (snd (issueTokensFor env now i t u db)) =
     (case signAccessToken (ae_sign env) (ae_secret env) (ae_mode env) (user_claims u) of
        Inl _ \<Rightarrow> sd_tokens db
      | Inr _ \<Rightarrow> issueRefreshToken (ae_sha env) (ae_ttl env) now i t (us_id u) None (sd_tokens db))"
  by (simp add: issueTokensFor_def split: sum.splits)

lemma login_dead:
  assumes "hash_dead h (sd_tokens db)" "ae_sha env t \<noteq> h"
  shows "hash_dead h (sd_tokens (snd (login env now i t e p db)))"
  using assms
  by (auto simp: login_def issueTokensFor_tokens map_user_def issue_dead split: js.splits option.splits sum.splits)

lemma refresh_dead:
  assumes "hash_dead h (sd_tokens db)" "ae_sha env t \<noteq> h"
  shows "hash_dead h (sd_tokens (snd (refresh env now i t c db)))"
proof -
  obtain r rows where c: "consumeRefreshToken (ae_sha env) now c (sd_tokens db) = (r, rows)" by fastforce
  have "hash_dead h rows" using consume_keeps_dead [OF assms(1), of "ae_sha env" now c] c by simp
  then show ?thesis
    using assms issue_dead by (auto simp: refresh_def c Let_def split: option.splits sum.splits)
qed

lemma run_op_dead:
  "hash_dead h (sd_tokens db) \<Longrightarrow> list_all (\<lambda>t. ae_sha env t \<noteq> h) (drawn op) \<Longrightarrow> hash_dead h (sd_tokens (run_op env op db))"
  by (cases op) (auto simp: login_dead refresh_dead logout_def revokeRefreshToken_def revokeAllForUser_def revoke_where_dead)

lemma run_ops_dead:
  "hash_dead h (sd_tokens db) \<Longrightarrow> list_all (\<lambda>op. list_all (\<lambda>t. ae_sha env t \<noteq> h) (drawn op)) ops \<Longrightarrow>
   hash_dead h (sd_tokens (fold (run_op env) ops db))"
  by (induction ops arbitrary: db) (auto simp: run_op_dead)

lemma dead_refresh:
  assumes "hash_dead (ae_sha env c) (sd_tokens db)"
  shows "\<exists>e. fst (refresh env now i t c db) = Inl e"
proof -
  obtain r rows where c: "consumeRefreshToken (ae_sha env) now c (sd_tokens db) = (r, rows)" by fastforce
  have "r = None" using consume_dead [where sha = "ae_sha env" and p = c, OF assms, of now] c by simp
  then show ?thesis by (simp add: refresh_def c)
qed

lemma logout_dead: "c \<noteq> [] \<Longrightarrow> hash_dead (ae_sha env c) (sd_tokens (logout env now c db))"
  by (auto simp: logout_def revokeRefreshToken_def hash_dead_def revoke_where_def dead_row_def list_all_iff)

lemma refresh_ok:
  assumes "refresh env now i t c db = (Inr r, db')"
  shows "\<exists>ri u. consumeRefreshToken (ae_sha env) now c (sd_tokens db) = (Some (ri, us_id u), sd_tokens db)
    \<and> u \<in> set (sd_users db) \<and> us_status u = ''active'' \<and> sr_user r = publicUser u
    \<and> sd_tokens db' = issueRefreshToken (ae_sha env) (ae_ttl env) now i t (us_id u) (Some ri) (sd_tokens db)"
proof -
  obtain x rows where c: "consumeRefreshToken (ae_sha env) now c (sd_tokens db) = (x, rows)" by fastforce
  show ?thesis
    using assms consume_live [of "ae_sha env" now c "sd_tokens db"]
    by (auto simp: refresh_def c Let_def dest!: find_Some_mem split: option.splits if_splits sum.splits) blast
qed

lemma refresh_kills:
  assumes "refresh env now i t c db = (Inr r, db')" "distinct (map rt_id (sd_tokens db))"
    "distinct (map rt_hash (sd_tokens db))" "ae_sha env t \<noteq> ae_sha env c"
  shows "hash_dead (ae_sha env c) (sd_tokens db')"
proof -
  obtain ri and u :: user_row where u: "consumeRefreshToken (ae_sha env) now c (sd_tokens db) = (Some (ri, us_id u), sd_tokens db)"
      "sd_tokens db' = issueRefreshToken (ae_sha env) (ae_ttl env) now i t (us_id u) (Some ri) (sd_tokens db)"
    using refresh_ok [OF assms(1)] by blast
  show ?thesis using rotate_dead [OF u(1) assms(2-4)] u(2) by simp
qed

section \<open>Refresh tokens are single use\<close>

text \<open>C15.  A refresh token that was exchanged is never accepted again: after any later history of logins,
  refreshes, logouts and revocations (whose random tokens do not collide with it), presenting it is
  refused.\<close>

theorem used_refresh_token_refused:
  assumes "refresh env now i t c db = (Inr r, db')"
    and "distinct (map rt_id (sd_tokens db))" "distinct (map rt_hash (sd_tokens db))" "ae_sha env t \<noteq> ae_sha env c"
    and "list_all (\<lambda>op. list_all (\<lambda>x. ae_sha env x \<noteq> ae_sha env c) (drawn op)) ops"
  shows "\<exists>e. fst (refresh env now' i' t' c (fold (run_op env) ops db')) = Inl e"
  by (rule dead_refresh [OF run_ops_dead [OF refresh_kills [OF assms(1-4)] assms(5)]])

definition sample_auth :: auth_env where
  "sample_auth = \<lparr>ae_secret = ''s'', ae_mode = ''test'', ae_ttl = 1000,
     ae_bcrypt = \<lparr>bc_hash = (\<lambda>p n. p), bc_compare = (\<lambda>p h. Inr (p = h))\<rparr>,
     ae_sha = (\<lambda>x. ''h'' @ x), ae_sign = (\<lambda>c s. cl_sub c @ s)\<rparr>"

definition sample_users :: session_db where
  "sample_users = \<lparr>sd_users = [\<lparr>us_id = ''u1'', us_email = ''A@b.c'', us_role = ''editor'', us_ws = ''w'',
      us_status = ''active'', us_hash = ''pw'', us_lastLogin = None\<rparr>], sd_tokens = []\<rparr>"

definition sample_login :: session_db where
  "sample_login = snd (login sample_auth 10 ''r1'' ''t1'' (JStr ''a@B.c'') (JStr ''pw'') sample_users)"

definition sample_refreshed :: "session_reply js_result \<times> session_db" where
  "sample_refreshed = refresh sample_auth 20 ''r2'' ''t2'' ''t1'' sample_login"

theorem used_refresh_token_refused_witness:
  "\<exists>e. fst (refresh sample_auth 40 ''r9'' ''t9'' ''t1''
        (fold (run_op sample_auth) [Refresh ''t2'' ''r3'' ''t3'' 30, Logout ''t3'' 31] (snd sample_refreshed))) = Inl e"
proof -
  have "(case fst sample_refreshed of Inl _ \<Rightarrow> False | Inr _ \<Rightarrow> True)" by code_simp
  then obtain r where r: "refresh sample_auth 20 ''r2'' ''t2'' ''t1'' sample_login = (Inr r, snd sample_refreshed)"
    unfolding sample_refreshed_def by (cases "refresh sample_auth 20 ''r2'' ''t2'' ''t1'' sample_login") (auto split: sum.splits)
  show ?thesis by (rule used_refresh_token_refused [OF r]) code_simp+
qed

text \<open>A stolen copy: presenting a token that was already exchanged revokes every refresh token of its user,
  so the thief's successor and the owner's successor are both refused from then on.\<close>

theorem replay_burns_the_user:
  assumes "refresh env now i t c db = (Inr r, db')" "c \<noteq> []"
    and "distinct (map rt_id (sd_tokens db))" "distinct (map rt_hash (sd_tokens db))" "ae_sha env t \<noteq> ae_sha env c"
  shows "\<exists>u. sr_user r = publicUser u \<and> user_dead (us_id u) (sd_tokens (snd (refresh env now' i' t' c db')))"
proof -
  obtain ri and u :: user_row where u: "consumeRefreshToken (ae_sha env) now c (sd_tokens db) = (Some (ri, us_id u), sd_tokens db)"
      "sd_tokens db' = issueRefreshToken (ae_sha env) (ae_ttl env) now i t (us_id u) (Some ri) (sd_tokens db)"
      "sr_user r = publicUser u"
    using refresh_ok [OF assms(1)] by blast
  obtain x where x: "find (\<lambda>r. rt_hash r = ae_sha env c) (sd_tokens db') = Some x" "rt_rotated x \<noteq> None" "rt_user x = us_id u"
    using rotated_found [OF u(1) assms(3-5)] u(2) by metis
  have "consumeRefreshToken (ae_sha env) now' c (sd_tokens db')
      = (None, revoke_where (\<lambda>y. rt_user y = us_id u) now' (sd_tokens db'))"
    "user_dead (us_id u) (revoke_where (\<lambda>y. rt_user y = us_id u) now' (sd_tokens db'))"
    using replay_burns [where sha = "ae_sha env" and p = c, OF x(1,2) assms(2), of now'] x(3) by simp_all
  then have "user_dead (us_id u) (sd_tokens (snd (refresh env now' i' t' c db')))"
    using assms(2) by (simp add: refresh_def)
  with u(3) show ?thesis by blast
qed

theorem replay_burns_the_user_witness:
  "\<exists>r u. fst sample_refreshed = Inr r \<and> sr_user r = publicUser u
     \<and> user_dead (us_id u) (sd_tokens (snd (refresh sample_auth 30 ''r8'' ''t8'' ''t1'' (snd sample_refreshed))))"
proof -
  have "(case fst sample_refreshed of Inl _ \<Rightarrow> False | Inr _ \<Rightarrow> True)" by code_simp
  then obtain r where r: "refresh sample_auth 20 ''r2'' ''t2'' ''t1'' sample_login = (Inr r, snd sample_refreshed)"
    unfolding sample_refreshed_def by (cases "refresh sample_auth 20 ''r2'' ''t2'' ''t1'' sample_login") (auto split: sum.splits)
  have "\<exists>u. sr_user r = publicUser u \<and>
      user_dead (us_id u) (sd_tokens (snd (refresh sample_auth 30 ''r8'' ''t8'' ''t1'' (snd sample_refreshed))))"
    by (rule replay_burns_the_user [OF r]) code_simp+
  moreover have "fst sample_refreshed = Inr r"
    using arg_cong [OF r, of fst] by (simp only: sample_refreshed_def fst_conv)
  ultimately show ?thesis by blast
qed

end
