(* ===== verification/Permissions.thy ===== *)
theory Permissions
  imports Errors
begin

text \<open>
  \<open>backend/src/auth/permissions.js\<close>: the built-in role tables, the resolution of the permissions
  a principal holds for a workspace and a project, the gate \<open>requirePermission\<close> and the catalogue
  shown to administrators.  The tables of the database are lists of rows; \<open>now\<close> is in
  milliseconds.  A permission set is a list of which only the members matter.
\<close>

section \<open>The role tables\<close>

definition ALL_PERM :: string where "ALL_PERM = ''*''"

definition READ_PERMS :: "string list" where
  "READ_PERMS =
     [''workflow.read'', ''trigger.read'', ''config.read'', ''agent.read'', ''execution.read'',
      ''memory.read'', ''plugin.list'', ''project.read'', ''project.member.read'', ''kb.read'',
      ''guardrails.read'', ''prompt.read'', ''eval.read'', ''route.read'']"

definition WRITE_PERMS :: "string list" where
  "WRITE_PERMS =
     [''workflow.create'', ''workflow.update'', ''workflow.delete'', ''workflow.run'',
      ''trigger.create'', ''trigger.update'', ''trigger.delete'', ''trigger.fire'',
      ''config.create'', ''config.update'', ''config.delete'', ''agent.create'',
      ''agent.update'', ''agent.delete'', ''execution.cancel'', ''execution.resume'',
      ''execution.delete'', ''memory.write'', ''memory.delete'', ''plugin.invoke'', ''kb.write'',
      ''guardrails.write'', ''prompt.write'', ''eval.write'', ''route.write'']"

definition ADMIN_PERMS :: "string list" where
  "ADMIN_PERMS =
     READ_PERMS
     @ WRITE_PERMS
     @ [''project.update'', ''project.delete'', ''project.member.write'', ''config.reveal_secret'',
      ''audit.read.project'', ''service_account.read'', ''service_account.create'',
      ''service_account.delete'', ''quota.read'', ''resource_grant.read'',
      ''resource_grant.write'', ''custom_role.grant'']"

definition VIEWER_PERMS :: "string list" where
  "VIEWER_PERMS =
     [''workflow.read'', ''trigger.read'', ''execution.read'', ''agent.read'', ''memory.read'',
      ''plugin.list'', ''project.read'', ''kb.read'', ''guardrails.read'', ''prompt.read'',
      ''eval.read'', ''route.read'']"

definition WORKSPACE_ADMIN_EXTRA_PERMS :: "string list" where
  "WORKSPACE_ADMIN_EXTRA_PERMS =
     [''workspace.read'', ''workspace.update'', ''project.create'', ''project.delete'',
      ''user.read'', ''user.write'', ''plugin.install'', ''plugin.uninstall'',
      ''audit.read.workspace'', ''quota.write'', ''config.share_workspace'',
      ''agent.share_workspace'', ''cross_project.grant'', ''jit.grant'', ''custom_role.read'',
      ''custom_role.create'', ''custom_role.update'', ''custom_role.delete'',
      ''prompt.share_workspace'', ''compliance.read'', ''compliance.write'',
      ''compliance.dataSubject'']"

definition BUILTIN_ROLE_PERMS :: "string \<Rightarrow> string list" where
  "BUILTIN_ROLE_PERMS role =
     (if role = ''admin'' then ADMIN_PERMS
      else if role = ''editor'' then READ_PERMS @ WRITE_PERMS
      else if role = ''viewer'' then VIEWER_PERMS else [])"

section \<open>Principals and rows\<close>

record principal =
  pr_id :: string
  pr_kind :: string
  pr_role :: string
  pr_ws :: string
  pr_proj :: string

record role_grant =
  rg_user :: string
  rg_scope_type :: string
  rg_scope_id :: string
  rg_role :: "string option"

record jit_grant =
  jg_user :: string
  jg_scope_type :: string
  jg_scope_id :: string
  jg_role :: string
  jg_revoked :: bool
  jg_expires :: nat

record resource_grant =
  sg_type :: string
  sg_resource :: string
  sg_ptype :: string
  sg_principal :: string
  sg_perms :: "string list"

record auth_db =
  ad_ws_members :: "(string \<times> string \<times> string) list"     \<comment> \<open>user, workspace, role\<close>
  ad_users :: "(string \<times> string \<times> string) list"          \<comment> \<open>id, workspace, role\<close>
  ad_proj_members :: "(string \<times> string \<times> string) list"   \<comment> \<open>user, project, role\<close>
  ad_role_grants :: "role_grant list"
  ad_custom_roles :: "(string \<times> string list) list"
  ad_jit :: "jit_grant list"
  ad_resource :: "resource_grant list"

definition find_role :: "(string \<times> string \<times> string) list \<Rightarrow> string \<Rightarrow> string \<Rightarrow> string option" where
  "find_role rows a b = map_option (snd \<circ> snd) (find (\<lambda>r. fst r = a \<and> fst (snd r) = b) rows)"

definition getWorkspaceMembership :: "auth_db \<Rightarrow> string \<Rightarrow> string \<Rightarrow> string option" where
  "getWorkspaceMembership db user ws =
     (if user = [] \<or> ws = [] then None
      else case find_role (ad_ws_members db) user ws of
             Some r \<Rightarrow> Some r | None \<Rightarrow> find_role (ad_users db) user ws)"

definition nil_uuid :: string where "nil_uuid = ''00000000-0000-0000-0000-000000000000''"

definition in_scope :: "string \<Rightarrow> string \<Rightarrow> string \<Rightarrow> string \<Rightarrow> bool" where
  "in_scope ws proj stype sid =
     (stype = ''workspace'' \<and> sid = ws \<or> stype = ''project'' \<and> sid = (if proj = [] then nil_uuid else proj))"

definition customRolePerms :: "auth_db \<Rightarrow> string \<Rightarrow> string \<Rightarrow> string \<Rightarrow> string list" where
  "customRolePerms db user ws proj =
     concat (map (\<lambda>g. case rg_role g of None \<Rightarrow> []
                       | Some r \<Rightarrow> concat (map snd (filter (\<lambda>cr. fst cr = r) (ad_custom_roles db))))
       (filter (\<lambda>g. rg_user g = user \<and> in_scope ws proj (rg_scope_type g) (rg_scope_id g)) (ad_role_grants db)))"

definition jitPerms :: "auth_db \<Rightarrow> nat \<Rightarrow> string \<Rightarrow> string \<Rightarrow> string \<Rightarrow> string list" where
  "jitPerms db now user ws proj =
     concat (map (\<lambda>g. BUILTIN_ROLE_PERMS (jg_role g))
       (filter (\<lambda>g. jg_user g = user \<and> \<not> jg_revoked g \<and> now < jg_expires g
                     \<and> in_scope ws proj (jg_scope_type g) (jg_scope_id g)) (ad_jit db)))"

definition resourcePerms :: "auth_db \<Rightarrow> string \<Rightarrow> string \<Rightarrow> string \<Rightarrow> string \<Rightarrow> string list" where
  "resourcePerms db ptype pid rtype rid =
     (if rtype = [] \<or> rid = [] then []
      else concat (map sg_perms
        (filter (\<lambda>g. sg_type g = rtype \<and> sg_resource g = rid \<and> sg_ptype g = ptype \<and> sg_principal g = pid)
           (ad_resource db))))"

text \<open>The resource hints of a route are empty when it declares none.\<close>

definition resolveEffectivePermissions ::
  "auth_db \<Rightarrow> nat \<Rightarrow> principal option \<Rightarrow> string \<Rightarrow> string \<Rightarrow> string \<Rightarrow> string list" where
  "resolveEffectivePermissions db now p projectId rtype rid =
     (case p of
        None \<Rightarrow> []
      | Some u \<Rightarrow>
          (let proj = (if projectId \<noteq> [] then projectId else pr_proj u) in
           if pr_kind u = ''service_account'' then
             BUILTIN_ROLE_PERMS (if pr_role u = [] then ''editor'' else pr_role u)
             @ resourcePerms db ''service_account'' (pr_id u) rtype rid
           else if getWorkspaceMembership db (pr_id u) (pr_ws u) = Some ''admin'' then
             ALL_PERM # BUILTIN_ROLE_PERMS ''admin'' @ WORKSPACE_ADMIN_EXTRA_PERMS
           else
             (if proj = [] then []
              else case find_role (ad_proj_members db) (pr_id u) proj of
                     None \<Rightarrow> [] | Some r \<Rightarrow> BUILTIN_ROLE_PERMS r)
             @ customRolePerms db (pr_id u) (pr_ws u) proj
             @ jitPerms db now (pr_id u) (pr_ws u) proj
             @ resourcePerms db ''user'' (pr_id u) rtype rid))"

definition allows :: "string list \<Rightarrow> string \<Rightarrow> bool" where
  "allows perms p = (ALL_PERM \<in> set perms \<or> p \<in> set perms)"

definition requirePermission ::
  "auth_db \<Rightarrow> nat \<Rightarrow> principal option \<Rightarrow> string \<Rightarrow> string \<Rightarrow> string \<Rightarrow> (string list) js_result" where
  "requirePermission db now p permission rtype rid =
     (case p of
        None \<Rightarrow> Inl (unauthorized_error ''authentication required'')
      | Some u \<Rightarrow>
          (let eff = resolveEffectivePermissions db now p (pr_proj u) rtype rid in
           if allows eff permission then Inr eff
           else Inl (forbidden_error (''permission denied: '' @ permission) (JObj [(''need'', JStr permission)]))))"

definition hasPermission :: "auth_db \<Rightarrow> nat \<Rightarrow> principal option \<Rightarrow> string \<Rightarrow> string \<Rightarrow> string \<Rightarrow> string \<Rightarrow> bool" where
  "hasPermission db now p permission projectId rtype rid =
     allows (resolveEffectivePermissions db now p projectId rtype rid) permission"

section \<open>The catalogue\<close>

definition PERMISSION_CATALOG :: "(string \<times> string \<times> string) list" where
  "PERMISSION_CATALOG =
     [(''workflow.read'', ''Workflows'', ''View workflow definitions and history''),
      (''workflow.create'', ''Workflows'', ''Create new workflows''),
      (''workflow.update'', ''Workflows'', ''Edit existing workflows''),
      (''workflow.delete'', ''Workflows'', ''Delete workflows''),
      (''workflow.run'', ''Workflows'', ''Run / execute workflows''),
      (''trigger.read'', ''Triggers'', ''View triggers''),
      (''trigger.create'', ''Triggers'', ''Create new triggers''),
      (''trigger.update'', ''Triggers'', ''Edit triggers''),
      (''trigger.delete'', ''Triggers'', ''Delete triggers''),
      (''trigger.fire'', ''Triggers'', ''Manually fire a trigger''),
      (''config.read'', ''Configs'', ''View credential metadata (not the secret values)''),
      (''config.create'', ''Configs'', ''Create credentials''),
      (''config.update'', ''Configs'', ''Edit credentials''),
      (''config.delete'', ''Configs'', ''Delete credentials''),
      (''config.reveal_secret'', ''Configs'', ''See decrypted secret values''),
      (''config.share_workspace'', ''Configs'', ''Promote a config to workspace-shared (workspace admin only)''),
      (''agent.read'', ''Agents'', ''View agents''),
      (''agent.create'', ''Agents'', ''Create agents''),
      (''agent.update'', ''Agents'', ''Edit agents''),
      (''agent.delete'', ''Agents'', ''Delete agents''),
      (''agent.share_workspace'', ''Agents'', ''Promote an agent to workspace-shared (workspace admin only)''),
      (''execution.read'', ''Executions'', ''View execution history + logs''),
      (''execution.cancel'', ''Executions'', ''Cancel a running execution''),
      (''execution.resume'', ''Executions'', ''Resume / skip / edit a failed execution''),
      (''execution.delete'', ''Executions'', ''Delete execution history rows''),
      (''memory.read'', ''Memory'', ''Read memory store entries''),
      (''memory.write'', ''Memory'', ''Set or append memory entries''),
      (''memory.delete'', ''Memory'', ''Clear memory entries''),
      (''plugin.list'', ''Plugins'', ''List installed plugins''),
      (''plugin.invoke'', ''Plugins'', ''Toggle plugin enablement in projects''),
      (''plugin.install'', ''Plugins'', ''Install a plugin at workspace level (workspace admin)''),
      (''plugin.uninstall'', ''Plugins'', ''Uninstall a plugin from the workspace (workspace admin)''),
      (''project.read'', ''Projects'', ''List visible projects''),
      (''project.update'', ''Projects'', ''Edit a project's name / metadata''),
      (''project.delete'', ''Projects'', ''Soft-delete a project''),
      (''project.create'', ''Projects'', ''Create new projects (workspace admin)''),
      (''project.member.read'', ''Projects'', ''List project members + their roles''),
      (''project.member.write'', ''Projects'', ''Add / remove / change role of project members''),
      (''service_account.read'', ''Service accounts'', ''List service accounts + their keys''),
      (''service_account.create'', ''Service accounts'', ''Create SAs and issue API keys''),
      (''service_account.delete'', ''Service accounts'', ''Disable SAs and revoke keys''),
      (''cross_project.grant'', ''Cross-project'', ''Grant `workflow.fire` from one project into another (workspace admin)''),
      (''jit.grant'', ''Just-in-time'', ''Issue time-bound role elevations (workspace admin)''),
      (''audit.read.project'', ''Audit'', ''Read audit log for your project''),
      (''audit.read.workspace'', ''Audit'', ''Read audit log for the whole workspace (workspace admin)''),
      (''quota.read'', ''Quotas'', ''View token / execution quotas + usage''),
      (''quota.write'', ''Quotas'', ''Set or change quotas (workspace admin)''),
      (''workspace.read'', ''Workspace'', ''Read workspace metadata''),
      (''workspace.update'', ''Workspace'', ''Rename the workspace (workspace admin)''),
      (''user.read'', ''Workspace'', ''List workspace members + roles (workspace admin)''),
      (''user.write'', ''Workspace'', ''Add / disable / change users' roles (workspace admin)''),
      (''custom_role.read'', ''RBAC'', ''View workspace's custom roles''),
      (''custom_role.create'', ''RBAC'', ''Define new custom roles (workspace admin)''),
      (''custom_role.update'', ''RBAC'', ''Edit custom roles (workspace admin)''),
      (''custom_role.delete'', ''RBAC'', ''Delete custom roles (workspace admin)''),
      (''custom_role.grant'', ''RBAC'', ''Assign a custom role to a user (workspace OR project admin)''),
      (''resource_grant.read'', ''RBAC'', ''See who has resource-level access to a specific workflow / config / agent''),
      (''resource_grant.write'', ''RBAC'', ''Share a specific workflow / config / agent with a user or service account'')]"

definition listPermissionCatalog :: "(string \<times> string \<times> string) list" where
  "listPermissionCatalog = PERMISSION_CATALOG"

section \<open>Lemmas\<close>

lemma editor_not_universal: "ALL_PERM \<notin> set (READ_PERMS @ WRITE_PERMS)" "ALL_PERM \<notin> set VIEWER_PERMS" "ALL_PERM \<notin> set ADMIN_PERMS"
  by (simp_all add: ALL_PERM_def READ_PERMS_def WRITE_PERMS_def VIEWER_PERMS_def ADMIN_PERMS_def)

lemma role_chain: "set (BUILTIN_ROLE_PERMS ''viewer'') \<subseteq> set (BUILTIN_ROLE_PERMS ''editor'')"
    "set (BUILTIN_ROLE_PERMS ''editor'') \<subseteq> set (BUILTIN_ROLE_PERMS ''admin'')"
  unfolding BUILTIN_ROLE_PERMS_def ADMIN_PERMS_def by (simp_all add: VIEWER_PERMS_def READ_PERMS_def, auto)

lemma viewer_writes_nothing: "set (BUILTIN_ROLE_PERMS ''viewer'') \<inter> set WRITE_PERMS = {}"
  by (simp add: BUILTIN_ROLE_PERMS_def VIEWER_PERMS_def WRITE_PERMS_def)

text \<open>A user with no membership, grant or elevation in a scope holds nothing there.\<close>

definition unrelated :: "auth_db \<Rightarrow> string \<Rightarrow> string \<Rightarrow> string \<Rightarrow> bool" where
  "unrelated db user ws proj =
     (getWorkspaceMembership db user ws \<noteq> Some ''admin'' \<and>
      (proj = [] \<or> find_role (ad_proj_members db) user proj = None) \<and>
      (\<forall>g \<in> set (ad_role_grants db). \<not> (rg_user g = user \<and> in_scope ws proj (rg_scope_type g) (rg_scope_id g))) \<and>
      (\<forall>g \<in> set (ad_jit db). \<not> (jg_user g = user \<and> in_scope ws proj (jg_scope_type g) (jg_scope_id g))))"

lemma unrelated_parts:
  assumes "unrelated db user ws proj"
  shows "getWorkspaceMembership db user ws \<noteq> Some ''admin''"
    and "proj = [] \<or> find_role (ad_proj_members db) user proj = None"
    and "customRolePerms db user ws proj = []" and "jitPerms db now user ws proj = []"
proof -
  show "getWorkspaceMembership db user ws \<noteq> Some ''admin''"
    "proj = [] \<or> find_role (ad_proj_members db) user proj = None"
    using assms by (auto simp: unrelated_def)
  show "customRolePerms db user ws proj = []"
    using assms unfolding unrelated_def customRolePerms_def by (subst filter_False) auto
  show "jitPerms db now user ws proj = []"
    using assms unfolding unrelated_def jitPerms_def by (subst filter_False) auto
qed

lemma unrelated_nothing:
  assumes "unrelated db (pr_id u) (pr_ws u) (if projectId \<noteq> [] then projectId else pr_proj u)" "pr_kind u \<noteq> ''service_account''"
  shows "resolveEffectivePermissions db now (Some u) projectId [] [] = []"
  using assms(2) unrelated_parts [OF assms(1)] unfolding resolveEffectivePermissions_def option.case Let_def
  by (cases "projectId = []") (auto simp: resourcePerms_def)

text \<open>Grants are additive: more rows never take a permission away.\<close>

definition more_grants :: "auth_db \<Rightarrow> auth_db \<Rightarrow> bool" where
  "more_grants db db' =
     (ad_ws_members db' = ad_ws_members db \<and> ad_users db' = ad_users db \<and> ad_proj_members db' = ad_proj_members db \<and>
      set (ad_role_grants db) \<subseteq> set (ad_role_grants db') \<and> set (ad_custom_roles db) \<subseteq> set (ad_custom_roles db') \<and>
      set (ad_jit db) \<subseteq> set (ad_jit db') \<and> set (ad_resource db) \<subseteq> set (ad_resource db'))"

lemma customRole_mono: "more_grants db db' \<Longrightarrow> set (customRolePerms db u w p) \<subseteq> set (customRolePerms db' u w p)"
  by (fastforce simp: customRolePerms_def more_grants_def split: option.splits)

lemma jit_mono: "more_grants db db' \<Longrightarrow> set (jitPerms db now u w p) \<subseteq> set (jitPerms db' now u w p)"
  by (auto simp: jitPerms_def more_grants_def)

lemma resource_mono: "more_grants db db' \<Longrightarrow> set (resourcePerms db t u r i) \<subseteq> set (resourcePerms db' t u r i)"
  by (auto simp: resourcePerms_def more_grants_def)

lemma membership_same: "more_grants db db' \<Longrightarrow> getWorkspaceMembership db' u w = getWorkspaceMembership db u w"
  unfolding getWorkspaceMembership_def more_grants_def by (elim conjE) (simp only:)

lemma effective_mono:
  assumes m: "more_grants db db'"
  shows "set (resolveEffectivePermissions db now p proj rt rid) \<subseteq> set (resolveEffectivePermissions db' now p proj rt rid)"
proof (cases p)
  case (Some u)
  have pm: "ad_proj_members db' = ad_proj_members db" using m by (simp add: more_grants_def)
  show ?thesis
    unfolding resolveEffectivePermissions_def Some Let_def pm option.case
    using customRole_mono [OF m, THEN subsetD] jit_mono [OF m, THEN subsetD] resource_mono [OF m, THEN subsetD]
    by (auto simp: membership_same [OF m] split: if_splits)
qed (simp add: resolveEffectivePermissions_def)

end
