(* ===== verification/AuthMiddleware.thy ===== *)
theory AuthMiddleware
  imports ApiKeys Sessions Permissions
begin

text \<open>
  \<open>backend/src/middleware/auth.js\<close>: from the headers of a request to \<open>req.user\<close>, and the guards that
  read it.  The library that verifies an access token is the parameter \<open>jwt_verify\<close>, which returns
  the name of its exception or the claims.  The dash in the message of \<open>requireProject\<close> is ASCII here.
\<close>

record http_req =
  hq_auth :: string
  hq_project :: string
  hq_access_token :: js
  hq_ip :: string

text \<open>\<open>h && /^Bearer /i.test(h)\<close>, then \<open>h.slice(7).trim()\<close>; None is null.\<close>

definition extractBearer :: "http_req \<Rightarrow> string option" where
  "extractBearer rq =
     (if hq_auth rq \<noteq> [] \<and> lower_str (take 7 (hq_auth rq)) = ''bearer '' then Some (trim (drop 7 (hq_auth rq)))
      else if truthy (hq_access_token rq) then Some (js_string (hq_access_token rq)) else None)"

definition service_principal :: "key_owner \<Rightarrow> principal" where
  "service_principal ow =
     \<lparr>pr_id = ko_account ow, pr_kind = ''service_account'', pr_role = ko_role ow, pr_ws = ko_ws ow, pr_proj = ko_project ow\<rparr>"

definition user_principal :: "http_req \<Rightarrow> claims \<Rightarrow> user_row \<Rightarrow> principal" where
  "user_principal rq c u =
     \<lparr>pr_id = us_id u, pr_kind = ''user'', pr_role = us_role u,
      pr_ws = (if cl_ws c \<noteq> [] then cl_ws c else us_ws u),
      pr_proj = (if hq_project rq \<noteq> [] then hq_project rq
                 else case cl_proj c of None \<Rightarrow> [] | Some p \<Rightarrow> p)\<rparr>"

definition requireUser ::
  "auth_env \<Rightarrow> (string \<Rightarrow> string \<Rightarrow> string + claims) \<Rightarrow> nat \<Rightarrow> http_req \<Rightarrow> session_db \<Rightarrow> key_db \<Rightarrow> principal js_result \<times> key_db" where
  "requireUser env jwt_verify now rq db keys =
     (case extractBearer rq of
        None \<Rightarrow> (Inl (unauthorized_error ''missing bearer token''), keys)
      | Some token \<Rightarrow>
          if token = [] then (Inl (unauthorized_error ''missing bearer token''), keys)
          else if isApiKeyToken token then
            (case findActiveByToken (ae_sha env) now token keys of
               None \<Rightarrow> (Inl (unauthorized_error ''invalid or revoked API key''), keys)
             | Some ow \<Rightarrow> (Inr (service_principal ow), markUsed now (ko_key ow) (hq_ip rq) keys))
          else
            (case verifyAccessToken jwt_verify (ae_secret env) (ae_mode env) token of
               Inl exn \<Rightarrow> (Inl (unauthorized_error (if exn = ''TokenExpiredError'' then ''token expired'' else ''invalid token'')), keys)
             | Inr c \<Rightarrow>
                 (case find (\<lambda>u. us_id u = cl_sub c) (sd_users db) of
                    None \<Rightarrow> (Inl (unauthorized_error ''user no longer exists''), keys)
                  | Some u \<Rightarrow>
                      if us_status u \<noteq> ''active'' then (Inl (unauthorized_error ''user disabled''), keys)
                      else (Inr (user_principal rq c u), keys))))"

definition requireProject :: "principal option \<Rightarrow> unit js_result" where
  "requireProject p =
     (if (case p of None \<Rightarrow> True | Some u \<Rightarrow> pr_proj u = [])
      then Inl (forbidden_error ''no active project - supply X-Project-Id header or switch project''
                  (JObj [(''need'', JStr ''projectId'')]))
      else Inr ())"

definition requireRole :: "string list \<Rightarrow> principal option \<Rightarrow> unit js_result" where
  "requireRole allowed p =
     (if allowed = [] then Inl (plain_error ''requireRole called with no roles'')
      else case p of
        None \<Rightarrow> Inl (unauthorized_error ''authentication required'')
      | Some u \<Rightarrow> if pr_role u \<in> set allowed then Inr ()
                  else Inl (forbidden_error (''role '' @ quoted (pr_role u) @ '' not permitted'')
                              (JObj [(''need'', JArr (map JStr allowed))])))"

text \<open>The chain a guarded route runs: authenticate, then check one permission.\<close>

definition guarded ::
  "auth_env \<Rightarrow> (string \<Rightarrow> string \<Rightarrow> string + claims) \<Rightarrow> nat \<Rightarrow> http_req \<Rightarrow> string \<Rightarrow> session_db \<Rightarrow> key_db \<Rightarrow> auth_db \<Rightarrow> string list js_result" where
  "guarded env jwt_verify now rq perm db keys adb =
     res_bind (fst (requireUser env jwt_verify now rq db keys)) (\<lambda>u. requirePermission adb now (Some u) perm [] [])"

section \<open>Lemmas\<close>

lemma principal_kinds [simp]:
  "pr_kind (user_principal rq c u) = ''user''" "pr_kind (service_principal ow) = ''service_account''"
  by (simp_all add: user_principal_def service_principal_def)

lemma requireUser_service:
  assumes "requireUser env jwt_verify now rq db keys = (Inr u, keys')" "pr_kind u = ''service_account''"
  shows "\<exists>ow token. extractBearer rq = Some token \<and> findActiveByToken (ae_sha env) now token keys = Some ow \<and> u = service_principal ow"
  using assms
  by (auto simp: requireUser_def split: option.splits if_splits sum.splits)

lemma requireUser_user:
  assumes "requireUser env jwt_verify now rq db keys = (Inr u, keys')" "pr_kind u \<noteq> ''service_account''"
  shows "\<exists>x c. x \<in> set (sd_users db) \<and> us_status x = ''active'' \<and> u = user_principal rq c x \<and> pr_kind u = ''user''"
  using assms
  by (fastforce simp: requireUser_def dest!: find_Some_mem split: option.splits if_splits sum.splits)

text \<open>A disabled account is locked out at once, whatever token it still holds.\<close>

lemma disabled_locked_out:
  assumes "list_all (\<lambda>x. us_id x = i \<longrightarrow> us_status x \<noteq> ''active'') (sd_users db)"
    "requireUser env jwt_verify now rq db keys = (Inr u, keys')" "pr_kind u = ''user''"
  shows "pr_id u \<noteq> i"
proof -
  have "pr_kind u \<noteq> ''service_account''" using assms(3) by simp
  from requireUser_user [OF assms(2) this] obtain x :: user_row and c where
    x: "x \<in> set (sd_users db)" "us_status x = ''active''" "u = user_principal rq c x" by blast
  then show ?thesis using assms(1) by (auto simp: list_all_iff user_principal_def)
qed

lemma guarded_ok:
  "guarded env jwt_verify now rq perm db keys adb = Inr eff \<Longrightarrow>
   \<exists>u keys'. requireUser env jwt_verify now rq db keys = (Inr u, keys') \<and>
     eff = resolveEffectivePermissions adb now (Some u) (pr_proj u) [] [] \<and> allows eff perm"
  by (cases "requireUser env jwt_verify now rq db keys")
     (auto simp: guarded_def requirePermission_def Let_def res_bind_def split: sum.splits if_splits)

section \<open>What a request may do\<close>

text \<open>A service account cannot leave its project: with an API key, the project header of the request makes
  no difference, and the project is that of the account.\<close>

theorem key_fixes_the_project:
  assumes "requireUser env jwt_verify now rq db keys = (Inr u, keys')" "pr_kind u = ''service_account''"
  shows "requireUser env jwt_verify now (rq\<lparr>hq_project := p\<rparr>) db keys = (Inr u, keys')
    \<and> (\<exists>sa \<in> set (kd_accounts keys). pr_id u = sa_id sa \<and> pr_proj u = sa_project sa \<and> pr_role u = sa_role sa)"
proof -
  obtain ow token where o1: "extractBearer rq = Some token" "findActiveByToken (ae_sha env) now token keys = Some ow"
      "u = service_principal ow"
    using requireUser_service [OF assms] by blast
  have t: "isApiKeyToken token" "token \<noteq> []"
    using o1(2) by (auto simp: findActiveByToken_def isApiKeyToken_def KEY_PREFIX_def split: if_splits)
  have "extractBearer (rq\<lparr>hq_project := p\<rparr>) = extractBearer rq" by (simp add: extractBearer_def)
  then have "extractBearer (rq\<lparr>hq_project := p\<rparr>) = Some token" "hq_ip (rq\<lparr>hq_project := p\<rparr>) = hq_ip rq"
    using o1(1) by simp_all
  then have 1: "requireUser env jwt_verify now (rq\<lparr>hq_project := p\<rparr>) db keys = (Inr u, keys')"
    using assms(1) o1 t by (simp add: requireUser_def)
  have 2: "\<exists>sa \<in> set (kd_accounts keys). pr_id u = sa_id sa \<and> pr_proj u = sa_project sa \<and> pr_role u = sa_role sa"
    using found_owner [OF o1(2)] by (fastforce simp: o1(3) service_principal_def)
  from 1 2 show ?thesis ..
qed

definition bearer :: "string \<Rightarrow> string \<Rightarrow> http_req" where
  "bearer token project = \<lparr>hq_auth = ''bEARER '' @ token, hq_project = project, hq_access_token = JUndef, hq_ip = ''1.2.3.4''\<rparr>"

definition plain_sha :: auth_env where
  "plain_sha = sample_auth\<lparr>ae_sha := (\<lambda>x. x)\<rparr>"

theorem key_fixes_the_project_witness:
  "requireUser plain_sha (\<lambda>_ _. Inl []) 50 ((bearer ''dks_AQID'' [])\<lparr>hq_project := ''other''\<rparr>) sample_users sample_keys
     = (Inr (service_principal sample_owner), markUsed 50 ''k1'' ''1.2.3.4'' sample_keys)"
proof -
  have r: "requireUser plain_sha (\<lambda>_ _. Inl []) 50 (bearer ''dks_AQID'' []) sample_users sample_keys
     = (Inr (service_principal sample_owner), markUsed 50 ''k1'' ''1.2.3.4'' sample_keys)"
    by code_simp
  show ?thesis by (rule conjunct1 [OF key_fixes_the_project [OF r]]) simp
qed

text \<open>C16.  Two ways of being locked out, across the token, the user table, the memberships and the gate: a
  guarded route answers a user only if the account is active, and only if the user has some
  membership, grant or elevation in the project the request names (or administers the workspace).\<close>

theorem guarded_routes_are_closed:
  assumes "guarded env jwt_verify now rq perm db keys adb = Inr eff"
  shows "\<exists>u keys'. requireUser env jwt_verify now rq db keys = (Inr u, keys') \<and> allows eff perm \<and>
     (pr_kind u = ''service_account'' \<or>
      (\<exists>x \<in> set (sd_users db). us_id x = pr_id u \<and> us_status x = ''active'') \<and> \<not> unrelated adb (pr_id u) (pr_ws u) (pr_proj u))"
proof -
  obtain u keys' where u: "requireUser env jwt_verify now rq db keys = (Inr u, keys')"
      "eff = resolveEffectivePermissions adb now (Some u) (pr_proj u) [] []" "allows eff perm"
    using guarded_ok [OF assms] by blast
  have "pr_kind u = ''service_account'' \<or>
      (\<exists>x \<in> set (sd_users db). us_id x = pr_id u \<and> us_status x = ''active'') \<and> \<not> unrelated adb (pr_id u) (pr_ws u) (pr_proj u)"
  proof (cases "pr_kind u = ''service_account''")
    case False
    from requireUser_user [OF u(1) False] obtain x :: user_row and c where
      x: "x \<in> set (sd_users db)" "us_status x = ''active''" "u = user_principal rq c x" by blast
    have "\<not> unrelated adb (pr_id u) (pr_ws u) (pr_proj u)"
    proof
      assume "unrelated adb (pr_id u) (pr_ws u) (pr_proj u)"
      then have "eff = []" using unrelated_nothing [of adb u "pr_proj u" now] False u(2) by simp
      with u(3) show False by (simp add: allows_def)
    qed
    with x show ?thesis by (auto simp: user_principal_def)
  qed simp
  with u show ?thesis by blast
qed

definition sample_auth_db :: auth_db where
  "sample_auth_db = \<lparr>ad_ws_members = [(''u1'', ''w'', ''viewer'')], ad_users = [], ad_proj_members = [(''u1'', ''p1'', ''editor'')],
     ad_role_grants = [], ad_custom_roles = [], ad_jit = [], ad_resource = []\<rparr>"

definition sample_claims :: claims where
  "sample_claims = \<lparr>cl_sub = ''u1'', cl_email = ''a'', cl_role = ''editor'', cl_ws = ''w'', cl_proj = Some ''p1''\<rparr>"

definition sample_eff :: "string list" where
  "sample_eff = resolveEffectivePermissions sample_auth_db 5
     (Some (user_principal (bearer ''jwt'' []) sample_claims (hd (sd_users sample_users)))) ''p1'' [] []"

theorem guarded_routes_are_closed_witness:
  "\<exists>u keys'. requireUser plain_sha (\<lambda>_ _. Inr sample_claims) 5 (bearer ''jwt'' []) sample_users sample_keys = (Inr u, keys')
     \<and> allows sample_eff ''workflow.run''"
proof -
  have "guarded plain_sha (\<lambda>_ _. Inr sample_claims) 5 (bearer ''jwt'' []) ''workflow.run'' sample_users sample_keys sample_auth_db
      = Inr sample_eff"
    by code_simp
  from guarded_routes_are_closed [OF this] show ?thesis by blast
qed

text \<open>For a user, the project is whatever the header says: the comment in \<open>requireUser\<close> announces a check that
  the user belongs to it, but none is made, so routes that only check the workspace role serve any
  project id.\<close>

lemma header_project_unchecked:
  "pr_proj (user_principal (bearer token p) c u) =
     (if p \<noteq> [] then p else case cl_proj c of None \<Rightarrow> [] | Some q \<Rightarrow> q)
   \<and> map_option pr_proj (case fst (requireUser plain_sha (\<lambda>_ _. Inr sample_claims) 5 (bearer ''jwt'' ''not-mine'') sample_users sample_keys) of
        Inl _ \<Rightarrow> None | Inr v \<Rightarrow> Some v) = Some ''not-mine''
   \<and> requireRole [''admin'', ''editor''] (case fst (requireUser plain_sha (\<lambda>_ _. Inr sample_claims) 5 (bearer ''jwt'' ''not-mine'') sample_users sample_keys) of
        Inl _ \<Rightarrow> None | Inr v \<Rightarrow> Some v) = Inr ()"
proof (intro conjI)
  show "pr_proj (user_principal (bearer token p) c u) = (if p \<noteq> [] then p else case cl_proj c of None \<Rightarrow> [] | Some q \<Rightarrow> q)"
    by (simp add: user_principal_def bearer_def)
qed code_simp+

end
