(* ===== verification/RateLimit.thy ===== *)
theory RateLimit
  imports JsString
begin

text \<open>
  \<open>backend/src/middleware/rateLimit.js\<close>: the thresholds read from the environment and the key
  generators that put requests into buckets.  The counters themselves are the package
  express-rate-limit with its Redis store.
\<close>

definition rl_n :: "(string \<Rightarrow> string option) \<Rightarrow> string \<Rightarrow> int \<Rightarrow> int" where
  "rl_n env name fallback =
     (case env name of None \<Rightarrow> fallback
      | Some v \<Rightarrow> if v = [] then fallback
                  else case parse_int v of None \<Rightarrow> fallback | Some x \<Rightarrow> if 0 < x then x else fallback)"

record rate_limits =
  rl_global :: int
  rl_login :: int
  rl_loginByEmail :: int
  rl_refresh :: int
  rl_execute :: int
  rl_ai :: int
  rl_webhook :: int

definition LIMITS :: "(string \<Rightarrow> string option) \<Rightarrow> rate_limits" where
  "LIMITS env =
     \<lparr>rl_global = rl_n env ''RATE_LIMIT_GLOBAL_PER_MIN'' 600,
      rl_login = rl_n env ''RATE_LIMIT_LOGIN_PER_MIN'' 10,
      rl_loginByEmail = rl_n env ''RATE_LIMIT_LOGIN_PER_EMAIL_PER_MIN'' 5,
      rl_refresh = rl_n env ''RATE_LIMIT_REFRESH_PER_MIN'' 30,
      rl_execute = rl_n env ''RATE_LIMIT_EXECUTE_PER_MIN'' 60,
      rl_ai = rl_n env ''RATE_LIMIT_AI_PER_MIN'' 30,
      rl_webhook = rl_n env ''RATE_LIMIT_WEBHOOK_PER_MIN'' 60\<rparr>"

text \<open>The request, as far as the key generators read it; empty strings are absent values.\<close>

record rl_request =
  rq_ip :: string
  rq_remote :: string
  rq_user :: string
  rq_email :: js
  rq_hook :: string

fun pad_hextets :: "nat \<Rightarrow> string list \<Rightarrow> string list" where
  "pad_hextets 0 hs = hs"
| "pad_hextets (Suc k) hs = (if length hs < 4 then pad_hextets k (hs @ [''0'']) else hs)"

definition ipKeyOf :: "rl_request \<Rightarrow> string" where
  "ipKeyOf rq =
     (let ip = (if rq_ip rq \<noteq> [] then rq_ip rq else if rq_remote rq \<noteq> [] then rq_remote rq else ''unknown'') in
      if CHR '':'' \<in> set ip
      then join_str '':'' (pad_hextets 4 (take 4 (split_str '':'' ip))) @ ''::/64''
      else ip)"

definition userKey :: "rl_request \<Rightarrow> string" where
  "userKey rq = (if rq_user rq \<noteq> [] then ''u:'' @ rq_user rq else ipKeyOf rq)"

definition emailKey :: "rl_request \<Rightarrow> string" where
  "emailKey rq =
     (let e = lower_str (trim (if truthy (rq_email rq) then js_string (rq_email rq) else [])) in
      if e \<noteq> [] then ''e:'' @ e else ipKeyOf rq)"

definition webhookKey :: "rl_request \<Rightarrow> string" where
  "webhookKey rq = ''w:'' @ (if rq_hook rq \<noteq> [] then rq_hook rq else ''unknown'') @ '':'' @ ipKeyOf rq"

text \<open>The value of \<open>String(process.env.RATE_LIMIT_ENABLED ?? "true").toLowerCase() !== "false"\<close>.\<close>

definition rl_enabled :: "(string \<Rightarrow> string option) \<Rightarrow> bool" where
  "rl_enabled env = (lower_str (case env ''RATE_LIMIT_ENABLED'' of None \<Rightarrow> ''true'' | Some v \<Rightarrow> v) \<noteq> ''false'')"

section \<open>Lemmas\<close>

lemma rl_n_pos: "0 < fallback \<Longrightarrow> 0 < rl_n env name fallback"
  by (auto simp: rl_n_def split: option.splits)

lemma LIMITS_pos:
  "0 < rl_global (LIMITS env) \<and> 0 < rl_login (LIMITS env) \<and> 0 < rl_loginByEmail (LIMITS env) \<and> 0 < rl_refresh (LIMITS env)
   \<and> 0 < rl_execute (LIMITS env) \<and> 0 < rl_ai (LIMITS env) \<and> 0 < rl_webhook (LIMITS env)"
  by (simp add: LIMITS_def rl_n_pos)

text \<open>An IPv6 address written out in full.\<close>

definition full_v6 :: "string list \<Rightarrow> bool" where
  "full_v6 hs = (length hs = 8 \<and> list_all (\<lambda>h. h \<noteq> [] \<and> CHR '':'' \<notin> set h) hs)"

definition from_ip :: "string \<Rightarrow> rl_request" where
  "from_ip ip = \<lparr>rq_ip = ip, rq_remote = [], rq_user = [], rq_email = JUndef, rq_hook = []\<rparr>"

lemma join_str_inj:
  assumes "join_str [d] xs = join_str [d] ys" "xs \<noteq> []" "ys \<noteq> []"
    and "\<And>x. x \<in> set xs \<Longrightarrow> d \<notin> set x" "\<And>x. x \<in> set ys \<Longrightarrow> d \<notin> set x"
  shows "xs = ys"
proof -
  have "xs = split_str [d] (join_str [d] xs)" by (rule split_join_str [OF assms(2,4), symmetric])
  also have "\<dots> = split_str [d] (join_str [d] ys)" by (rule arg_cong [OF assms(1)])
  also have "\<dots> = ys" by (rule split_join_str [OF assms(3,5)])
  finally show ?thesis .
qed

lemma ipKey_full:
  assumes "full_v6 hs"
  shows "ipKeyOf (from_ip (join_str '':'' hs)) = join_str '':'' (take 4 hs) @ ''::/64''"
proof -
  have ne: "hs \<noteq> []" "1 < length hs" and nc: "\<And>x. x \<in> set hs \<Longrightarrow> CHR '':'' \<notin> set x"
    using assms by (auto simp: full_v6_def list_all_iff)
  obtain a b rest where hs: "hs = a # b # rest" using ne by (cases hs; cases "tl hs") auto
  have "join_str '':'' hs \<noteq> []" "CHR '':'' \<in> set (join_str '':'' hs)" by (simp_all add: hs)
  moreover have "split_str '':'' (join_str '':'' hs) = hs" by (rule split_join_str [OF ne(1) nc])
  moreover have "pad_hextets 4 (take 4 hs) = take 4 hs"
    using assms by (simp add: full_v6_def eval_nat_numeral)
  ultimately show ?thesis by (simp add: ipKeyOf_def from_ip_def Let_def)
qed

lemma email_bucket:
  "rq_email r = JStr e \<Longrightarrow> rq_email r' = JStr e' \<Longrightarrow> lower_str (trim e) = lower_str (trim e') \<Longrightarrow> lower_str (trim e) \<noteq> []
   \<Longrightarrow> emailKey r = emailKey r'"
proof -
  assume r: "rq_email r = JStr e" "rq_email r' = JStr e'" and eq: "lower_str (trim e) = lower_str (trim e')"
    and ne: "lower_str (trim e) \<noteq> []"
  have "e \<noteq> []" "e' \<noteq> []" using ne eq by (auto simp: lower_str_def)
  then show ?thesis using r eq ne by (simp add: emailKey_def Let_def)
qed

section \<open>Buckets\<close>

text \<open>Two IPv6 addresses written out in full share a bucket exactly when their first four groups are the same,
  so an attacker cannot leave a bucket by moving inside one /64.\<close>

theorem v6_bucket_is_the_prefix:
  assumes "full_v6 hs" "full_v6 hs'"
  shows "ipKeyOf (from_ip (join_str '':'' hs)) = ipKeyOf (from_ip (join_str '':'' hs')) \<longleftrightarrow> take 4 hs = take 4 hs'"
proof -
  have t: "take 4 hs \<noteq> []" "take 4 hs' \<noteq> []" using assms by (auto simp: full_v6_def)
  have "CHR '':'' \<notin> set x" if "x \<in> set (take 4 hs) \<or> x \<in> set (take 4 hs')" for x
    using that assms by (auto simp: full_v6_def list_all_iff dest: in_set_takeD)
  then have "join_str '':'' (take 4 hs) = join_str '':'' (take 4 hs') \<longleftrightarrow> take 4 hs = take 4 hs'"
    using join_str_inj [OF _ t, of "CHR '':''"] by auto
  then show ?thesis by (simp add: ipKey_full [OF assms(1)] ipKey_full [OF assms(2)])
qed

theorem v6_bucket_is_the_prefix_witness:
  "ipKeyOf (from_ip (join_str '':'' [''2001'', ''db8'', ''0'', ''1'', ''0'', ''0'', ''0'', ''9'']))
   = ipKeyOf (from_ip (join_str '':'' [''2001'', ''db8'', ''0'', ''1'', ''ff'', ''0'', ''0'', ''7'']))"
  by (rule iffD2 [OF v6_bucket_is_the_prefix]) (simp_all add: full_v6_def)

text \<open>The usual compressed form defeats it: two hosts of one /64 get two buckets, because the groups after
  \<open>::\<close> are taken for groups of the prefix.\<close>

lemma compressed_v6_splits_a_prefix:
  "ipKeyOf (from_ip ''2001:db8::1'') = ''2001:db8::1::/64'' \<and> ipKeyOf (from_ip ''2001:db8::2'') = ''2001:db8::2::/64''
   \<and> ipKeyOf (from_ip ''2001:db8:0:0:0:0:0:1'') = ipKeyOf (from_ip ''2001:db8:0:0:0:0:0:2'')"
  by (intro conjI) code_simp+

end
