(* ===== verification/PluginGrants.thy ===== *)
theory PluginGrants
  imports Errors Workflow
begin

text \<open>
  \<open>backend/src/auth/pluginGrants.js\<close>: which plugins a project may call.  The tables \<open>plugins\<close> and
  \<open>project_plugin_grants\<close> are maps from their keys; sets of names are lists without repetition in the
  order of insertion.
\<close>

record plugin_row =
  pl_source :: string
  pl_enabled :: bool

record grant_row =
  gr_enabled :: bool
  gr_by :: string

record plugin_db =
  pd_plugins :: "(string, plugin_row) omap"
  pd_grants :: "(string \<times> string, grant_row) omap"

definition set_add :: "'a \<Rightarrow> 'a list \<Rightarrow> 'a list" where
  "set_add x xs = (if x \<in> set xs then xs else xs @ [x])"

definition getEnabledPluginsForProject :: "string \<Rightarrow> plugin_db \<Rightarrow> string list" where
  "getEnabledPluginsForProject proj db =
     (if proj = [] then []
      else (let core = map fst (filter (\<lambda>r. pl_source (snd r) = ''core'' \<and> pl_enabled (snd r)) (pd_plugins db));
                granted = map (snd \<circ> fst) (filter (\<lambda>r. fst (fst r) = proj \<and> gr_enabled (snd r)) (pd_grants db))
            in fold set_add granted (fold set_add core [])))"

definition not_granted_error :: "string list \<Rightarrow> js_error" where
  "not_granted_error missing =
     \<lparr>e_message = ''plugins not enabled in this project: '' @ join_str '', '' missing
        @ ''. Ask a project admin to enable them at /project-plugins.'',
      e_code = Some ''PLUGINS_NOT_GRANTED'', e_status = Some 403, e_details = JArr (map JStr missing)\<rparr>"

definition validatePluginGrants :: "workflow \<Rightarrow> string \<Rightarrow> plugin_db \<Rightarrow> unit js_result" where
  "validatePluginGrants w proj db =
     (if proj = [] then Inr ()
      else (let allowed = getEnabledPluginsForProject proj db;
                referenced = fold set_add (map n_action (w_nodes w)) [];
                missing = filter (\<lambda>a. a \<notin> set allowed) referenced
            in if missing = [] then Inr () else Inl (not_granted_error missing)))"

definition upsert_grant :: "string \<times> string \<Rightarrow> bool \<times> string \<Rightarrow> (string \<times> string, grant_row) omap \<Rightarrow> (string \<times> string, grant_row) omap" where
  "upsert_grant = upsert (\<lambda>(e, b). \<lparr>gr_enabled = e, gr_by = b\<rparr>) (\<lambda>(e, b) r. r\<lparr>gr_enabled := e, gr_by := b\<rparr>)"

text \<open>\<open>enabled\<close> is None for the source's null.\<close>

definition setProjectPluginEnabled ::
  "string \<Rightarrow> string \<Rightarrow> bool option \<Rightarrow> string \<Rightarrow> plugin_db \<Rightarrow> js js_result \<times> plugin_db" where
  "setProjectPluginEnabled proj plugin enabled grantedBy db =
     (if proj = [] \<or> plugin = [] then (Inl (plain_error ''projectId and pluginName are required''), db)
      else case enabled of
        None \<Rightarrow> (Inr (JObj [(''removed'', JBool True)]), db\<lparr>pd_grants := odel (proj, plugin) (pd_grants db)\<rparr>)
      | Some e \<Rightarrow> (Inr (JObj [(''enabled'', JBool e)]),
                   db\<lparr>pd_grants := upsert_grant (proj, plugin) (e, grantedBy) (pd_grants db)\<rparr>))"

section \<open>Lemmas\<close>

interpretation grants: upsert_table "\<lambda>m k. oget m k" upsert_grant
  "\<lambda>(e, b). \<lparr>gr_enabled = e, gr_by = b\<rparr>" "\<lambda>(e, b) r. r\<lparr>gr_enabled := e, gr_by := b\<rparr>"
  by unfold_locales (simp add: upsert_grant_def)

lemma set_fold_add: "set (fold set_add xs acc) = set acc \<union> set xs"
  by (induction xs arbitrary: acc) (auto simp: set_add_def)

definition is_core :: "plugin_db \<Rightarrow> string \<Rightarrow> bool" where
  "is_core db p = (\<exists>r \<in> set (pd_plugins db). fst r = p \<and> pl_source (snd r) = ''core'' \<and> pl_enabled (snd r))"

definition is_granted :: "plugin_db \<Rightarrow> string \<Rightarrow> string \<Rightarrow> bool" where
  "is_granted db proj p = (case oget (pd_grants db) (proj, p) of None \<Rightarrow> False | Some r \<Rightarrow> gr_enabled r)"

lemma granted_row:
  assumes d: "distinct (okeys (pd_grants db))"
  shows "is_granted db proj p \<longleftrightarrow> (\<exists>r \<in> set (pd_grants db). fst r = (proj, p) \<and> gr_enabled (snd r))"
proof -
  have row: "((proj, p), x) \<in> set (pd_grants db) \<longleftrightarrow> oget (pd_grants db) (proj, p) = Some x" for x
    using map_of_eq_Some_iff [OF d] by simp
  have "is_granted db proj p \<longleftrightarrow> (\<exists>x. oget (pd_grants db) (proj, p) = Some x \<and> gr_enabled x)"
    by (auto simp: is_granted_def split: option.splits)
  then show ?thesis unfolding row [symmetric] by force
qed

lemma enabled_iff:
  "distinct (okeys (pd_grants db)) \<Longrightarrow> proj \<noteq> [] \<Longrightarrow>
   p \<in> set (getEnabledPluginsForProject proj db) \<longleftrightarrow> is_core db p \<or> is_granted db proj p"
  by (simp add: getEnabledPluginsForProject_def Let_def set_fold_add granted_row)
     (force simp: is_core_def)

lemma validate_ok_iff:
  "distinct (okeys (pd_grants db)) \<Longrightarrow> proj \<noteq> [] \<Longrightarrow>
   validatePluginGrants w proj db = Inr () \<longleftrightarrow>
     list_all (\<lambda>n. is_core db (n_action n) \<or> is_granted db proj (n_action n)) (w_nodes w)"
  using enabled_iff [of db proj]
  by (auto simp: validatePluginGrants_def Let_def set_fold_add filter_empty_conv list_all_iff)

lemma set_keeps_distinct:
  "distinct (okeys (pd_grants db)) \<Longrightarrow> distinct (okeys (pd_grants (snd (setProjectPluginEnabled proj p e b db))))"
  by (auto simp: setProjectPluginEnabled_def upsert_grant_def distinct_upsert distinct_odel split: option.splits)

lemma granted_after_set:
  assumes "setProjectPluginEnabled proj p e b db = (Inr v, db')"
  shows "is_granted db' proj' p' = (if proj' = proj \<and> p' = p then e = Some True else is_granted db proj' p')"
    "is_core db' p' = is_core db p'"
  using assms
  by (auto simp: setProjectPluginEnabled_def is_granted_def is_core_def grants.look_ups split: if_splits option.splits)

section \<open>Who may call what\<close>

text \<open>A workflow passes the grant check of a project exactly when every action it names is an enabled core
  plugin or is granted to that project.\<close>

theorem grants_checked_exactly:
  assumes "distinct (okeys (pd_grants db))" "proj \<noteq> []"
  shows "validatePluginGrants w proj db = Inr () \<longleftrightarrow>
     list_all (\<lambda>n. is_core db (n_action n) \<or> is_granted db proj (n_action n)) (w_nodes w)"
  by (rule validate_ok_iff [OF assms])

definition sample_plugins :: plugin_db where
  "sample_plugins = \<lparr>pd_plugins = [(''log'', \<lparr>pl_source = ''core'', pl_enabled = True\<rparr>), (''sap'', \<lparr>pl_source = ''local'', pl_enabled = True\<rparr>)],
     pd_grants = [((''p1'', ''sap''), \<lparr>gr_enabled = True, gr_by = ''u1''\<rparr>)]\<rparr>"

theorem grants_checked_exactly_witness:
  "validatePluginGrants (decode_workflow (JObj [(''nodes'', JArr [JObj [(''action'', JStr ''sap'')], JObj [(''action'', JStr ''log'')]])]))
     ''p1'' sample_plugins = Inr ()"
  by (rule iffD2 [OF grants_checked_exactly]) code_simp+

end
