(* ===== verification/Quotas.thy ===== *)
theory Quotas
  imports Errors
begin

text \<open>
  \<open>backend/src/auth/quotas.js\<close>: limits and usage counters of a project.  The tables are maps from
  their primary keys; the clock holds the dates Postgres computes for \<open>date_trunc('month', NOW())\<close>
  and \<open>CURRENT_DATE\<close>, as day numbers.  Usage is a BIGINT column: an increment that leaves its range
  makes the query fail, and \<open>incrementUsage\<close> swallows the failure.  The second half interleaves
  checks and increments of several callers.
\<close>

section \<open>Tables\<close>

record clock =
  ck_month :: nat
  ck_day :: nat

record quota_row =
  qr_limit :: int
  qr_period :: string

type_synonym usage_key = "string \<times> string \<times> nat"

record quota_db =
  qd_quotas :: "(string \<times> string, quota_row) omap"
  qd_usage :: "(usage_key, int) omap"

record quota_snapshot =
  sn_kind :: string
  sn_limit :: "int option"
  sn_usage :: int
  sn_period :: string
  sn_remaining :: "int option"

section \<open>Periods\<close>

definition periodStartForKind :: "string \<Rightarrow> string js_result" where
  "periodStartForKind kind =
     (if kind = ''tokens_per_month'' then Inr ''month''
      else if kind = ''executions_per_day'' then Inr ''day''
      else if kind = ''storage_bytes'' then Inr ''none''
      else Inl (plain_error (''unknown quota kind: '' @ kind)))"

definition periodStartLiteral :: "clock \<Rightarrow> string \<Rightarrow> nat js_result" where
  "periodStartLiteral now period =
     (if period = ''month'' then Inr (ck_month now)
      else if period = ''day'' then Inr (ck_day now)
      else if period = ''none'' then Inr 0
      else Inl (plain_error (''unknown period: '' @ period)))"

definition usage_bucket :: "clock \<Rightarrow> string \<Rightarrow> string \<Rightarrow> usage_key js_result" where
  "usage_bucket now proj kind =
     res_bind (periodStartForKind kind) (\<lambda>p. res_bind (periodStartLiteral now p) (\<lambda>d. Inr (proj, kind, d)))"

section \<open>Reads\<close>

definition getQuota :: "string \<Rightarrow> string \<Rightarrow> quota_db \<Rightarrow> quota_row option" where
  "getQuota proj kind db = (if proj = [] then None else oget (qd_quotas db) (proj, kind))"

definition usage_at :: "quota_db \<Rightarrow> usage_key \<Rightarrow> int" where
  "usage_at db k = (case oget (qd_usage db) k of None \<Rightarrow> 0 | Some n \<Rightarrow> n)"

definition getCurrentUsage :: "clock \<Rightarrow> string \<Rightarrow> string \<Rightarrow> quota_db \<Rightarrow> int js_result" where
  "getCurrentUsage now proj kind db =
     (if proj = [] then Inr 0 else res_bind (usage_bucket now proj kind) (\<lambda>k. Inr (usage_at db k)))"

definition getQuotaSnapshot :: "clock \<Rightarrow> string \<Rightarrow> string \<Rightarrow> quota_db \<Rightarrow> quota_snapshot js_result" where
  "getQuotaSnapshot now proj kind db =
     res_bind (getCurrentUsage now proj kind db) (\<lambda>used.
       case getQuota proj kind db of
         Some q \<Rightarrow> res_bind (if qr_period q \<noteq> [] then Inr (qr_period q) else periodStartForKind kind) (\<lambda>p.
           Inr \<lparr>sn_kind = kind, sn_limit = Some (qr_limit q), sn_usage = used, sn_period = p,
                sn_remaining = Some (max 0 (qr_limit q - used))\<rparr>)
       | None \<Rightarrow> res_bind (periodStartForKind kind) (\<lambda>p.
           Inr \<lparr>sn_kind = kind, sn_limit = None, sn_usage = used, sn_period = p, sn_remaining = None\<rparr>))"

section \<open>Increments\<close>

definition in_bigint :: "int \<Rightarrow> bool" where
  "in_bigint i = (- (2 ^ 63) \<le> i \<and> i < 2 ^ 63)"

definition add_usage :: "usage_key \<Rightarrow> int \<Rightarrow> (usage_key, int) omap \<Rightarrow> (usage_key, int) omap" where
  "add_usage = upsert (\<lambda>d. d) (\<lambda>d u. u + d)"

definition incrementUsage :: "clock \<Rightarrow> string \<Rightarrow> string \<Rightarrow> int \<Rightarrow> quota_db \<Rightarrow> unit js_result \<times> quota_db" where
  "incrementUsage now proj kind delta db =
     (if proj = [] \<or> delta = 0 then (Inr (), db)
      else case usage_bucket now proj kind of
             Inl e \<Rightarrow> (Inl e, db)
           | Inr k \<Rightarrow>
               if in_bigint delta \<and> in_bigint (usage_at db k + delta)
               then (Inr (), db\<lparr>qd_usage := add_usage k delta (qd_usage db)\<rparr>) else (Inr (), db))"

section \<open>The gate\<close>

definition quota_exceeded_error :: "quota_snapshot \<Rightarrow> int \<Rightarrow> js_error" where
  "quota_exceeded_error sn cap =
     \<lparr>e_message = ''quota exceeded for '' @ quoted (sn_kind sn) @ '' in this project: '' @ show_int (sn_usage sn)
        @ '' / '' @ show_int cap @ '' this '' @ sn_period sn
        @ ''. Ask a workspace admin to raise the limit at /quotas.'',
      e_code = Some ''QUOTA_EXCEEDED'', e_status = Some 429, e_details = JUndef\<rparr>"

definition assertQuota :: "clock \<Rightarrow> string \<Rightarrow> string \<Rightarrow> quota_db \<Rightarrow> (quota_snapshot option) js_result" where
  "assertQuota now proj kind db =
     (if proj = [] then Inr None
      else res_bind (getQuotaSnapshot now proj kind db) (\<lambda>sn.
        case sn_limit sn of
          None \<Rightarrow> Inr (Some sn)
        | Some cap \<Rightarrow> if cap \<le> sn_usage sn then Inl (quota_exceeded_error sn cap) else Inr (Some sn)))"

definition checkAndIncrement :: "clock \<Rightarrow> string \<Rightarrow> string \<Rightarrow> int \<Rightarrow> quota_db \<Rightarrow> unit js_result \<times> quota_db" where
  "checkAndIncrement now proj kind delta db =
     (case assertQuota now proj kind db of
        Inl e \<Rightarrow> (Inl e, db)
      | Inr _ \<Rightarrow> incrementUsage now proj kind delta db)"

definition KNOWN_KINDS :: "string list" where
  "KNOWN_KINDS = [''tokens_per_month'', ''executions_per_day'', ''storage_bytes'']"

definition listSnapshots :: "clock \<Rightarrow> string \<Rightarrow> quota_db \<Rightarrow> (quota_snapshot list) js_result" where
  "listSnapshots now proj db = res_map (\<lambda>k. getQuotaSnapshot now proj k db) KNOWN_KINDS"

section \<open>Lemmas\<close>

interpretation usage: upsert_table "\<lambda>m k. oget m k" add_usage "\<lambda>d::int. d" "\<lambda>d u. u + d"
  by unfold_locales (simp add: add_usage_def)

lemma usage_at_add: "usage_at (db\<lparr>qd_usage := add_usage k d (qd_usage db)\<rparr>) k' = usage_at db k' + (if k' = k then d else 0)"
  by (simp add: usage_at_def usage.look_ups split: option.splits)

text \<open>Two increments, in either order, leave the same usage: nothing is lost to interleaving.\<close>

lemma add_usage_commute:
  "oget (add_usage k d (add_usage l e m)) k' = oget (add_usage l e (add_usage k d m)) k'"
proof (cases "k = l")
  case True
  then show ?thesis by (auto simp: usage.look_ups split: option.splits)
next
  case False
  then show ?thesis by (rule usage.writes_commute)
qed

lemma known_bucket: "kind \<in> set KNOWN_KINDS \<Longrightarrow> \<exists>d. usage_bucket now proj kind = Inr (proj, kind, d)"
  by (auto simp: KNOWN_KINDS_def usage_bucket_def periodStartForKind_def periodStartLiteral_def)

lemma unknown_kind: "kind \<notin> set KNOWN_KINDS \<Longrightarrow> \<exists>e. periodStartForKind kind = Inl e"
  by (auto simp: KNOWN_KINDS_def periodStartForKind_def)

lemma snapshot_known:
  assumes "kind \<in> set KNOWN_KINDS" "proj \<noteq> []" "usage_bucket now proj kind = Inr k"
  shows "\<exists>p. getQuotaSnapshot now proj kind db = Inr \<lparr>sn_kind = kind,
     sn_limit = map_option qr_limit (getQuota proj kind db), sn_usage = usage_at db k, sn_period = p,
     sn_remaining = map_option (\<lambda>q. max 0 (qr_limit q - usage_at db k)) (getQuota proj kind db)\<rparr>"
  using assms
  by (auto simp: KNOWN_KINDS_def getQuotaSnapshot_def getCurrentUsage_def periodStartForKind_def split: option.splits)

text \<open>The gate refuses exactly when a limit is set and reached.\<close>

lemma assertQuota_iff:
  assumes "kind \<in> set KNOWN_KINDS" "proj \<noteq> []" "usage_bucket now proj kind = Inr k"
  shows "(\<exists>sn. assertQuota now proj kind db = Inr sn) \<longleftrightarrow>
     (\<forall>q. getQuota proj kind db = Some q \<longrightarrow> usage_at db k < qr_limit q)"
  using snapshot_known [OF assms, of db] assms(2)
  by (auto simp: assertQuota_def split: option.splits if_splits)

lemma increment_usage:
  "incrementUsage now proj kind d db = (r, db') \<Longrightarrow> usage_bucket now proj kind = Inr k \<Longrightarrow>
   qd_quotas db' = qd_quotas db \<and> (\<forall>k'. k' \<noteq> k \<longrightarrow> usage_at db' k' = usage_at db k') \<and>
   (usage_at db' k = usage_at db k + d \<or> usage_at db' k = usage_at db k)"
  by (auto simp: incrementUsage_def usage_at_add split: if_splits)

section \<open>Callers one after the other\<close>

fun quota_calls :: "clock \<Rightarrow> string \<Rightarrow> string \<Rightarrow> int list \<Rightarrow> quota_db \<Rightarrow> quota_db" where
  "quota_calls now proj kind [] db = db"
| "quota_calls now proj kind (d # ds) db = quota_calls now proj kind ds (snd (checkAndIncrement now proj kind d db))"

lemma check_bound:
  assumes "kind \<in> set KNOWN_KINDS" "proj \<noteq> []" "usage_bucket now proj kind = Inr k" "getQuota proj kind db = Some q"
    and "0 \<le> d" "d \<le> dmax" "usage_at db k \<le> max u0 (qr_limit q - 1 + dmax)"
  shows "usage_at (snd (checkAndIncrement now proj kind d db)) k \<le> max u0 (qr_limit q - 1 + dmax)
     \<and> getQuota proj kind (snd (checkAndIncrement now proj kind d db)) = Some q"
proof (cases "assertQuota now proj kind db")
  case (Inl e)
  then show ?thesis using assms by (simp add: checkAndIncrement_def)
next
  case (Inr sn)
  then have lt: "usage_at db k < qr_limit q" using assertQuota_iff [OF assms(1-3), of db] assms(4) by blast
  obtain r db' where i: "incrementUsage now proj kind d db = (r, db')" by (cases "incrementUsage now proj kind d db")
  from increment_usage [OF i assms(3)] lt assms(4-7) show ?thesis
    by (auto simp: checkAndIncrement_def Inr i getQuota_def)
qed

lemma calls_bound:
  "kind \<in> set KNOWN_KINDS \<Longrightarrow> proj \<noteq> [] \<Longrightarrow> usage_bucket now proj kind = Inr k \<Longrightarrow> getQuota proj kind db = Some q \<Longrightarrow>
   list_all (\<lambda>d. 0 \<le> d \<and> d \<le> dmax) ds \<Longrightarrow> usage_at db k \<le> max u0 (qr_limit q - 1 + dmax) \<Longrightarrow>
   usage_at (quota_calls now proj kind ds db) k \<le> max u0 (qr_limit q - 1 + dmax)"
proof (induction ds arbitrary: db)
  case (Cons d ds)
  let ?db = "snd (checkAndIncrement now proj kind d db)"
  have "usage_at ?db k \<le> max u0 (qr_limit q - 1 + dmax) \<and> getQuota proj kind ?db = Some q"
    using check_bound [OF Cons.prems(1-4), of d dmax u0] Cons.prems(5,6) by simp
  then show ?case using Cons.IH [OF Cons.prems(1-3), of ?db] Cons.prems(5) by simp
qed simp

section \<open>Callers at the same time\<close>

text \<open>
  Each caller checks, then acts, then increments by one; \<open>pending\<close> counts the callers between their
  check and their increment, of which there are at most \<open>p\<close>.
\<close>

inductive quota_step :: "clock \<Rightarrow> string \<Rightarrow> string \<Rightarrow> nat \<Rightarrow> quota_db \<times> nat \<Rightarrow> quota_db \<times> nat \<Rightarrow> bool"
  for now proj kind p where
  checked: "pending < p \<Longrightarrow> assertQuota now proj kind db = Inr sn \<Longrightarrow>
    quota_step now proj kind p (db, pending) (db, Suc pending)"
| counted: "incrementUsage now proj kind 1 db = (Inr (), db') \<Longrightarrow>
    quota_step now proj kind p (db, Suc pending) (db', pending)"

lemma quota_step_bound:
  assumes st: "quota_step now proj kind p (db, n) (db', n')"
    and k: "kind \<in> set KNOWN_KINDS" "proj \<noteq> []" "usage_bucket now proj kind = Inr k"
    and q: "getQuota proj kind db = Some q" "n \<le> p" "usage_at db k + int n \<le> max u0 (qr_limit q - 1 + int p)"
  shows "getQuota proj kind db' = Some q \<and> n' \<le> p \<and> usage_at db' k + int n' \<le> max u0 (qr_limit q - 1 + int p)"
  using st
proof cases
  case (checked sn)
  then have "usage_at db k < qr_limit q" using assertQuota_iff [OF k, of db] q(1) by blast
  with checked q show ?thesis by simp
next
  case counted
  from increment_usage [OF counted(2) k(3)] counted q show ?thesis by (auto simp: getQuota_def)
qed

lemma quota_reach_bound:
  assumes "(quota_step now proj kind p)\<^sup>*\<^sup>* (db, 0) (db', n')"
    and k: "kind \<in> set KNOWN_KINDS" "proj \<noteq> []" "usage_bucket now proj kind = Inr k"
    and q: "getQuota proj kind db = Some q"
  shows "usage_at db' k + int n' \<le> max (usage_at db k) (qr_limit q - 1 + int p)"
proof -
  have "getQuota proj kind (fst s') = Some q \<and> snd s' \<le> p \<and>
      usage_at (fst s') k + int (snd s') \<le> max (usage_at db k) (qr_limit q - 1 + int p)"
    if "(quota_step now proj kind p)\<^sup>*\<^sup>* (db, 0) s'" for s'
    using that
  proof (induction rule: rtranclp_induct)
    case base
    then show ?case using q by simp
  next
    case (step y z)
    then show ?case using quota_step_bound [OF _ k, of _ _ _ _ _ q "usage_at db k"] by (cases y, cases z) fastforce
  qed
  from this [OF assms(1)] show ?thesis by simp
qed

section \<open>What the gate guarantees\<close>

text \<open>C17.  Callers one after the other: however many calls are made in a period, usage never passes the limit
  by more than one call's amount; it stays at most \<open>limit - 1 + max\<close>, unless it was above that before.\<close>

theorem quota_admission_bound:
  assumes "kind \<in> set KNOWN_KINDS" "proj \<noteq> []" "usage_bucket now proj kind = Inr k" "getQuota proj kind db = Some q"
    and "list_all (\<lambda>d. 0 \<le> d \<and> d \<le> dmax) ds" "0 \<le> dmax"
  shows "usage_at (quota_calls now proj kind ds db) k \<le> max (usage_at db k) (qr_limit q - 1 + dmax)"
  by (rule calls_bound [OF assms(1-5)]) simp

definition sample_quota :: quota_db where
  "sample_quota = \<lparr>qd_quotas = [((''p'', ''executions_per_day''), \<lparr>qr_limit = 3, qr_period = ''day''\<rparr>)], qd_usage = []\<rparr>"

theorem quota_admission_bound_witness:
  "usage_at (quota_calls \<lparr>ck_month = 1, ck_day = 7\<rparr> ''p'' ''executions_per_day'' [1, 1, 1, 1, 1] sample_quota)
     (''p'', ''executions_per_day'', 7) \<le> max 0 3"
proof -
  have "usage_at (quota_calls \<lparr>ck_month = 1, ck_day = 7\<rparr> ''p'' ''executions_per_day'' [1, 1, 1, 1, 1] sample_quota)
     (''p'', ''executions_per_day'', 7) \<le> max (usage_at sample_quota (''p'', ''executions_per_day'', 7)) (3 - 1 + 1)"
    using quota_admission_bound [of "''executions_per_day''" "''p''" "\<lparr>ck_month = 1, ck_day = 7\<rparr>"
        "(''p'', ''executions_per_day'', 7)" sample_quota "\<lparr>qr_limit = 3, qr_period = ''day''\<rparr>" 1 "[1, 1, 1, 1, 1]"]
    by (simp add: KNOWN_KINDS_def usage_bucket_def periodStartForKind_def periodStartLiteral_def getQuota_def sample_quota_def)
  then show ?thesis by (simp add: usage_at_def sample_quota_def)
qed

text \<open>Callers at the same time: with at most \<open>p\<close> callers between their check and their increment, the limit is
  overshot by at most \<open>p - 1\<close>.  This is the slack the source accepts instead of locking the row.\<close>

theorem quota_overshoot_bounded:
  assumes "(quota_step now proj kind p)\<^sup>*\<^sup>* (db, 0) (db', n)"
    and "kind \<in> set KNOWN_KINDS" "proj \<noteq> []" "usage_bucket now proj kind = Inr k" "getQuota proj kind db = Some q"
    and "usage_at db k < qr_limit q" "0 < p"
  shows "usage_at db' k \<le> qr_limit q + int p - 1"
  using quota_reach_bound [OF assms(1-5)] assms(6,7) by simp

theorem quota_overshoot_bounded_witness:
  "\<exists>db'. (quota_step \<lparr>ck_month = 1, ck_day = 7\<rparr> ''p'' ''executions_per_day'' 2)\<^sup>*\<^sup>* (sample_quota, 0) (db', 0)
     \<and> usage_at db' (''p'', ''executions_per_day'', 7) \<le> 3 + int 2 - 1"
proof -
  let ?c = "\<lparr>ck_month = 1, ck_day = 7\<rparr>"
  have k: "''executions_per_day'' \<in> set KNOWN_KINDS" "usage_bucket ?c ''p'' ''executions_per_day'' = Inr (''p'', ''executions_per_day'', 7)"
    by (simp_all add: KNOWN_KINDS_def usage_bucket_def periodStartForKind_def periodStartLiteral_def)
  have q: "getQuota ''p'' ''executions_per_day'' sample_quota = Some \<lparr>qr_limit = 3, qr_period = ''day''\<rparr>"
    by (simp add: getQuota_def sample_quota_def)
  have u: "usage_at sample_quota (''p'', ''executions_per_day'', 7) = 0" by (simp add: usage_at_def sample_quota_def)
  obtain sn where a: "assertQuota ?c ''p'' ''executions_per_day'' sample_quota = Inr sn"
    using assertQuota_iff [OF k(1) _ k(2), of sample_quota] q u by auto
  obtain db' where i: "incrementUsage ?c ''p'' ''executions_per_day'' 1 sample_quota = (Inr (), db')"
    using k(2) u by (auto simp: incrementUsage_def in_bigint_def)
  have "(quota_step ?c ''p'' ''executions_per_day'' 2)\<^sup>*\<^sup>* (sample_quota, 0) (db', 0)"
    using checked [OF _ a, of 0 2] counted [OF i, of 2 0] by (meson rtranclp.rtrancl_into_rtrancl rtranclp.rtrancl_refl zero_less_numeral)
  moreover from quota_overshoot_bounded [OF this k(1) _ k(2) q] u
  have "usage_at db' (''p'', ''executions_per_day'', 7) \<le> 3 + int 2 - 1" by simp
  ultimately show ?thesis by blast
qed

end
