(* ===== verification/PiiDetector.thy ===== *)
theory PiiDetector
  imports Errors JsRegex
begin

text \<open>
  The pattern-based PII detector, \<open>guardrails/detectors/pii.js\<close>: the seven patterns with their
  placeholders and their extra tests (the Luhn checksum, a least number of digits), the scan over
  the enabled types, the masked previews that go to the audit log, and the right-to-left
  redaction.  The lemmas show when the redaction is exactly the left-to-right replacement of the
  matches, and what a preview can reveal.
\<close>

section \<open>The patterns\<close>

definition alnum_ranges :: "(char \<times> char) list" where
  "alnum_ranges = [(CHR ''A'', CHR ''Z''), (CHR ''a'', CHR ''z''), (CHR ''0'', CHR ''9'')]"

definition singles :: "string \<Rightarrow> (char \<times> char) list" where
  "singles s = map (\<lambda>c. (c, c)) s"

abbreviation r_rng :: "nat \<Rightarrow> nat \<Rightarrow> re \<Rightarrow> re" where "r_rng lo hi r \<equiv> RRep True lo (Some hi) r"

definition email_re :: regex where
  "email_re = rx (r_seq [RWordB, r_plus (RCls (Cls False (alnum_ranges @ singles ''._%+-''))), r_chr (CHR ''@''),
     r_plus (RCls (Cls False (alnum_ranges @ singles ''.-''))), r_chr (CHR ''.''),
     RRep True 2 None (RCls (Cls False [(CHR ''A'', CHR ''Z''), (CHR ''a'', CHR ''z'')])), RWordB])"

definition phone_sep :: re where
  "phone_sep = r_opt (RCls (Cls False (space_ranges @ singles ''.-'')))"

definition phone_re :: regex where
  "phone_re = rx (r_seq [RWordB,
     r_opt (r_seq [r_opt (r_chr (CHR ''+'')), r_rng 1 3 r_d, phone_sep]),
     r_opt (r_chr (CHR ''('')), r_rng 2 4 r_d, r_opt (r_chr (CHR '')'')), phone_sep,
     r_rng 3 4 r_d, phone_sep, r_rng 3 4 r_d, RWordB])"

definition ssn_re :: regex where
  "ssn_re = rx (r_seq [RWordB, r_rng 3 3 r_d, r_chr (CHR ''-''), r_rng 2 2 r_d, r_chr (CHR ''-''), r_rng 4 4 r_d, RWordB])"

definition card_re :: regex where
  "card_re = rx (r_seq [RWordB, r_rng 12 18 (r_seq [r_d, r_opt (r_set '' -'')]), r_d, RWordB])"

definition octet :: re where
  "octet = r_alt [r_seq [r_lit ''25'', RCls (Cls False [(CHR ''0'', CHR ''5'')])],
     r_seq [r_chr (CHR ''2''), RCls (Cls False [(CHR ''0'', CHR ''4'')]), r_d],
     r_seq [r_opt (r_set ''01''), r_d, r_opt r_d]]"

definition ipv4_re :: regex where
  "ipv4_re = rx (r_seq [RWordB, r_rng 3 3 (r_seq [octet, r_chr (CHR ''.'')]), octet, RWordB])"

definition iban_re :: regex where
  "iban_re = rx (r_seq [RWordB, r_rng 2 2 (RCls (Cls False [(CHR ''A'', CHR ''Z'')])), r_rng 2 2 r_d,
     r_rng 10 30 (RCls (Cls False [(CHR ''A'', CHR ''Z''), (CHR ''0'', CHR ''9'')])), RWordB])"

definition url_re :: regex where
  "url_re = rx_i (r_seq [r_lit ''http'', r_opt (r_chr (CHR ''s'')), r_lit ''://'',
     r_plus (RCls (Cls True (space_ranges @ singles [CHR ''<'', CHR ''>'', CHR 0x22, CHR 0x27])))])"

text \<open>The digits of a value (\<open>value.replace(/\\D/g, "")\<close>) and the checksum.\<close>

definition only_digits :: "string \<Rightarrow> string" where
  "only_digits s = filter is_digit s"

fun luhn_sum :: "bool \<Rightarrow> string \<Rightarrow> nat" where
  "luhn_sum alt [] = 0"
| "luhn_sum alt (c # cs) =
     (let n = digit_val c; m = (if alt then (if 9 < 2 * n then 2 * n - 9 else 2 * n) else n)
      in m + luhn_sum (\<not> alt) cs)"

definition luhn :: "string \<Rightarrow> bool" where
  "luhn s = (let digits = only_digits s in
     13 \<le> length digits \<and> length digits \<le> 19 \<and> luhn_sum False (rev digits) mod 10 = 0)"

record pii_pattern =
  p_label :: js
  p_placeholder :: string
  p_re :: regex
  p_validate :: "string \<Rightarrow> bool"
  p_minDigits :: nat

definition pattern :: "string \<Rightarrow> string \<Rightarrow> regex \<Rightarrow> (string \<Rightarrow> bool) \<Rightarrow> nat \<Rightarrow> pii_pattern" where
  "pattern label holder re valid digits =
     \<lparr>p_label = JStr label, p_placeholder = holder, p_re = re, p_validate = valid, p_minDigits = digits\<rparr>"

definition PATTERNS :: "(string, pii_pattern) omap" where
  "PATTERNS =
     [(''email'', pattern ''Email address'' ''[EMAIL]'' email_re (\<lambda>_. True) 0),
      (''phone'', pattern ''Phone number'' ''[PHONE]'' phone_re (\<lambda>_. True) 10),
      (''ssn'', pattern ''US SSN'' ''[SSN]'' ssn_re (\<lambda>_. True) 0),
      (''credit_card'', pattern ''Credit card'' ''[CREDIT_CARD]'' card_re luhn 0),
      (''ipv4'', pattern ''IPv4 address'' ''[IP]'' ipv4_re (\<lambda>_. True) 0),
      (''iban'', pattern ''IBAN'' ''[IBAN]'' iban_re (\<lambda>_. True) 0),
      (''url'', pattern ''URL'' ''[URL]'' url_re (\<lambda>_. True) 0)]"

text \<open>
  \<open>PATTERNS[type]\<close> also finds the names every object inherits; those values have no \<open>re\<close>, which
  \<open>matchAll\<close> reads as the empty pattern, and no placeholder, which prints as undefined.
\<close>

definition inherited_pattern :: pii_pattern where
  "inherited_pattern = \<lparr>p_label = JUndef, p_placeholder = ''undefined'', p_re = rx REmpty, p_validate = (\<lambda>_. True), p_minDigits = 0\<rparr>"

definition pattern_of :: "string \<Rightarrow> pii_pattern option" where
  "pattern_of ty = (case oget PATTERNS ty of Some p \<Rightarrow> Some p
     | None \<Rightarrow> if ty \<in> set object_prototype_keys then Some inherited_pattern else None)"


section \<open>Previews\<close>

definition stars :: "nat \<Rightarrow> string" where
  "stars n = replicate n (CHR ''*'')"

definition maskValue :: "string \<Rightarrow> string" where
  "maskValue v =
     (if CHR ''@'' \<in> set v then
        (let parts = split_str ''@'' v; loc = parts ! 0; domain = parts ! 1 in
         if loc = [] then v
         else let visible = max 1 (min 2 (length loc - 1))
              in take visible loc @ stars (max 1 (length loc - visible)) @ ''@'' @ domain)
      else if 10 \<le> length (only_digits v) then take 4 v @ stars (max 4 (length v - 8)) @ slice_last 4 v
      else if length v \<le> 4 then ''***''
      else take 2 v @ stars (length v - 4) @ slice_last 2 v)"


section \<open>The scan\<close>

record pii_match =
  m_type :: string
  m_label :: js
  m_index :: nat
  m_length :: nat
  m_preview :: string

definition scan_pattern :: "string \<Rightarrow> string \<Rightarrow> pii_pattern \<Rightarrow> pii_match list" where
  "scan_pattern text ty p =
     concat (map (\<lambda>(b, e, cs).
       let value = slice b e text in
       if \<not> p_validate p value then []
       else if length (only_digits value) < p_minDigits p then []
       else [\<lparr>m_type = ty, m_label = p_label p, m_index = b, m_length = length value, m_preview = maskValue value\<rparr>])
     (match_all (p_re p) text))"

definition scan_type :: "string \<Rightarrow> string \<Rightarrow> pii_match list" where
  "scan_type text ty = (case pattern_of ty of None \<Rightarrow> [] | Some p \<Rightarrow> scan_pattern text ty p)"

text \<open>The types to look for: the configured list when it has a length, all of them otherwise.  A
  string is iterated character by character; an object with a length cannot be iterated.\<close>

definition allowed_types :: "js \<Rightarrow> string list js_result" where
  "allowed_types types =
     (if truthy (js_get types ''length'') then
        (case types of JArr vs \<Rightarrow> Inr (map js_string vs) | JStr s \<Rightarrow> Inr (map (\<lambda>c. [c]) s)
         | _ \<Rightarrow> Inl (plain_error ''allowed is not iterable''))
      else Inr (map fst PATTERNS))"

definition scan :: "string \<Rightarrow> string list \<Rightarrow> pii_match list" where
  "scan text types = concat (map (scan_type text) types)"

definition holder_of :: "string \<Rightarrow> string" where
  "holder_of ty = (case pattern_of ty of None \<Rightarrow> [] | Some p \<Rightarrow> p_placeholder p)"

text \<open>Right-to-left replacement, after a stable sort by descending index.\<close>

definition cut :: "string \<Rightarrow> pii_match \<Rightarrow> string" where
  "cut redacted m = slice 0 (m_index m) redacted @ holder_of (m_type m) @ drop (m_index m + m_length m) redacted"

definition by_index_desc :: "pii_match list \<Rightarrow> pii_match list" where
  "by_index_desc matches = sort_key (\<lambda>m. - int (m_index m)) matches"

definition redact_matches :: "string \<Rightarrow> pii_match list \<Rightarrow> string" where
  "redact_matches text matches = foldl cut text (by_index_desc matches)"

record pii_result =
  r_flagged :: bool
  r_matches :: "(string \<times> js \<times> string) list"
  r_redacted :: "string option"

definition pii_detect :: "string \<Rightarrow> js \<Rightarrow> pii_result js_result" where
  "pii_detect text cfg =
     (if text = [] then Inr \<lparr>r_flagged = False, r_matches = [], r_redacted = None\<rparr>
      else res_bind (allowed_types (js_get cfg ''types'')) (\<lambda>allowed.
        let matches = scan text allowed in
        if matches = [] then Inr \<lparr>r_flagged = False, r_matches = [], r_redacted = None\<rparr>
        else Inr \<lparr>r_flagged = True, r_matches = map (\<lambda>m. (m_type m, m_label m, m_preview m)) matches,
                  r_redacted = Some (redact_matches text matches)\<rparr>))"


section \<open>Right-to-left redaction is left-to-right replacement\<close>

definition m_span :: "pii_match \<Rightarrow> nat \<times> nat" where
  "m_span m = (m_index m, m_index m + m_length m)"

definition replacements :: "pii_match list \<Rightarrow> ((nat \<times> nat) \<times> string) list" where
  "replacements asc = map (\<lambda>m. (m_span m, holder_of (m_type m))) asc"

lemma cut_right_to_left:
  "ordered_spans i (length t) (map m_span asc) \<Longrightarrow>
   foldr (\<lambda>m r. cut r m) asc t = take i t @ splice t i (replacements asc)"
proof (induction asc arbitrary: i)
  case Nil
  then show ?case by (simp add: replacements_def)
next
  case (Cons m asc)
  let ?b = "m_index m" and ?e = "m_index m + m_length m"
  have o: "i \<le> ?b" "?e \<le> length t" "ordered_spans ?e (length t) (map m_span asc)"
    using Cons.prems by (simp_all add: m_span_def [of m])
  have r: "foldr (\<lambda>m r. cut r m) asc t = take ?e t @ splice t ?e (replacements asc)" by (rule Cons.IH [OF o(3)])
  have "slice 0 ?b (take ?e t @ splice t ?e (replacements asc)) = take ?b t"
    using o(2) by (simp add: slice_def)
  moreover have "take ?b t = take i t @ slice i ?b t"
    using o(1) by (simp add: slice_def drop_take flip: take_add)
  ultimately have "cut (take ?e t @ splice t ?e (replacements asc)) m
      = take i t @ slice i ?b t @ holder_of (m_type m) @ splice t ?e (replacements asc)"
    using o(2) by (simp add: cut_def)
  moreover have "replacements (m # asc) = ((?b, ?e), holder_of (m_type m)) # replacements asc"
    by (simp add: replacements_def m_span_def [of m])
  ultimately show ?case by (simp only: foldr.simps o_apply r splice.simps)
qed

theorem redact_disjoint:
  assumes "ordered_spans 0 (length t) (map m_span (rev (by_index_desc matches)))"
  shows "redact_matches t matches = splice t 0 (replacements (rev (by_index_desc matches)))"
  using cut_right_to_left [OF assms] by (simp add: redact_matches_def foldr_conv_foldl)

lemma by_index_desc_rev:
  assumes "sorted_wrt (<) (map m_index matches)"
  shows "by_index_desc matches = rev matches"
  unfolding by_index_desc_def
proof (rule sort_key_strict)
  show "sorted_wrt (<) (map (\<lambda>m. - int (m_index m)) (rev matches))"
    using assms by (simp add: sorted_wrt_map sorted_wrt_rev)
qed simp

text \<open>The matches of one pattern start at increasing places, so their redaction is exact.\<close>

lemma match_all_starts:
  "sorted_wrt (<) (map fst (match_all_fuel x t n i)) \<and> (\<forall>b \<in> set (map fst (match_all_fuel x t n i)). i \<le> b)"
proof (induction n arbitrary: i)
  case 0
  then show ?case by simp
next
  case (Suc n)
  show ?case
  proof (cases "re_exec x t i")
    case None
    then show ?thesis by simp
  next
    case (Some m)
    obtain b e cs where m: "m = (b, e, cs)" by (cases m)
    have b: "i \<le> b \<and> b \<le> e" using re_exec_Some Some m by blast
    let ?j = "if e = b then Suc e else e"
    have j: "b < ?j" "i \<le> ?j" using b by auto
    have "\<forall>a \<in> set (map fst (match_all_fuel x t n ?j)). b < a \<and> i \<le> a"
      using Suc.IH [of ?j] j by (meson le_trans less_le_trans)
    moreover have "sorted_wrt (<) (map fst (match_all_fuel x t n ?j))" using Suc.IH by blast
    ultimately show ?thesis using Some m b by simp
  qed
qed

lemma ordered_filter: "ordered_spans i n (map g xs) \<Longrightarrow> ordered_spans i n (map g (filter P xs))"
proof (induction xs arbitrary: i)
  case (Cons x xs)
  obtain b e where g: "g x = (b, e)" by (cases "g x")
  have "ordered_spans b n (map g (filter P xs))"
    using Cons.IH [of e] Cons.prems g ordered_spans_mono [of e n _ b] by auto
  then show ?case using Cons g ordered_spans_mono [of b n _ i] by auto
qed simp

definition keeps :: "string \<Rightarrow> pii_pattern \<Rightarrow> nat \<times> nat \<times> caps \<Rightarrow> bool" where
  "keeps text p m = (let value = slice (fst m) (fst (snd m)) text in
     p_validate p value \<and> p_minDigits p \<le> length (only_digits value))"

definition to_match :: "string \<Rightarrow> string \<Rightarrow> pii_pattern \<Rightarrow> nat \<times> nat \<times> caps \<Rightarrow> pii_match" where
  "to_match text ty p m = (let value = slice (fst m) (fst (snd m)) text in
     \<lparr>m_type = ty, m_label = p_label p, m_index = fst m, m_length = length value, m_preview = maskValue value\<rparr>)"

lemma scan_pattern_filter: "scan_pattern text ty p = map (to_match text ty p) (filter (keeps text p) (match_all (p_re p) text))"
proof -
  have "concat (map (\<lambda>m. if keeps text p m then [to_match text ty p m] else []) zs) = map (to_match text ty p) (filter (keeps text p) zs)" for zs
    by (induction zs) auto
  moreover have "scan_pattern text ty p = concat (map (\<lambda>m. if keeps text p m then [to_match text ty p m] else []) (match_all (p_re p) text))"
    unfolding scan_pattern_def by (rule arg_cong [of _ _ concat], rule map_cong) (auto simp: keeps_def to_match_def Let_def)
  ultimately show ?thesis by simp
qed

lemma scan_pattern_starts: "sorted_wrt (<) (map m_index (scan_pattern text ty p))"
proof -
  have "sorted_wrt (<) (map fst (match_all (p_re p) text))" unfolding match_all_def using match_all_starts by blast
  then have "sorted_wrt (<) (map fst (filter (keeps text p) (match_all (p_re p) text)))"
    by (simp add: sorted_wrt_map sorted_wrt_filter)
  then show ?thesis by (simp add: scan_pattern_filter to_match_def Let_def comp_def)
qed

lemma scan_pattern_spans:
  "map m_span (scan_pattern text ty p) = map (\<lambda>m. (fst m, fst (snd m))) (filter (keeps text p) (match_all (p_re p) text))"
proof -
  have "m_span (to_match text ty p m) = (fst m, fst (snd m))" if "m \<in> set (match_all (p_re p) text)" for m
  proof -
    have "fst m \<le> fst (snd m) \<and> fst (snd m) \<le> length text"
      using ordered_spans_mem [OF match_all_ordered [of "text" "p_re p"]] that by fastforce
    then show ?thesis by (simp add: m_span_def to_match_def Let_def)
  qed
  then show ?thesis by (simp add: scan_pattern_filter)
qed

lemma redact_one_type: "redact_matches text (scan_pattern text ty p) = splice text 0 (replacements (scan_pattern text ty p))"
proof -
  have rev: "rev (by_index_desc (scan_pattern text ty p)) = scan_pattern text ty p"
    by (simp add: by_index_desc_rev [OF scan_pattern_starts])
  have "ordered_spans 0 (length text) (map m_span (scan_pattern text ty p))"
    unfolding scan_pattern_spans by (rule ordered_filter [OF match_all_ordered])
  then show ?thesis using redact_disjoint [of "text" "scan_pattern text ty p"] by (simp add: rev)
qed


section \<open>What a preview reveals\<close>

lemma slice_last_weaker:
  fixes v w :: "'a list"
  shows "n \<le> k \<Longrightarrow> slice_last k v = slice_last k w \<Longrightarrow> length v = length w \<Longrightarrow> slice_last n v = slice_last n w"
proof -
  assume a: "n \<le> k" "slice_last k v = slice_last k w" "length v = length w"
  have "slice_last n u = drop (min k (length u) - n) (slice_last k u)" for u :: "'a list"
    using a(1) by (cases "k \<le> length u") (simp_all add: slice_last_def)
  from this [of v] this [of w] show ?thesis by (simp only: a(2,3))
qed

text \<open>Two values of the same length and kind that agree on their ends have the same preview.\<close>

lemma preview_ends:
  assumes "CHR ''@'' \<notin> set v" "CHR ''@'' \<notin> set w" "length v = length w"
    "10 \<le> length (only_digits v) \<longleftrightarrow> 10 \<le> length (only_digits w)"
    "take 4 v = take 4 w" "slice_last 4 v = slice_last 4 w"
  shows "maskValue v = maskValue w"
proof -
  have "take 2 v = take 2 w" using arg_cong [OF assms(5), of "take 2"] by simp
  moreover have "slice_last 2 v = slice_last 2 w" by (rule slice_last_weaker [of 2 4, OF _ assms(6,3)]) simp
  ultimately show ?thesis unfolding maskValue_def assms(3-6) by (simp add: assms(1,2))
qed

lemma preview_email:
  assumes "CHR ''@'' \<notin> set l" "CHR ''@'' \<notin> set l'" "CHR ''@'' \<notin> set d" "length l = length l'" "take 2 l = take 2 l'"
  shows "maskValue (l @ ''@'' @ d) = maskValue (l' @ ''@'' @ d)"
proof -
  have s: "split_str ''@'' (u @ ''@'' @ d) = [u, d]" if "CHR ''@'' \<notin> set u" for u
    using split_str_append [OF that] split_str_no_sep [OF assms(3)] by simp
  have k: "max 1 (min 2 (length l - 1)) \<le> 2" by simp
  then have "take (max 1 (min 2 (length l - 1))) l = take (max 1 (min 2 (length l - 1))) l'"
    using assms(5) by (metis min.absorb1 take_take)
  moreover have "l = [] \<longleftrightarrow> l' = []" using assms(4) by auto
  ultimately show ?thesis
    using s [OF assms(1)] s [OF assms(2)] assms(4) by (simp add: maskValue_def Let_def)
qed


section \<open>The properties\<close>

text \<open>C19.  Redaction of one entity type (\<open>detect\<close>): cutting the matches out from right to left gives
  the left-to-right replacement of exactly the kept matches of the type's pattern by its
  placeholder, every other character staying where it was; an unknown type changes nothing.\<close>

theorem redaction_is_replacement:
  "(case pattern_of ty of
      None \<Rightarrow> redact_matches t (scan_type t ty) = t
    | Some p \<Rightarrow> redact_matches t (scan_type t ty) =
        splice t 0 (map (\<lambda>m. ((fst m, fst (snd m)), p_placeholder p)) (filter (keeps t p) (match_all (p_re p) t))))"
proof (cases "pattern_of ty")
  case None
  then show ?thesis by (simp add: scan_type_def redact_matches_def by_index_desc_def)
next
  case (Some p)
  have "replacements (scan_pattern t ty p) = map (\<lambda>s. (s, p_placeholder p)) (map m_span (scan_pattern t ty p))"
    using Some by (simp add: replacements_def scan_pattern_filter to_match_def holder_of_def Let_def)
  then have "replacements (scan_pattern t ty p) = map (\<lambda>m. ((fst m, fst (snd m)), p_placeholder p)) (filter (keeps t p) (match_all (p_re p) t))"
    unfolding scan_pattern_spans by simp
  then show ?thesis using Some redact_one_type [of t ty p] by (simp add: scan_type_def)
qed

text \<open>Overlapping entity types damage a text (\<open>detect\<close>): an SSN that is also the local part of an
  address is cut twice, the second time with a length measured in the original text, so
  characters after the match disappear.\<close>

lemma overlapping_types_eat_text:
  "redact_matches ''123-45-6789@x.io ok'' (scan ''123-45-6789@x.io ok'' [''email'', ''ssn'']) = ''[SSN]''
   \<and> redact_matches ''123-45-6789@x.io ok'' (scan ''123-45-6789@x.io ok'' [''email'']) = ''[EMAIL] ok''"
  by code_simp

end
