(* ===== verification/TtlCache.thy ===== *)
theory TtlCache
  imports Prelude
begin

text \<open>
  The in-process caches of the backend: the guardrail policies (\<open>guardrails/apply.js\<close>), the
  compliance settings (\<open>compliance/enforce.js\<close>) and the model answers (\<open>plugins/agent/cache.js\<close>)
  all keep \<open>key -> { value, expiresAt }\<close> in a \<open>Map\<close>, look a key up before they ask the database or
  the provider, store what they were told, and drop keys.  The locale states what such a cache
  promises; the theorems inside bound how old an answer can be.
\<close>

section \<open>Operations on a cache\<close>

text \<open>A read through the cache: the hit, or the value just fetched, which is stored.\<close>

definition read_through ::
  "(nat \<Rightarrow> 'k \<Rightarrow> 'c \<Rightarrow> 'v option \<times> 'c) \<Rightarrow> (nat \<Rightarrow> 'k \<Rightarrow> 'v \<Rightarrow> 'c \<Rightarrow> 'c) \<Rightarrow> nat \<Rightarrow> 'k \<Rightarrow> 'v \<Rightarrow> 'c \<Rightarrow> 'v \<times> 'c" where
  "read_through get put now k v c =
     (case get now k c of (Some w, c') \<Rightarrow> (w, c') | (None, c') \<Rightarrow> (v, put now k v c'))"

text \<open>
  What happens to a cache over time: reads and evictions, each with its moment; the source of
  the values is a function of the moment.
\<close>

datatype 'k cache_op = Read 'k | Evict 'k

fun cache_step ::
  "(nat \<Rightarrow> 'k \<Rightarrow> 'c \<Rightarrow> 'v option \<times> 'c) \<Rightarrow> (nat \<Rightarrow> 'k \<Rightarrow> 'v \<Rightarrow> 'c \<Rightarrow> 'c) \<Rightarrow> ('k \<Rightarrow> 'c \<Rightarrow> 'c) \<Rightarrow>
   (nat \<Rightarrow> 'k \<Rightarrow> 'v) \<Rightarrow> nat \<times> 'k cache_op \<Rightarrow> 'c \<Rightarrow> 'c" where
  "cache_step get put del src (t, Read k) c = snd (read_through get put t k (src t k) c)"
| "cache_step get put del src (t, Evict k) c = del k c"

definition cache_run ::
  "(nat \<Rightarrow> 'k \<Rightarrow> 'c \<Rightarrow> 'v option \<times> 'c) \<Rightarrow> (nat \<Rightarrow> 'k \<Rightarrow> 'v \<Rightarrow> 'c \<Rightarrow> 'c) \<Rightarrow> ('k \<Rightarrow> 'c \<Rightarrow> 'c) \<Rightarrow>
   (nat \<Rightarrow> 'k \<Rightarrow> 'v) \<Rightarrow> (nat \<times> 'k cache_op) list \<Rightarrow> 'c \<Rightarrow> 'c" where
  "cache_run get put del src ops c = foldl (\<lambda>c op. cache_step get put del src op c) c ops"

text \<open>The moments at which a key was evicted.\<close>

definition evictions :: "'k \<Rightarrow> (nat \<times> 'k cache_op) list \<Rightarrow> nat list" where
  "evictions k ops = map fst (filter (\<lambda>op. snd op = Evict k) ops)"


section \<open>The contract\<close>

text \<open>
  \<open>entries\<close> abstracts a cache to its triples of key, value and expiry; \<open>alive now e\<close> says whether
  an entry that expires at \<open>e\<close> still answers at \<open>now\<close>.  A lookup answers only from a live entry and
  adds none; a store adds one entry and replaces the key's old ones; an eviction removes the
  key.  Nothing forbids a cache to forget more than that, as a bounded one does.
\<close>

locale ttl_cache =
  fixes get :: "nat \<Rightarrow> 'k \<Rightarrow> 'c \<Rightarrow> 'v option \<times> 'c"
    and put :: "nat \<Rightarrow> 'k \<Rightarrow> 'v \<Rightarrow> 'c \<Rightarrow> 'c"
    and del :: "'k \<Rightarrow> 'c \<Rightarrow> 'c"
    and entries :: "'c \<Rightarrow> ('k \<times> 'v \<times> nat) set"
    and alive :: "nat \<Rightarrow> nat \<Rightarrow> bool"
    and ttl :: nat
  assumes get_live: "fst (get now k c) = Some v \<Longrightarrow> \<exists>e. (k, v, e) \<in> entries c \<and> alive now e"
    and get_entries: "entries (snd (get now k c)) \<subseteq> entries c"
    and put_entries: "entries (put now k v c) \<subseteq> insert (k, v, now + ttl) {x \<in> entries c. fst x \<noteq> k}"
    and del_entries: "entries (del k c) \<subseteq> {x \<in> entries c. fst x \<noteq> k}"
begin

text \<open>
  Every entry was read from the source at a moment of the run, after the last eviction of its
  key, and carries the expiry of that moment.
\<close>

definition entry_ok :: "(nat \<Rightarrow> 'k \<Rightarrow> 'v) \<Rightarrow> (nat \<times> 'k cache_op) list \<Rightarrow> 'k \<Rightarrow> 'v \<Rightarrow> nat \<Rightarrow> bool" where
  "entry_ok src ops k v e \<longleftrightarrow>
     (\<exists>t0. t0 \<in> set (map fst ops) \<and> v = src t0 k \<and> e = t0 + ttl \<and> (\<forall>t \<in> set (evictions k ops). t \<le> t0))"

definition sourced :: "(nat \<Rightarrow> 'k \<Rightarrow> 'v) \<Rightarrow> (nat \<times> 'k cache_op) list \<Rightarrow> 'c \<Rightarrow> bool" where
  "sourced src ops c \<longleftrightarrow> (\<forall>k v e. (k, v, e) \<in> entries c \<longrightarrow> entry_ok src ops k v e)"

lemma entry_ok_read: "entry_ok src ops k v e \<Longrightarrow> entry_ok src (ops @ [(t, Read k')]) k v e"
  by (auto simp: entry_ok_def evictions_def)

lemma entry_ok_evict: "entry_ok src ops k v e \<Longrightarrow> k \<noteq> k' \<Longrightarrow> entry_ok src (ops @ [(t, Evict k')]) k v e"
  by (auto simp: entry_ok_def evictions_def)

lemma entry_ok_new:
  assumes "sorted (map fst (ops @ [(t, Read k)]))"
  shows "entry_ok src (ops @ [(t, Read k)]) k (src t k) (t + ttl)"
  unfolding entry_ok_def using assms by (intro exI [of _ t]) (auto simp: evictions_def sorted_append)

lemma read_entries:
  assumes "(k', v, e) \<in> entries (cache_step get put del src (t, Read k) c)"
  shows "(k', v, e) \<in> entries c \<or> k' = k \<and> v = src t k \<and> e = t + ttl"
proof (cases "fst (get t k c)")
  case None
  then have "(k', v, e) \<in> entries (put t k (src t k) (snd (get t k c)))"
    using assms by (auto simp: read_through_def split: prod.splits)
  then show ?thesis using put_entries [of t k "src t k" "snd (get t k c)"] get_entries [of t k c] by blast
next
  case (Some w)
  then have "(k', v, e) \<in> entries (snd (get t k c))"
    using assms by (auto simp: read_through_def split: prod.splits)
  then show ?thesis using get_entries by blast
qed

lemma sourced_snoc_read:
  assumes "sourced src ops c" "sorted (map fst (ops @ [(t, Read k)]))"
  shows "sourced src (ops @ [(t, Read k)]) (cache_step get put del src (t, Read k) c)"
  unfolding sourced_def
proof (intro allI impI)
  fix k' v e
  assume "(k', v, e) \<in> entries (cache_step get put del src (t, Read k) c)"
  then consider "(k', v, e) \<in> entries c" | "k' = k" "v = src t k" "e = t + ttl" using read_entries by blast
  then show "entry_ok src (ops @ [(t, Read k)]) k' v e"
  proof cases
    case 1
    then have "entry_ok src ops k' v e" using assms(1) unfolding sourced_def by blast
    then show ?thesis by (rule entry_ok_read)
  next
    case 2
    then show ?thesis using entry_ok_new [OF assms(2)] by simp
  qed
qed

lemma sourced_snoc_evict:
  assumes "sourced src ops c"
  shows "sourced src (ops @ [(t, Evict k)]) (cache_step get put del src (t, Evict k) c)"
  unfolding sourced_def
proof (intro allI impI)
  fix k' v e
  assume "(k', v, e) \<in> entries (cache_step get put del src (t, Evict k) c)"
  then have "(k', v, e) \<in> entries (del k c)" by simp
  then have "(k', v, e) \<in> {x \<in> entries c. fst x \<noteq> k}" by (rule subsetD [OF del_entries])
  then have "(k', v, e) \<in> entries c" "k' \<noteq> k" by simp_all
  then show "entry_ok src (ops @ [(t, Evict k)]) k' v e"
    using assms unfolding sourced_def by (blast intro: entry_ok_evict)
qed

lemma sourced_run:
  assumes "entries c0 = {}" "sorted (map fst ops)"
  shows "sourced src ops (cache_run get put del src ops c0)"
  using assms(2)
proof (induction ops rule: rev_induct)
  case Nil
  then show ?case by (simp add: sourced_def cache_run_def assms(1))
next
  case (snoc op ops)
  then have IH: "sourced src ops (cache_run get put del src ops c0)" by (simp add: sorted_append)
  obtain t o' where op: "op = (t, o')" by (cases op)
  show ?case
  proof (cases o')
    case (Read k)
    then show ?thesis using sourced_snoc_read [OF IH, of t k] snoc.prems by (simp add: op cache_run_def)
  next
    case (Evict k)
    then show ?thesis using sourced_snoc_evict [OF IH, of t k] by (simp add: op cache_run_def)
  qed
qed

text \<open>What a read answers after any run was the source's answer at a moment that is still alive and
  not before the last eviction.\<close>

lemma read_is_recent:
  assumes "entries c0 = {}" "sorted (map fst ops @ [t])" "alive t (t + ttl)"
  shows "\<exists>t0 \<le> t. alive t (t0 + ttl) \<and> (\<forall>t' \<in> set (evictions k ops). t' \<le> t0) \<and>
    fst (read_through get put t k (src t k) (cache_run get put del src ops c0)) = src t0 k"
proof -
  let ?c = "cache_run get put del src ops c0"
  have s: "sourced src ops ?c" using sourced_run [OF assms(1)] assms(2) by (simp add: sorted_append)
  have le: "t0 \<le> t" if "t0 \<in> set (map fst ops)" for t0
    using that assms(2) by (auto simp: sorted_append)
  show ?thesis
  proof (cases "fst (get t k ?c)")
    case None
    then have "fst (read_through get put t k (src t k) ?c) = src t k"
      by (auto simp: read_through_def split: prod.splits)
    moreover have "\<forall>t' \<in> set (evictions k ops). t' \<le> t" using le by (auto simp: evictions_def)
    ultimately show ?thesis using assms(3) by blast
  next
    case (Some w)
    then obtain e where e: "(k, w, e) \<in> entries ?c" "alive t e" using get_live by blast
    then obtain t0 where t0: "t0 \<in> set (map fst ops)" "w = src t0 k" "e = t0 + ttl"
      "\<forall>t' \<in> set (evictions k ops). t' \<le> t0"
      using s unfolding sourced_def entry_ok_def by blast
    have "fst (read_through get put t k (src t k) ?c) = src t0 k"
      using Some t0(2) by (auto simp: read_through_def split: prod.splits)
    then show ?thesis using le [OF t0(1)] t0(3,4) e(2) by blast
  qed
qed

end


section \<open>A Map with expiry times\<close>

text \<open>The two settings caches: \<open>hit.expiresAt > now\<close> answers, an expired entry stays until it is
  overwritten.\<close>

type_synonym ('k, 'v) ttl_map = "('k, 'v \<times> nat) omap"

definition ttl_get :: "nat \<Rightarrow> 'k \<Rightarrow> ('k, 'v) ttl_map \<Rightarrow> 'v option \<times> ('k, 'v) ttl_map" where
  "ttl_get now k c = (case oget c k of Some (v, e) \<Rightarrow> (if now < e then Some v else None, c) | None \<Rightarrow> (None, c))"

definition ttl_put :: "nat \<Rightarrow> nat \<Rightarrow> 'k \<Rightarrow> 'v \<Rightarrow> ('k, 'v) ttl_map \<Rightarrow> ('k, 'v) ttl_map" where
  "ttl_put ttl now k v c = oset k (v, now + ttl) c"

definition ttl_entries :: "('k, 'v) ttl_map \<Rightarrow> ('k \<times> 'v \<times> nat) set" where
  "ttl_entries c = {(k, v, e). oget c k = Some (v, e)}"

lemma ttl_get_live: "fst (ttl_get now k c) = Some v \<Longrightarrow> \<exists>e. (k, v, e) \<in> ttl_entries c \<and> now < e"
  by (auto simp: ttl_get_def ttl_entries_def split: option.splits if_splits)

lemma ttl_get_same [simp]: "snd (ttl_get now k c) = c"
  by (auto simp: ttl_get_def split: option.splits)

lemma ttl_put_entries: "ttl_entries (ttl_put ttl now k v c) \<subseteq> insert (k, v, now + ttl) {x \<in> ttl_entries c. fst x \<noteq> k}"
  by (auto simp: ttl_entries_def ttl_put_def split: if_splits)

lemma ttl_del_entries: "ttl_entries (odel k c) \<subseteq> {x \<in> ttl_entries c. fst x \<noteq> k}"
  by (auto simp: ttl_entries_def split: if_splits)

interpretation ttl_map: ttl_cache ttl_get "ttl_put ttl" odel ttl_entries "(<)" ttl for ttl
  by unfold_locales (rule ttl_get_live ttl_put_entries ttl_del_entries | assumption | simp)+

end
