(* ===== verification/Guardrails.thy ===== *)
theory Guardrails
  imports PiiDetector TtlCache
begin

text \<open>
  Guardrails: the jailbreak heuristics and the moderation detector
  (\<open>guardrails/detectors/jailbreak.js\<close>, \<open>toxicity.js\<close>), the registry (\<open>detectors/index.js\<close>), and the
  orchestrator \<open>guardrails/apply.js\<close>: the default policy, its merge with the project's row and an
  agent's override, the cache of policies, and the run of the detectors over a text.  A policy and
  a detector's answer are JavaScript values, read field by field as the code reads them.  The
  moderation service is a parameter.
\<close>

section \<open>Objects\<close>

text \<open>\<open>{...a, ...(b || {})}\<close>.\<close>

definition spread :: "js \<Rightarrow> js \<Rightarrow> js" where
  "spread a b = JObj (omerge (omerge [] (js_entries a)) (js_entries b))"

lemma js_get_spread: "distinct (map fst (js_entries b)) \<Longrightarrow> distinct (map fst (js_entries a)) \<Longrightarrow>
  js_get (spread a b) k = (case oget (js_entries b) k of Some v \<Rightarrow> v | None \<Rightarrow> (case oget (js_entries a) k of Some v \<Rightarrow> v | None \<Rightarrow> JUndef))"
  by (simp add: spread_def oget_omerge split: option.splits)


section \<open>Jailbreak heuristics\<close>

record rule =
  ru_id :: string
  ru_weight :: rat
  ru_re :: regex

definition r_words :: "string list \<Rightarrow> re" where
  "r_words ws = r_alt (map r_lit ws)"

definition r_plural :: "string \<Rightarrow> re" where
  "r_plural w = r_seq [r_lit w, r_opt (r_chr (CHR ''s''))]"

definition r_phrase :: "string list \<Rightarrow> re" where
  "r_phrase ws = (case ws of [] \<Rightarrow> REmpty | w # rest \<Rightarrow> r_seq (r_lit w # concat (map (\<lambda>v. [r_plus r_s, r_lit v]) rest)))"

definition ignore_prior_re :: regex where
  "ignore_prior_re = rx_i (r_seq [RWordB, r_lit ''ignore'', r_plus r_s,
     r_opt (r_words [''all'', ''every'', ''the'', ''previous'', ''prior'', ''above'']), r_star r_s,
     r_alt (map r_lit [''prior'', ''previous'', ''earlier'', ''above'', ''preceding'', ''prompt'', ''prompts'', ''system'']
       @ map r_plural [''instruction'', ''rule'', ''guideline'']), RWordB])"

definition ignore_safety_re :: regex where
  "ignore_safety_re = rx_i (r_seq [RWordB, r_lit ''ignore'', r_plus r_s, r_opt (r_seq [r_lit ''all'', r_plus r_s]),
     r_words [''safety'', ''ethical'', ''moral'', ''content'', ''alignment''], r_plus r_s,
     r_alt (map r_lit [''rules'', ''guidelines'', ''filters'', ''restrictions'', ''policies''] @ [r_plural ''guardrail'']), RWordB])"

definition dan_re :: regex where
  "dan_re = rx_i (r_seq [RWordB, r_alt [r_seq [r_lit ''DAN'', r_opt (r_seq [r_plus r_s, r_lit ''mode''])],
     r_phrase [''do'', ''anything'', ''now'']], RWordB])"

definition developer_mode_re :: regex where
  "developer_mode_re = rx_i (r_seq [RWordB, r_alt [r_phrase [''developer'', ''mode''],
     r_seq [r_lit ''jailbreak'', r_opt (r_seq [r_plus r_s, r_lit ''mode''])],
     r_phrase [''unfiltered'', ''mode''], r_phrase [''uncensored'', ''mode'']], RWordB])"

definition system_extract_re :: regex where
  "system_extract_re = rx_i (r_seq [RWordB,
     r_alt (map r_lit [''print'', ''reveal'', ''show'', ''output'', ''repeat'', ''display''] @ [r_phrase [''tell'', ''me''], r_lit ''leak'']),
     r_plus r_s, r_opt (r_seq [r_lit ''back'', r_plus r_s]), r_words [''your'', ''the''], r_plus r_s,
     r_opt (r_seq [r_lit ''full'', r_plus r_s]),
     r_alt ([r_phrase [''system'', ''prompt''], r_phrase [''original'', ''prompt''], r_phrase [''initial'', ''prompt'']]
       @ map r_lit [''instructions'', ''rules'', ''configuration'', ''guidelines'']), RWordB])"

definition role_swap_re :: regex where
  "role_swap_re = rx_i (r_seq [RWordB,
     r_alt [r_phrase [''from'', ''now'', ''on''], r_phrase [''starting'', ''now''], r_phrase [''now'', ''on''],
       r_seq [r_lit ''pretend'', r_opt (r_seq [r_plus r_s, r_phrase [''to'', ''be'']])],
       r_phrase [''act'', ''as''],
       r_seq [r_lit ''role'', r_opt (r_set ''- ''), r_lit ''play'', r_plus r_s, r_lit ''as'']],
     RWordB, r_rng 0 40 (RCls (Cls True (singles [CHR ''.'', CHR 0x0A]))), RWordB,
     r_alt [r_seq [r_lit ''you'', r_opt (r_chr (CHR 0x27)), r_lit ''re''], r_phrase [''you'', ''are''],
       r_seq [r_lit ''a'', r_plus r_s, r_plus r_w, r_plus r_s, r_lit ''who''],
       r_phrase [''a'', ''system'', ''that'']], RWordB])"

definition role_prefix_re :: regex where
  "role_prefix_re = \<lparr>pat = r_seq [RBol, r_words [''system'', ''assistant''], r_star r_s, r_chr (CHR '':''), r_s], flag_i = True, flag_m = True\<rparr>"

definition persona_re :: regex where
  "persona_re = rx_i (r_seq [RWordB, r_alt [r_seq [r_phrase [''your'', ''new''], r_plus r_s, r_words [''role'', ''persona'', ''identity'']],
     r_phrase [''forget'', ''who'', ''you'', ''are'']], RWordB])"

definition RULES :: "rule list" where
  "RULES = [\<lparr>ru_id = ''ignore_prior_instructions'', ru_weight = 9/10, ru_re = ignore_prior_re\<rparr>,
     \<lparr>ru_id = ''ignore_safety'', ru_weight = 95/100, ru_re = ignore_safety_re\<rparr>,
     \<lparr>ru_id = ''do_anything_now'', ru_weight = 95/100, ru_re = dan_re\<rparr>,
     \<lparr>ru_id = ''developer_mode'', ru_weight = 8/10, ru_re = developer_mode_re\<rparr>,
     \<lparr>ru_id = ''system_extract'', ru_weight = 85/100, ru_re = system_extract_re\<rparr>,
     \<lparr>ru_id = ''role_swap_pretend'', ru_weight = 7/10, ru_re = role_swap_re\<rparr>,
     \<lparr>ru_id = ''role_injection_prefix'', ru_weight = 6/10, ru_re = role_prefix_re\<rparr>,
     \<lparr>ru_id = ''override_persona'', ru_weight = 65/100, ru_re = persona_re\<rparr>]"

text \<open>The loop over the rules, in order: the matched rules and the largest weight.\<close>

definition rule_loop :: "string \<Rightarrow> rule list \<Rightarrow> js list \<times> rat" where
  "rule_loop text rules =
     foldl (\<lambda>(matched, score) r.
       if re_test (ru_re r) text
       then (matched @ [JObj [(''id'', JStr (ru_id r)), (''weight'', JNum (ru_weight r))]], if score < ru_weight r then ru_weight r else score)
       else (matched, score)) ([], 0) rules"

definition threshold_of :: "js \<Rightarrow> jsnum" where
  "threshold_of cfg = js_number (js_nullish (js_get cfg ''threshold'') (JNum (1/2)))"

definition jailbreak_detect :: "string \<Rightarrow> js \<Rightarrow> js js_result" where
  "jailbreak_detect text cfg =
     (if text = [] then Inr (JObj [(''flagged'', JBool False), (''score'', JNum 0)])
      else let (matched, score) = rule_loop text RULES in
        if num_lt (Fin score) (threshold_of cfg)
        then Inr (JObj [(''flagged'', JBool False), (''score'', JNum score), (''matched'', JArr matched)])
        else Inr (JObj [(''flagged'', JBool True), (''score'', JNum score), (''matched'', JArr matched), (''redacted'', JNull)]))"


section \<open>Toxicity\<close>

text \<open>What the moderation endpoint answers: no connection, an HTTP error, or the scores of the first
  result (None when the reply carries no result).\<close>

datatype moderation = MFailed string | MHttp nat string | MScores "(string \<times> rat) list option"

record guard_env =
  g_key :: bool                                        \<comment> \<open>one of the two API keys is set\<close>
  g_moderate :: "string \<Rightarrow> string \<Rightarrow> moderation"       \<comment> \<open>input and model\<close>

definition unflagged :: "(string \<times> js) list \<Rightarrow> js" where
  "unflagged extra = JObj ((''flagged'', JBool False) # extra)"

text \<open>\<open>Number(score.toFixed(4))\<close>, rounding halves away from zero.\<close>

definition fixed4 :: "rat \<Rightarrow> rat" where
  "fixed4 r = (if r < 0 then - (of_int \<lfloor>- r * 10000 + 1/2\<rfloor> / 10000) else of_int \<lfloor>r * 10000 + 1/2\<rfloor> / 10000)"

definition wanted :: "js \<Rightarrow> string \<Rightarrow> bool js_result" where
  "wanted cats category =
     (if truthy (js_get cats ''length'') then
        (case cats of JArr vs \<Rightarrow> Inr (JStr category \<in> set vs) | JStr s \<Rightarrow> Inr (str_includes s category)
         | _ \<Rightarrow> Inl (plain_error ''wantedCats.includes is not a function''))
      else Inr True)"

fun triggered_cats :: "jsnum \<Rightarrow> js \<Rightarrow> (string \<times> rat) list \<Rightarrow> (string \<times> rat) list js_result" where
  "triggered_cats threshold cats [] = Inr []"
| "triggered_cats threshold cats ((category, score) # rest) =
     (if num_lt (Fin score) threshold then triggered_cats threshold cats rest
      else res_bind (wanted cats category) (\<lambda>w.
        res_bind (triggered_cats threshold cats rest) (\<lambda>found.
          Inr (if w then (category, fixed4 score) # found else found))))"

definition toxicity_detect :: "guard_env \<Rightarrow> string \<Rightarrow> js \<Rightarrow> js js_result" where
  "toxicity_detect env text cfg =
     (if text = [] \<or> trim text = [] then Inr (unflagged [])
      else if \<not> g_key env then Inr (unflagged [(''skipped'', JBool True), (''reason'', JStr ''no OPENAI_API_KEY / AI_API_KEY in env'')])
      else case g_moderate env text (js_string (js_or (js_get cfg ''model'') (JStr ''omni-moderation-latest''))) of
        MFailed m \<Rightarrow> Inr (unflagged [(''error'', JStr (''moderation fetch failed: '' @ m))])
      | MHttp st t \<Rightarrow> Inr (unflagged [(''error'', JStr (''moderation HTTP '' @ show_nat st @ '': '' @ take 200 t))])
      | MScores None \<Rightarrow> Inr (unflagged [])
      | MScores (Some scores) \<Rightarrow>
          res_bind (triggered_cats (threshold_of cfg) (js_or (js_get cfg ''categories'') (JArr [])) scores) (\<lambda>triggered.
            if triggered = [] then Inr (unflagged [])
            else Inr (JObj [(''flagged'', JBool True),
              (''categories'', JArr (map (\<lambda>(c, s). JObj [(''category'', JStr c), (''score'', JNum s)]) (sort_key (\<lambda>x. - snd x) triggered))),
              (''redacted'', JNull)])))"


section \<open>The registry\<close>

text \<open>The PII detector's answer as the object the orchestrator reads.\<close>

definition pii_value :: "pii_result \<Rightarrow> js" where
  "pii_value r =
     (let found = JArr (map (\<lambda>(t, l, v). JObj [(''type'', JStr t), (''label'', l), (''valuePreview'', JStr v)]) (r_matches r)) in
      case r_redacted r of
        None \<Rightarrow> JObj [(''flagged'', JBool (r_flagged r)), (''matches'', found)]
      | Some t \<Rightarrow> JObj [(''flagged'', JBool (r_flagged r)), (''matches'', found), (''redacted'', JStr t)])"

definition detect :: "guard_env \<Rightarrow> string \<Rightarrow> string \<Rightarrow> js \<Rightarrow> js js_result" where
  "detect env name text cfg =
     (if name = ''pii'' then res_bind (pii_detect text cfg) (\<lambda>r. Inr (pii_value r))
      else if name = ''toxicity'' then toxicity_detect env text cfg
      else if name = ''jailbreak'' then jailbreak_detect text cfg
      else Inl (plain_error (''unknown guardrail detector: '' @ quoted name @ ''. Available: pii, toxicity, jailbreak.'')))"


section \<open>Policies\<close>

definition RUN_ORDER :: "string list" where
  "RUN_ORDER = [''pii'', ''jailbreak'', ''toxicity'']"

definition default_config :: "string \<Rightarrow> js" where
  "default_config name =
     (if name = ''pii'' then JObj [(''enabled'', JBool False), (''mode'', JStr ''redact''),
        (''types'', JArr (map JStr [''email'', ''phone'', ''ssn'', ''credit_card'', ''ipv4'', ''iban'']))]
      else if name = ''toxicity'' then JObj [(''enabled'', JBool False), (''mode'', JStr ''warn''), (''threshold'', JNum (1/2)), (''categories'', JArr [])]
      else JObj [(''enabled'', JBool False), (''mode'', JStr ''warn''), (''threshold'', JNum (1/2))])"

definition policy :: "js \<Rightarrow> (string \<Rightarrow> js) \<Rightarrow> js" where
  "policy apply_to cfg = JObj [(''apply_to'', apply_to),
     (''config'', JObj [(''pii'', cfg ''pii''), (''toxicity'', cfg ''toxicity''), (''jailbreak'', cfg ''jailbreak'')])]"

definition DEFAULT_POLICY :: js where
  "DEFAULT_POLICY = policy (JStr ''both'') default_config"

definition mergeOnDefault :: "js \<Rightarrow> js" where
  "mergeOnDefault row =
     policy (js_or (js_get row ''apply_to'') (JStr ''both''))
       (\<lambda>name. spread (default_config name) (js_or (js_get (js_get row ''config'') name) (JObj [])))"

definition mergePolicy :: "js \<Rightarrow> js \<Rightarrow> js" where
  "mergePolicy projectPolicy agentOverride =
     (if \<not> is_objlike agentOverride then projectPolicy
      else policy (js_or (js_get agentOverride ''apply_to'') (js_get projectPolicy ''apply_to''))
        (\<lambda>name. spread (js_get (js_get projectPolicy ''config'') name)
           (js_or (js_get (js_get agentOverride ''config'') name) (js_or (js_get agentOverride name) (JObj [])))))"

text \<open>
  The project's row as the query returns it: an error when the database is out of reach, None when
  there is no row.
\<close>

type_synonym policy_db = "string \<Rightarrow> js option js_result"

definition resolve_policy :: "js option js_result \<Rightarrow> js" where
  "resolve_policy q = (case q of Inr (Some row) \<Rightarrow> mergeOnDefault row | _ \<Rightarrow> DEFAULT_POLICY)"

type_synonym policy_cache = "(string, js) ttl_map"

definition CACHE_TTL_MS :: nat where "CACHE_TTL_MS = 30000"

definition loadProjectPolicy :: "policy_db \<Rightarrow> nat \<Rightarrow> string \<Rightarrow> policy_cache \<Rightarrow> js \<times> policy_cache" where
  "loadProjectPolicy db now projectId cache =
     (if projectId = [] then (DEFAULT_POLICY, cache)
      else read_through ttl_get (ttl_put CACHE_TTL_MS) now projectId (resolve_policy (db projectId)) cache)"

definition evictPolicyCache :: "string \<Rightarrow> policy_cache \<Rightarrow> policy_cache" where
  "evictPolicyCache projectId cache = (if projectId \<noteq> [] then odel projectId cache else cache)"


section \<open>The run\<close>

definition countBy :: "string list \<Rightarrow> (string, nat) omap" where
  "countBy ks = foldl (\<lambda>out k. oset k (Suc (case oget out k of Some n \<Rightarrow> n | None \<Rightarrow> 0)) out) [] ks"

definition elements :: "js \<Rightarrow> js list" where
  "elements v = (case v of JArr vs \<Rightarrow> vs | _ \<Rightarrow> [])"

definition summariseDetails :: "string \<Rightarrow> js \<Rightarrow> js" where
  "summariseDetails name result =
     (if name = ''pii'' then
        (let found = elements (js_get result ''matches'') in
         JObj [(''counts'', JObj (map (\<lambda>(k, n). (k, JNum (of_nat n))) (countBy (map (\<lambda>m. js_string (js_get m ''type'')) found)))),
               (''samples'', JArr (map (\<lambda>m. JObj [(''type'', js_get m ''type''), (''preview'', js_get m ''valuePreview'')]) (take 5 found)))])
      else if name = ''toxicity'' then
        JObj [(''categories'', js_or (js_get result ''categories'') (JArr [])), (''skipped'', js_or (js_get result ''skipped'') (JBool False))]
      else JObj [(''score'', js_get result ''score''), (''rules'', JArr (map (\<lambda>m. js_get m ''id'') (elements (js_get result ''matched''))))])"

record violation =
  v_detector :: string
  v_mode :: js
  v_action :: string
  v_details :: js

record guard_ctx =
  gc_workspace :: string
  gc_project :: string
  gc_execution :: string
  gc_node :: string
  gc_agent :: string
  gc_agent_title :: string

record violation_row =
  vr_ctx :: guard_ctx
  vr_side :: string
  vr_violation :: violation

definition recordViolations :: "guard_ctx \<Rightarrow> string \<Rightarrow> violation list \<Rightarrow> violation_row list" where
  "recordViolations ctx side vs =
     (if gc_workspace ctx = [] \<or> gc_project ctx = [] then []
      else map (\<lambda>v. \<lparr>vr_ctx = ctx, vr_side = side, vr_violation = v\<rparr>) vs)"

definition blocked_error :: "string \<Rightarrow> string \<Rightarrow> js \<Rightarrow> js_error" where
  "blocked_error detector side details =
     \<lparr>e_message = ''Guardrail '' @ quoted detector @ '' blocked the '' @ side @ ''.'',
      e_code = Some ''GUARDRAIL_BLOCKED'', e_status = None, e_details = details\<rparr>"

definition action_for :: "js \<Rightarrow> js \<Rightarrow> string" where
  "action_for cfg result =
     (if js_get cfg ''mode'' = JStr ''block'' then ''blocked''
      else if js_get cfg ''mode'' = JStr ''redact'' \<and> \<not> nullish (js_get result ''redacted'') then ''redacted''
      else ''warned'')"

text \<open>The loop over the detectors: the violations so far and the text, or the error of a block.\<close>

fun guard_loop :: "guard_env \<Rightarrow> string \<Rightarrow> js \<Rightarrow> string list \<Rightarrow> string \<Rightarrow> violation list \<Rightarrow> violation list \<times> string js_result" where
  "guard_loop env side config [] current vs = (vs, Inr current)"
| "guard_loop env side config (name # names) current vs =
     (let cfg = js_get config name in
      if \<not> truthy (js_get cfg ''enabled'') then guard_loop env side config names current vs
      else case detect env name current cfg of
        Inl _ \<Rightarrow> guard_loop env side config names current vs
      | Inr result \<Rightarrow>
          if \<not> truthy (js_get result ''flagged'') then guard_loop env side config names current vs
          else let action = action_for cfg result;
                   vs' = vs @ [\<lparr>v_detector = name, v_mode = js_get cfg ''mode'', v_action = action, v_details = summariseDetails name result\<rparr>]
               in if action = ''blocked'' then (vs', Inl (blocked_error name side result))
                  else guard_loop env side config names
                         (if action = ''redacted'' then js_string (js_get result ''redacted'') else current) vs')"

text \<open>The policy applies to this side.\<close>

definition covers :: "js \<Rightarrow> string \<Rightarrow> bool" where
  "covers p side \<longleftrightarrow> truthy p \<and> js_get p ''apply_to'' \<noteq> JStr ''none'' \<and>
     (js_get p ''apply_to'' = JStr ''both'' \<or> js_get p ''apply_to'' = JStr side)"

definition applyGuardrails ::
  "guard_env \<Rightarrow> string \<Rightarrow> string \<Rightarrow> js \<Rightarrow> guard_ctx \<Rightarrow> (string \<times> violation list) js_result \<times> violation_row list" where
  "applyGuardrails env text side p ctx =
     (if text = [] \<or> \<not> covers p side then (Inr (text, []), [])
      else let (vs, r) = guard_loop env side (js_get p ''config'') RUN_ORDER text [] in
        (res_bind r (\<lambda>current. Inr (current, vs)), recordViolations ctx side vs))"


section \<open>Only redaction changes a text\<close>

text \<open>The two detectors without a redacted form never offer one.\<close>

lemma jailbreak_no_redaction: "jailbreak_detect t cfg = Inr r \<Longrightarrow> nullish (js_get r ''redacted'')"
  by (auto simp: jailbreak_detect_def Let_def split: if_splits prod.splits)

lemma toxicity_no_redaction: "toxicity_detect env t cfg = Inr r \<Longrightarrow> nullish (js_get r ''redacted'')"
  by (auto simp: toxicity_detect_def unflagged_def res_bind_eq_Inr split: if_splits moderation.splits option.splits)

lemma pii_redaction:
  assumes "detect env ''pii'' t cfg = Inr r" "truthy (js_get r ''flagged'')"
  shows "\<exists>types. allowed_types (js_get cfg ''types'') = Inr types \<and> scan t types \<noteq> [] \<and>
    js_get r ''redacted'' = JStr (redact_matches t (scan t types))"
  using assms by (auto simp: detect_def pii_detect_def pii_value_def Let_def res_bind_eq_Inr split: if_splits)

lemma other_detectors_no_redaction: "detect env name t cfg = Inr r \<Longrightarrow> name \<noteq> ''pii'' \<Longrightarrow> nullish (js_get r ''redacted'')"
  using jailbreak_no_redaction toxicity_no_redaction by (auto simp: detect_def split: if_splits)

lemma action_not_redacted: "nullish (js_get r ''redacted'') \<Longrightarrow> action_for cfg r \<noteq> ''redacted''"
  by (simp add: action_for_def)

lemma loop_keeps_text:
  "''pii'' \<notin> set names \<Longrightarrow> guard_loop env side config names t vs = (vs', Inr t') \<Longrightarrow> t' = t"
proof (induction names arbitrary: vs)
  case (Cons name names)
  have "action_for (js_get config name) r \<noteq> ''redacted''" if "detect env name t (js_get config name) = Inr r" for r
    using other_detectors_no_redaction [OF that] Cons.prems(1) by (intro action_not_redacted) auto
  then show ?case using Cons.IH Cons.prems by (auto simp: Let_def split: if_splits sum.splits)
qed simp

lemma run_order_text:
  assumes "guard_loop env side config RUN_ORDER t vs = (vs', Inr t')" "t' \<noteq> t"
  shows "\<exists>types. allowed_types (js_get (js_get config ''pii'') ''types'') = Inr types \<and> scan t types \<noteq> [] \<and>
    truthy (js_get (js_get config ''pii'') ''enabled'') \<and> js_get (js_get config ''pii'') ''mode'' = JStr ''redact'' \<and>
    t' = redact_matches t (scan t types)"
proof -
  let ?cfg = "js_get config ''pii''" and ?rest = "[''jailbreak'', ''toxicity'']"
  have loop: "guard_loop env side config (''pii'' # ?rest) t vs = (vs', Inr t')" using assms(1) by (simp only: RUN_ORDER_def)
  have keep: "t'' = t'" if "guard_loop env side config ?rest t'' us = (vs', Inr t')" for t'' us
    using loop_keeps_text [OF _ that] by simp
  have en: "truthy (js_get ?cfg ''enabled'')"
  proof (rule ccontr)
    assume "\<not> truthy (js_get ?cfg ''enabled'')"
    then have "guard_loop env side config ?rest t vs = (vs', Inr t')" using loop by simp
    then show False using keep assms(2) by blast
  qed
  obtain r where r: "detect env ''pii'' t ?cfg = Inr r"
  proof (cases "detect env ''pii'' t ?cfg")
    case (Inl e)
    then have "guard_loop env side config ?rest t vs = (vs', Inr t')" using loop en by simp
    then show ?thesis using keep assms(2) by blast
  qed
  have fl: "truthy (js_get r ''flagged'')"
  proof (rule ccontr)
    assume "\<not> truthy (js_get r ''flagged'')"
    then have "guard_loop env side config ?rest t vs = (vs', Inr t')" using loop en r by simp
    then show False using keep assms(2) by blast
  qed
  have act: "action_for ?cfg r = ''redacted''"
  proof (rule ccontr)
    assume a: "action_for ?cfg r \<noteq> ''redacted''"
    then obtain us where "guard_loop env side config ?rest t us = (vs', Inr t')"
      using loop en r fl by (auto simp: Let_def split: if_splits)
    then show False using keep assms(2) by blast
  qed
  then obtain us where "guard_loop env side config ?rest (js_string (js_get r ''redacted'')) us = (vs', Inr t')"
    using loop en r fl by (auto simp: Let_def)
  then have "js_string (js_get r ''redacted'') = t'" by (rule keep)
  then show ?thesis using pii_redaction [OF r fl] act en by (auto simp: action_for_def split: if_splits)
qed


section \<open>A block stops the text\<close>

definition passed :: "violation list \<Rightarrow> bool" where
  "passed vs \<longleftrightarrow> list_all (\<lambda>v. v_action v \<noteq> ''blocked'') vs"

lemma loop_outcome:
  "guard_loop env side config names t vs = (vs', r) \<Longrightarrow> passed vs \<Longrightarrow>
    (case r of Inr t' \<Rightarrow> passed vs'
     | Inl e \<Rightarrow> e_code e = Some ''GUARDRAIL_BLOCKED'' \<and> vs' \<noteq> [] \<and> v_action (last vs') = ''blocked'' \<and> v_mode (last vs') = JStr ''block'' \<and> passed (butlast vs'))"
proof (induction names arbitrary: t vs)
  case (Cons name names)
  let ?cfg = "js_get config name"
  consider "\<not> truthy (js_get ?cfg ''enabled'') \<or> (\<exists>e. detect env name t ?cfg = Inl e) \<or> (\<exists>d. detect env name t ?cfg = Inr d \<and> \<not> truthy (js_get d ''flagged''))"
    | d where "truthy (js_get ?cfg ''enabled'')" "detect env name t ?cfg = Inr d" "truthy (js_get d ''flagged'')"
    by (cases "detect env name t ?cfg") auto
  then show ?case
  proof cases
    case 1
    then have "guard_loop env side config names t vs = (vs', r)" using Cons.prems(1) by (auto simp: Let_def split: if_splits)
    then show ?thesis using Cons.IH Cons.prems(2) by blast
  next
    case d: 2
    show ?thesis
    proof (cases "action_for ?cfg d = ''blocked''")
      case True
      then have "js_get ?cfg ''mode'' = JStr ''block''" by (auto simp: action_for_def split: if_splits)
      then show ?thesis using Cons.prems d True by (auto simp: Let_def blocked_error_def passed_def)
    next
      case False
      obtain t2 us where "guard_loop env side config names t2 us = (vs', r)" "passed us"
        using Cons.prems d False by (auto simp: Let_def passed_def)
      then show ?thesis by (rule Cons.IH)
    qed
  qed
qed auto


text \<open>Violations are only ever added.\<close>

lemma guard_loop_adds: "guard_loop env side config names t vs = (vs', r) \<Longrightarrow> \<exists>us. vs' = vs @ us"
proof (induction names arbitrary: t vs)
  case (Cons name names)
  show ?case
    using Cons.prems Cons.IH by (auto simp: Let_def split: if_splits sum.splits) (metis append_assoc)+
qed simp

lemma guard_loop_extends: "guard_loop env side config names t [v] = (vs', r) \<Longrightarrow> \<exists>us. vs' = v # us"
  using guard_loop_adds [of env side config names t "[v]"] by auto


section \<open>The properties\<close>

text \<open>A guardrail run (\<open>applyGuardrails\<close>) hands a text back changed only when the policy covers
  this side, PII detection is enabled in mode redact and found something; the text is then exactly
  the redaction of those matches.  No other detector, and no failing detector, changes a text.\<close>

theorem text_changes_only_by_redaction:
  assumes "fst (applyGuardrails env t side p ctx) = Inr (t', vs)" "t' \<noteq> t"
  shows "covers p side \<and> (let cfg = js_get (js_get p ''config'') ''pii'' in
     truthy (js_get cfg ''enabled'') \<and> js_get cfg ''mode'' = JStr ''redact'' \<and>
     (\<exists>types. allowed_types (js_get cfg ''types'') = Inr types \<and> scan t types \<noteq> [] \<and> t' = redact_matches t (scan t types)))"
proof -
  obtain ws r where loop: "guard_loop env side (js_get p ''config'') RUN_ORDER t [] = (ws, r)" by fastforce
  have cov: "t \<noteq> []" "covers p side" using assms by (auto simp: applyGuardrails_def split: if_splits)
  then have "r = Inr t'" using assms(1) loop by (auto simp: applyGuardrails_def res_bind_eq_Inr)
  then show ?thesis using run_order_text [of env side "js_get p ''config''" t "[]" ws t'] loop assms(2) cov
    by (auto simp: Let_def)
qed

definition sample_env :: guard_env where
  "sample_env = \<lparr>g_key = True, g_moderate = (\<lambda>_ _. MScores (Some [(''hate'', 1/5)]))\<rparr>"

definition no_ctx :: guard_ctx where
  "no_ctx = \<lparr>gc_workspace = [], gc_project = [], gc_execution = [], gc_node = [], gc_agent = [], gc_agent_title = []\<rparr>"

definition ssn_policy :: "string \<Rightarrow> js" where
  "ssn_policy mode = policy (JStr ''both'') (\<lambda>name. if name = ''pii''
     then JObj [(''enabled'', JBool True), (''mode'', JStr mode), (''types'', JArr [JStr ''ssn''])] else default_config name)"

theorem text_changes_only_by_redaction_witness:
  "covers (ssn_policy ''redact'') ''input'' \<and> (let cfg = js_get (js_get (ssn_policy ''redact'') ''config'') ''pii'' in
     truthy (js_get cfg ''enabled'') \<and> js_get cfg ''mode'' = JStr ''redact'' \<and>
     (\<exists>types. allowed_types (js_get cfg ''types'') = Inr types \<and> scan ''I am 123-45-6789.'' types \<noteq> [] \<and>
        ''I am [SSN].'' = redact_matches ''I am 123-45-6789.'' (scan ''I am 123-45-6789.'' types)))"
proof (rule text_changes_only_by_redaction [where env = sample_env and ctx = no_ctx])
  show "fst (applyGuardrails sample_env ''I am 123-45-6789.'' ''input'' (ssn_policy ''redact'') no_ctx)
    = Inr (''I am [SSN].'', snd (projr (fst (applyGuardrails sample_env ''I am 123-45-6789.'' ''input'' (ssn_policy ''redact'') no_ctx))))"
    by code_simp
qed simp

text \<open>C18.  A blocked text never leaves the guardrails: when \<open>applyGuardrails\<close> returns, no violation was
  a block; when it throws, the error is GUARDRAIL_BLOCKED, raised by the last violation, whose mode
  is block; and PII detection in mode block throws on every covered text in which it finds a match.\<close>

theorem blocks_stop_the_text:
  "(case applyGuardrails env t side p ctx of
      (Inr (t', vs), _) \<Rightarrow> passed vs
    | (Inl e, _) \<Rightarrow> e_code e = Some ''GUARDRAIL_BLOCKED'' \<and>
        (case guard_loop env side (js_get p ''config'') RUN_ORDER t [] of (vs, _) \<Rightarrow> vs \<noteq> [] \<and> v_mode (last vs) = JStr ''block''))
   \<and> (let cfg = js_get (js_get p ''config'') ''pii'' in
       if t \<noteq> [] \<and> covers p side \<and> truthy (js_get cfg ''enabled'') \<and> js_get cfg ''mode'' = JStr ''block'' \<and>
          (case allowed_types (js_get cfg ''types'') of Inl _ \<Rightarrow> False | Inr types \<Rightarrow> scan t types \<noteq> [])
       then \<exists>e rows. applyGuardrails env t side p ctx = (Inl e, rows) else True)"
  (is "?A \<and> ?B")
proof
  obtain ws r where loop: "guard_loop env side (js_get p ''config'') RUN_ORDER t [] = (ws, r)" by fastforce
  show ?A
    using loop_outcome [OF loop] loop by (cases r) (auto simp: applyGuardrails_def passed_def)
  show ?B
    by (auto simp: applyGuardrails_def RUN_ORDER_def detect_def pii_detect_def pii_value_def action_for_def Let_def split: sum.splits)
qed

text \<open>
  What happens to the policy cache: a load of a project's policy and an eviction by the policy
  editor, each at its moment, while the database changes.
\<close>

fun policy_step :: "(nat \<Rightarrow> policy_db) \<Rightarrow> nat \<times> string cache_op \<Rightarrow> policy_cache \<Rightarrow> policy_cache" where
  "policy_step db (t, Read pid) c = snd (loadProjectPolicy (db t) t pid c)"
| "policy_step db (t, Evict pid) c = evictPolicyCache pid c"

definition policy_run :: "(nat \<Rightarrow> policy_db) \<Rightarrow> (nat \<times> string cache_op) list \<Rightarrow> policy_cache" where
  "policy_run db ops = foldl (\<lambda>c op. policy_step db op c) [] ops"

fun op_key :: "'k cache_op \<Rightarrow> 'k" where
  "op_key (Read k) = k"
| "op_key (Evict k) = k"

lemma policy_run_cache:
  "policy_run db ops = cache_run ttl_get (ttl_put CACHE_TTL_MS) odel (\<lambda>t k. resolve_policy (db t k))
     (filter (\<lambda>op. op_key (snd op) \<noteq> []) ops) []"
proof (induction ops rule: rev_induct)
  case Nil
  then show ?case by (simp add: policy_run_def cache_run_def)
next
  case (snoc op ops)
  obtain t o' where op: "op = (t, o')" by (cases op)
  then show ?case using snoc
    by (cases o') (auto simp: policy_run_def cache_run_def loadProjectPolicy_def evictPolicyCache_def)
qed

text \<open>Policies are recent (\<open>loadProjectPolicy\<close>, \<open>evictPolicyCache\<close>): after any sequence of loads and
  evictions, the policy a project is given is the one its database row defined at a moment at
  most thirty seconds ago, and never one from before the last eviction; an unreachable database
  counts as the default policy.\<close>

theorem policy_is_recent:
  assumes "sorted (map fst ops @ [now])" "pid \<noteq> []"
  shows "\<exists>t0 \<le> now. now < t0 + CACHE_TTL_MS \<and> (\<forall>t \<in> set (evictions pid ops). t \<le> t0) \<and>
    fst (loadProjectPolicy (db now) now pid (policy_run db ops)) = resolve_policy (db t0 pid)"
proof -
  let ?ops = "filter (\<lambda>op. op_key (snd op) \<noteq> []) ops"
  have s: "sorted (map fst ?ops @ [now])"
    using assms(1) by (auto simp: sorted_append sorted_filter)
  have e: "evictions pid ?ops = evictions pid ops"
    using assms(2) by (auto simp: evictions_def intro!: arg_cong [of _ _ "map fst"] filter_cong)
  have live: "now < now + CACHE_TTL_MS" by (simp add: CACHE_TTL_MS_def)
  have "ttl_entries [] = {}" by (simp add: ttl_entries_def)
  from ttl_map.read_is_recent [OF this s live, of pid "\<lambda>t k. resolve_policy (db t k)"]
  show ?thesis using assms(2) by (simp add: e loadProjectPolicy_def policy_run_cache)
qed

definition sample_db :: "nat \<Rightarrow> policy_db" where
  "sample_db t = (\<lambda>_. if t < 5000 then Inr None else Inr (Some (JObj [(''apply_to'', JStr ''none'')])))"

theorem policy_is_recent_witness:
  "(\<exists>t0 \<le> (20000::nat). 20000 < t0 + CACHE_TTL_MS \<and> (\<forall>t \<in> set (evictions ''p'' [(1000, Read ''p''), (7000, Evict ''p'')]). t \<le> t0) \<and>
     fst (loadProjectPolicy (sample_db 20000) 20000 ''p'' (policy_run sample_db [(1000, Read ''p''), (7000, Evict ''p'')]))
       = resolve_policy (sample_db t0 ''p''))
   \<and> fst (loadProjectPolicy (sample_db 20000) 20000 ''p'' (policy_run sample_db [(1000, Read ''p'')])) = DEFAULT_POLICY"
proof
  show "\<exists>t0 \<le> (20000::nat). 20000 < t0 + CACHE_TTL_MS \<and> (\<forall>t \<in> set (evictions ''p'' [(1000, Read ''p''), (7000, Evict ''p'')]). t \<le> t0) \<and>
     fst (loadProjectPolicy (sample_db 20000) 20000 ''p'' (policy_run sample_db [(1000, Read ''p''), (7000, Evict ''p'')]))
       = resolve_policy (sample_db t0 ''p'')"
    by (rule policy_is_recent) simp_all
  show "fst (loadProjectPolicy (sample_db 20000) 20000 ''p'' (policy_run sample_db [(1000, Read ''p'')])) = DEFAULT_POLICY"
    by (simp add: policy_run_def loadProjectPolicy_def read_through_def ttl_get_def ttl_put_def CACHE_TTL_MS_def sample_db_def resolve_policy_def)
qed

end
