(* ===== verification/Compliance.thy ===== *)
theory Compliance
  imports Guardrails
begin

text \<open>
  Compliance modes (\<open>compliance/policies.js\<close>, \<open>compliance/enforce.js\<close>): what each mode allows and
  requires, the region patterns, the cached settings of a workspace, and the three checks of a
  provider, a feature and a guardrail policy; and the two endpoints that write the settings they
  read (\<open>PUT /guardrails/policy\<close> in \<open>api/guardrails.js\<close>, \<open>PUT /compliance\<close> in
  \<open>api/compliance.js\<close>).
\<close>

section \<open>Modes and regions\<close>

record compliance_mode =
  cm_label :: string
  cm_allowed :: "string list option"                       \<comment> \<open>None: any provider\<close>
  cm_guardrails :: "(string \<times> bool \<times> string) list option"  \<comment> \<open>detector, must be enabled, mode\<close>
  cm_retention :: nat
  cm_features :: "(string \<times> bool) list"
  cm_endpoints :: "(string \<times> bool) list"

definition HIPAA_PROVIDERS :: "string list" where
  "HIPAA_PROVIDERS = [''bedrock'', ''azure-openai'', ''ollama'']"

definition GDPR_PROVIDERS :: "string list" where
  "GDPR_PROVIDERS = [''anthropic'', ''openai'', ''azure-openai'', ''gemini'', ''bedrock'', ''ollama'', ''voyage'']"

definition mode_none :: compliance_mode where
  "mode_none = \<lparr>cm_label = ''None'', cm_allowed = None, cm_guardrails = None, cm_retention = 90,
     cm_features = [(''url.fetch'', True), (''memory.export'', True)], cm_endpoints = [(''export'', False), (''erasure'', False)]\<rparr>"

definition MODES :: "(string, compliance_mode) omap" where
  "MODES = [(''none'', mode_none),
     (''hipaa'', \<lparr>cm_label = ''HIPAA'', cm_allowed = Some HIPAA_PROVIDERS, cm_guardrails = Some [(''pii'', True, ''redact'')],
        cm_retention = 2190, cm_features = [(''url.fetch'', False), (''memory.export'', False)], cm_endpoints = [(''export'', False), (''erasure'', False)]\<rparr>),
     (''gdpr'', \<lparr>cm_label = ''GDPR'', cm_allowed = Some GDPR_PROVIDERS, cm_guardrails = Some [(''pii'', True, ''redact'')],
        cm_retention = 1825, cm_features = [(''url.fetch'', True), (''memory.export'', True)], cm_endpoints = [(''export'', True), (''erasure'', True)]\<rparr>)]"

text \<open>The names inherited from the object prototype find a function without any of the fields; no
  rule of it applies, as for the mode none, which stands for it here.\<close>

definition getMode :: "string \<Rightarrow> compliance_mode" where
  "getMode key = (case oget MODES key of Some m \<Rightarrow> m | None \<Rightarrow> mode_none)"

definition region_words :: "string \<Rightarrow> string list \<Rightarrow> regex" where
  "region_words r ws = rx_i (r_seq [RWordB, r_lit (r @ ''-''), r_words ws, RWordB])"

definition region_label :: "string \<Rightarrow> regex" where
  "region_label r = rx_i (r_seq [r_chr (CHR ''.''), r_lit r, r_set ''.-''])"

definition REGION_PATTERNS :: "(string, regex list) omap" where
  "REGION_PATTERNS =
     [(''us'', [region_label ''us'', region_words ''us'' [''east'', ''west'', ''central''], rx_i (r_seq [r_lit ''.amazonaws.com'', REol]),
         rx_i (r_lit ''api.openai.com''), rx_i (r_lit ''api.anthropic.com''), rx_i (r_lit ''us.api.'')]),
      (''eu'', [region_label ''eu'', region_words ''eu'' [''west'', ''central'', ''north'', ''south''], rx_i (r_lit ''europe-''), rx_i (r_lit ''eu.api.'')]),
      (''apac'', [region_label ''ap'', region_words ''ap'' [''southeast'', ''northeast'', ''south'', ''east''], rx_i (r_lit ''asia-''), rx_i (r_lit ''apac.api.'')])]"

definition REGION_LABELS :: "(string \<times> string) list" where
  "REGION_LABELS = [(''global'', ''Global (no restriction)''), (''us'', ''US''), (''eu'', ''EU''), (''apac'', ''Asia-Pacific'')]"

definition listModes :: "(string \<times> compliance_mode) list" where
  "listModes = MODES"

definition listRegions :: "(string \<times> string) list" where
  "listRegions = REGION_LABELS"

definition regionMatches :: "string \<Rightarrow> string \<Rightarrow> bool" where
  "regionMatches residency baseUrl =
     (if residency = [] \<or> residency = ''global'' then True
      else if baseUrl = [] then True
      else list_ex (\<lambda>p. re_test p baseUrl) (case oget REGION_PATTERNS residency of Some ps \<Rightarrow> ps | None \<Rightarrow> []))"

text \<open>\<open>Array.from(new Set(xs))\<close>.\<close>

definition set_array :: "string list \<Rightarrow> string list" where
  "set_array xs = foldl (\<lambda>acc x. if x \<in> set acc then acc else acc @ [x]) [] xs"

definition effectiveAllowedProviders :: "(string \<Rightarrow> string) \<Rightarrow> string \<Rightarrow> string list option" where
  "effectiveAllowedProviders env modeKey =
     (case cm_allowed (getMode modeKey) of
        None \<Rightarrow> None
      | Some allowed \<Rightarrow>
          let overrideRaw = env (''COMPLIANCE_'' @ upper_str modeKey @ ''_PROVIDERS'') in
          if overrideRaw = [] then Some allowed
          else Some (set_array (allowed @ filter (\<lambda>s. s \<noteq> []) (map trim (split_str '','' overrideRaw)))))"


section \<open>The settings of a workspace\<close>

record ws_compliance =
  ws_mode :: string
  ws_residency :: string
  ws_settings :: js

definition no_compliance :: ws_compliance where
  "no_compliance = \<lparr>ws_mode = ''none'', ws_residency = ''global'', ws_settings = JObj []\<rparr>"

text \<open>The columns of the workspace's row; an empty string stands for NULL.\<close>

type_synonym compliance_db = "string \<Rightarrow> (string \<times> string \<times> js) option js_result"

definition resolve_compliance :: "(string \<times> string \<times> js) option js_result \<Rightarrow> ws_compliance" where
  "resolve_compliance q =
     (case q of
        Inr (Some (mode, residency, settings)) \<Rightarrow>
          \<lparr>ws_mode = (if mode = [] then ''none'' else mode), ws_residency = (if residency = [] then ''global'' else residency),
           ws_settings = js_or settings (JObj [])\<rparr>
      | _ \<Rightarrow> no_compliance)"

type_synonym compliance_cache = "(string, ws_compliance) ttl_map"

definition loadWorkspaceCompliance :: "compliance_db \<Rightarrow> nat \<Rightarrow> string \<Rightarrow> compliance_cache \<Rightarrow> ws_compliance \<times> compliance_cache" where
  "loadWorkspaceCompliance db now workspaceId cache =
     (if workspaceId = [] then (no_compliance, cache)
      else read_through ttl_get (ttl_put 30000) now workspaceId (resolve_compliance (db workspaceId)) cache)"

definition evictComplianceCache :: "string \<Rightarrow> compliance_cache \<Rightarrow> compliance_cache" where
  "evictComplianceCache workspaceId cache = (if workspaceId \<noteq> [] then odel workspaceId cache else cache)"


section \<open>The checks\<close>

definition compliance_error :: "string \<Rightarrow> (string \<times> js) list \<Rightarrow> js_error" where
  "compliance_error m details = http_error 403 ''COMPLIANCE_BLOCKED'' m (JObj details)"

definition regionMatchesAwsRegion :: "string \<Rightarrow> js \<Rightarrow> bool" where
  "regionMatchesAwsRegion residency awsRegion =
     (let r = lower_str (js_string awsRegion) in
      if residency = ''us'' then starts_with r ''us-''
      else if residency = ''eu'' then starts_with r ''eu-''
      else if residency = ''apac'' then starts_with r ''ap-''
      else True)"

definition residency_check :: "ws_compliance \<Rightarrow> string \<Rightarrow> js \<Rightarrow> unit js_result" where
  "residency_check ws provider cfg =
     (let res = ws_residency ws; aws = js_get cfg ''awsRegion'' in
      if res = [] \<or> res = ''global'' then Inr ()
      else if provider = ''bedrock'' \<and> truthy aws then
        (if \<not> regionMatchesAwsRegion res aws
         then Inl (compliance_error (''Bedrock awsRegion '' @ quoted (js_string aws) @ '' doesn'' @ [CHR 0x27] @ ''t match workspace residency '' @ quoted res @ ''.'')
                [(''rule'', JStr ''residency''), (''provider'', JStr provider), (''awsRegion'', aws), (''residency'', JStr res)])
         else Inr ())
      else let baseUrl = js_or (js_or (js_get cfg ''baseUrl'') (js_get cfg ''url'')) (JStr []) in
        if truthy baseUrl then
          (if \<not> regionMatches res (js_string baseUrl)
           then Inl (compliance_error (''Endpoint '' @ quoted (js_string baseUrl) @ '' doesn'' @ [CHR 0x27] @ ''t match workspace residency '' @ quoted res @ ''. Use a region-appropriate URL.'')
                  [(''rule'', JStr ''residency''), (''baseUrl'', baseUrl), (''residency'', JStr res)])
           else Inr ())
        else if provider \<in> {''openai'', ''anthropic''} \<and> res \<in> {''eu'', ''apac''}
        then Inl (compliance_error (''Direct '' @ provider @ '' endpoints are served from the US. Use Azure OpenAI or Bedrock with a '' @ upper_str res @ '' region to satisfy residency.'')
               [(''rule'', JStr ''residency''), (''provider'', JStr provider), (''residency'', JStr res)])
        else Inr ())"

text \<open>\<open>(providerCfg.provider || "").toLowerCase()\<close>: a value that is no string has no such method.\<close>

definition provider_of :: "js \<Rightarrow> string js_result" where
  "provider_of cfg = (case js_or (js_get cfg ''provider'') (JStr []) of JStr s \<Rightarrow> Inr (lower_str s)
     | _ \<Rightarrow> Inl (plain_error ''toLowerCase is not a function''))"

definition assertProviderAllowed :: "(string \<Rightarrow> string) \<Rightarrow> ws_compliance \<Rightarrow> js \<Rightarrow> unit js_result" where
  "assertProviderAllowed env ws cfg =
     (if ws_mode ws = ''none'' then Inr ()
      else res_bind (provider_of cfg) (\<lambda>provider.
        case effectiveAllowedProviders env (ws_mode ws) of
          Some allowed \<Rightarrow>
            if provider \<noteq> [] \<and> provider \<notin> set allowed
            then Inl (compliance_error (''Provider '' @ quoted provider @ '' is not allowed under '' @ cm_label (getMode (ws_mode ws))
                   @ ''. Allowed: '' @ join_str '', '' allowed @ ''.'')
                   [(''rule'', JStr ''provider''), (''provider'', JStr provider), (''allowed'', JArr (map JStr allowed))])
            else residency_check ws provider cfg
        | None \<Rightarrow> residency_check ws provider cfg))"

definition assertFeature :: "ws_compliance \<Rightarrow> string \<Rightarrow> unit js_result" where
  "assertFeature ws featureKey =
     (if ws_mode ws = ''none'' then Inr ()
      else let mode = getMode (ws_mode ws) in
        if oget (cm_features mode) featureKey = Some False
        then Inl (compliance_error (''Feature '' @ quoted featureKey @ '' is disabled under '' @ cm_label mode @ ''.'')
               [(''rule'', JStr ''feature''), (''feature'', JStr featureKey)])
        else Inr ())"

fun floor_loop :: "string \<Rightarrow> js \<Rightarrow> (string \<times> bool \<times> string) list \<Rightarrow> unit js_result" where
  "floor_loop label config [] = Inr ()"
| "floor_loop label config ((detector, must, mode) # rest) =
     (let cur = js_or (js_get config detector) (JObj []) in
      if must \<and> \<not> truthy (js_get cur ''enabled'')
      then Inl (compliance_error (''Guardrail '' @ quoted detector @ '' must be enabled under '' @ label @ ''.'')
             [(''rule'', JStr ''guardrail.required''), (''detector'', JStr detector)])
      else if mode \<noteq> [] \<and> js_get cur ''mode'' \<noteq> JStr mode
      then Inl (compliance_error (''Guardrail '' @ quoted detector @ '' must use mode '' @ quoted mode @ '' under '' @ label @ ''.'')
             [(''rule'', JStr ''guardrail.mode''), (''detector'', JStr detector), (''requiredMode'', JStr mode)])
      else floor_loop label config rest)"

definition assertGuardrailFloor :: "ws_compliance \<Rightarrow> js \<Rightarrow> unit js_result" where
  "assertGuardrailFloor ws proposed =
     (if ws_mode ws = ''none'' then Inr ()
      else case cm_guardrails (getMode (ws_mode ws)) of
             None \<Rightarrow> Inr ()
           | Some required \<Rightarrow> floor_loop (cm_label (getMode (ws_mode ws))) proposed required)"


section \<open>Writing a guardrail policy\<close>

definition APPLY_TO_VALUES :: "string list" where
  "APPLY_TO_VALUES = [''input'', ''output'', ''both'', ''none'']"

definition DETECTOR_MODES :: "(string, string list) omap" where
  "DETECTOR_MODES = [(''pii'', [''redact'', ''block'', ''warn'']), (''toxicity'', [''block'', ''warn'']), (''jailbreak'', [''block'', ''warn''])]"

definition clamp01 :: "js \<Rightarrow> rat" where
  "clamp01 n = (case js_number n of Fin v \<Rightarrow> max 0 (min 1 v) | _ \<Rightarrow> 1/2)"

text \<open>The entry of one detector, from its proposed object and the modes it has.\<close>

definition sanitise_one :: "string \<Rightarrow> string list \<Rightarrow> js \<Rightarrow> js js_result" where
  "sanitise_one name modes d =
     (let mode = js_or (js_get d ''mode'') (JStr (if ''warn'' \<in> set modes then ''warn'' else ''block'')) in
      if mode \<notin> JStr ` set modes
      then Inl (validation_error (''detector '' @ quoted name @ '': mode '' @ quoted (js_string mode) @ '' not valid; choose '' @ join_str '', '' modes) JUndef)
      else Inr (JObj ([(''enabled'', JBool (truthy (js_get d ''enabled''))), (''mode'', mode)]
        @ (if name = ''pii'' \<and> is_array (js_get d ''types'') then [(''types'', js_get d ''types'')] else [])
        @ (if name = ''toxicity'' \<and> is_array (js_get d ''categories'') then [(''categories'', js_get d ''categories'')] else [])
        @ (if name = ''toxicity'' \<and> truthy (js_get d ''model'') then [(''model'', JStr (js_string (js_get d ''model'')))] else [])
        @ (if (name = ''toxicity'' \<or> name = ''jailbreak'') \<and> \<not> nullish (js_get d ''threshold'')
           then [(''threshold'', JNum (clamp01 (js_get d ''threshold'')))] else []))))"

fun sanitise_loop :: "js \<Rightarrow> (string \<times> string list) list \<Rightarrow> (string \<times> js) list js_result" where
  "sanitise_loop raw [] = Inr []"
| "sanitise_loop raw ((name, modes) # rest) =
     (if \<not> is_objlike (js_get raw name) then sanitise_loop raw rest
      else res_bind (sanitise_one name modes (js_get raw name)) (\<lambda>d.
        res_bind (sanitise_loop raw rest) (\<lambda>ds. Inr ((name, d) # ds))))"

definition sanitiseConfig :: "js \<Rightarrow> js js_result" where
  "sanitiseConfig raw =
     (if \<not> is_objlike raw then Inr (JObj []) else res_bind (sanitise_loop raw DETECTOR_MODES) (\<lambda>out. Inr (JObj out)))"

definition enabledList :: "js \<Rightarrow> string list" where
  "enabledList config = map fst (filter (\<lambda>(k, v). truthy (js_get v ''enabled'')) (js_entries config))"

text \<open>
  \<open>PUT /guardrails/policy\<close>: the row the upsert writes for the project (the cached policy of the
  project is then dropped), or the validation error.
\<close>

definition put_guardrail_policy :: "ws_compliance \<Rightarrow> js \<Rightarrow> js js_result" where
  "put_guardrail_policy ws body =
     (let applyTo = js_string (js_or (js_get body ''apply_to'') (JStr ''both'')) in
      if applyTo \<notin> set APPLY_TO_VALUES
      then Inl (validation_error (''apply_to must be one of '' @ join_str '', '' APPLY_TO_VALUES) JUndef)
      else res_bind (sanitiseConfig (js_get body ''config'')) (\<lambda>config.
        case assertGuardrailFloor ws config of
          Inl e \<Rightarrow> Inl (if e_code e = Some ''COMPLIANCE_BLOCKED'' then validation_error (e_message e) JUndef else e)
        | Inr _ \<Rightarrow> Inr (JObj [(''apply_to'', JStr applyTo), (''config'', config)])))"


section \<open>Writing the settings\<close>

definition VALID_REGIONS :: "string list" where
  "VALID_REGIONS = [''global'', ''us'', ''eu'', ''apac'']"

text \<open>
  \<open>PUT /compliance\<close>: the columns the UPDATE sets, in order, or the validation error.  Membership in
  a Set is strict, so a truthy mode or region that is no string is refused.
\<close>

definition put_compliance :: "js \<Rightarrow> (string \<times> js) list js_result" where
  "put_compliance body =
     (let mode = js_get body ''mode''; residency = js_get body ''residency''; settings = js_get body ''settings'' in
      if truthy mode \<and> mode \<notin> JStr ` set (map fst MODES)
      then Inl (validation_error (''mode must be one of: '' @ join_str '', '' (map fst MODES)) JUndef)
      else if truthy residency \<and> residency \<notin> JStr ` set VALID_REGIONS
      then Inl (validation_error (''residency must be one of: '' @ join_str '', '' VALID_REGIONS) JUndef)
      else if settings \<noteq> JUndef \<and> truthy settings \<and> \<not> is_objlike settings
      then Inl (validation_error ''settings must be an object'' JUndef)
      else Inr ((if mode \<noteq> JUndef then [(''compliance_mode'', mode)] else [])
        @ (if residency \<noteq> JUndef then [(''data_residency'', residency)] else [])
        @ (if settings \<noteq> JUndef then [(''compliance_settings'', js_or settings (JObj []))] else [])))"


section \<open>The properties\<close>

text \<open>A provider configuration's endpoint, and whether it satisfies a residency.\<close>

definition endpoint_of :: "js \<Rightarrow> js" where
  "endpoint_of cfg = js_or (js_or (js_get cfg ''baseUrl'') (js_get cfg ''url'')) (JStr [])"

definition resides :: "string \<Rightarrow> string \<Rightarrow> js \<Rightarrow> bool" where
  "resides res provider cfg =
     (if provider = ''bedrock'' \<and> truthy (js_get cfg ''awsRegion'') then regionMatchesAwsRegion res (js_get cfg ''awsRegion'')
      else if truthy (endpoint_of cfg) then regionMatches res (js_string (endpoint_of cfg))
      else provider \<notin> {''openai'', ''anthropic''} \<or> res \<notin> {''eu'', ''apac''})"

lemma residency_check_iff:
  "residency_check ws provider cfg = Inr () \<longleftrightarrow> ws_residency ws = [] \<or> ws_residency ws = ''global'' \<or> resides (ws_residency ws) provider cfg"
  by (simp add: residency_check_def resides_def endpoint_of_def Let_def)

text \<open>The provider gate (\<open>assertProviderAllowed\<close>): a configuration is accepted exactly when the
  workspace has no mode, or its provider is empty or on the mode's effective allow-list, and under
  a residency other than global its Bedrock region or its endpoint matches the region; with no
  endpoint at all, only OpenAI and Anthropic are refused, for eu and apac.  Under HIPAA without an
  override the list is Bedrock, Azure OpenAI and Ollama.\<close>

theorem provider_gate:
  "(assertProviderAllowed env ws cfg = Inr () \<longleftrightarrow>
     ws_mode ws = ''none'' \<or>
     (\<exists>provider. provider_of cfg = Inr provider \<and>
        (case effectiveAllowedProviders env (ws_mode ws) of None \<Rightarrow> True | Some allowed \<Rightarrow> provider = [] \<or> provider \<in> set allowed) \<and>
        (ws_residency ws = [] \<or> ws_residency ws = ''global'' \<or> resides (ws_residency ws) provider cfg)))
   \<and> effectiveAllowedProviders (\<lambda>_. []) ''hipaa'' = Some [''bedrock'', ''azure-openai'', ''ollama'']"
proof
  show "effectiveAllowedProviders (\<lambda>_. []) ''hipaa'' = Some [''bedrock'', ''azure-openai'', ''ollama'']" by code_simp
  show "assertProviderAllowed env ws cfg = Inr () \<longleftrightarrow>
     ws_mode ws = ''none'' \<or>
     (\<exists>provider. provider_of cfg = Inr provider \<and>
        (case effectiveAllowedProviders env (ws_mode ws) of None \<Rightarrow> True | Some allowed \<Rightarrow> provider = [] \<or> provider \<in> set allowed) \<and>
        (ws_residency ws = [] \<or> ws_residency ws = ''global'' \<or> resides (ws_residency ws) provider cfg))"
    unfolding residency_check_iff [symmetric]
    by (auto simp: assertProviderAllowed_def res_bind_eq_Inr split: option.splits if_splits)
qed

text \<open>What a written policy says about PII, once merged on the defaults.\<close>

lemma written_policy:
  assumes "put_guardrail_policy ws body = Inr row"
  obtains config where "row = JObj [(''apply_to'', js_get row ''apply_to''), (''config'', config)]"
    "sanitiseConfig (js_get body ''config'') = Inr config" "assertGuardrailFloor ws config = Inr ()"
proof -
  from assms obtain config where c: "sanitiseConfig (js_get body ''config'') = Inr config"
    by (auto simp: put_guardrail_policy_def Let_def res_bind_eq_Inr split: if_splits)
  show thesis
    using assms that [of config] c by (cases "assertGuardrailFloor ws config") (auto simp: put_guardrail_policy_def Let_def split: if_splits)
qed

lemma sanitised_pii:
  assumes "sanitiseConfig raw = Inr config" "truthy (js_get config ''pii'')"
  shows "\<exists>en mode more. js_get config ''pii'' = JObj ([(''enabled'', JBool en), (''mode'', mode)] @ more) \<and> (more = [] \<or> (\<exists>ts. more = [(''types'', ts)]))"
proof -
  obtain out where out: "config = JObj out" "is_objlike raw \<Longrightarrow> sanitise_loop raw DETECTOR_MODES = Inr out" "\<not> is_objlike raw \<Longrightarrow> out = []"
    using assms(1) by (auto simp: sanitiseConfig_def res_bind_eq_Inr split: if_splits)
  have obj: "is_objlike raw" using out assms(2) by (cases "is_objlike raw") auto
  have tail: "''pii'' \<notin> fst ` set ds" if "sanitise_loop raw [(''toxicity'', a), (''jailbreak'', b)] = Inr ds" for a b ds
    using that by (auto simp: res_bind_eq_Inr split: if_splits)
  have "oget out ''pii'' \<noteq> None" using assms(2) out(1) by (auto split: option.splits)
  then obtain d where d: "oget out ''pii'' = Some d" by blast
  have "\<exists>modes. sanitise_one ''pii'' modes (js_get raw ''pii'') = Inr d"
    using out(2) [OF obj] d tail
    by (auto simp: DETECTOR_MODES_def res_bind_eq_Inr dest!: map_of_SomeD split: if_splits)
  then show ?thesis using d out(1) by (auto simp: sanitise_one_def Let_def split: if_splits)
qed

lemma floor_pii:
  assumes "assertGuardrailFloor ws config = Inr ()" "ws_mode ws \<in> {''hipaa'', ''gdpr''}"
  shows "truthy (js_get config ''pii'')" "truthy (js_get (js_get config ''pii'') ''enabled'')" "js_get (js_get config ''pii'') ''mode'' = JStr ''redact''"
  using assms by (auto simp: assertGuardrailFloor_def getMode_def MODES_def js_or_def Let_def split: if_splits)

lemma floor_policy:
  assumes "ws_mode ws \<in> {''hipaa'', ''gdpr''}" "put_guardrail_policy ws body = Inr row"
  defines "cfg \<equiv> js_get (js_get (mergeOnDefault row) ''config'') ''pii''"
  shows "truthy (js_get cfg ''enabled'')" "js_get cfg ''mode'' = JStr ''redact''"
proof -
  obtain config where c: "row = JObj [(''apply_to'', js_get row ''apply_to''), (''config'', config)]"
    "sanitiseConfig (js_get body ''config'') = Inr config" "assertGuardrailFloor ws config = Inr ()"
    using written_policy [OF assms(2)] by blast
  note f = floor_pii [OF c(3) assms(1)]
  obtain en mode extra where pii: "js_get config ''pii'' = JObj ([(''enabled'', JBool en), (''mode'', mode)] @ extra)"
    "extra = [] \<or> (\<exists>ts. extra = [(''types'', ts)])"
    using sanitised_pii [OF c(2) f(1)] by blast
  have em: "JBool en = JBool True" "mode = JStr ''redact''" using f(2,3) pii(1) by simp_all
  have "js_get (js_get row ''config'') ''pii'' = js_get config ''pii''" by (subst c(1)) simp
  then have cfg: "cfg = spread (default_config ''pii'') (JObj ([(''enabled'', JBool True), (''mode'', JStr ''redact'')] @ extra))"
    using pii(1) em by (simp add: cfg_def mergeOnDefault_def policy_def js_or_def)
  show "truthy (js_get cfg ''enabled'')" "js_get cfg ''mode'' = JStr ''redact''"
    using pii(2) by (auto simp: cfg spread_def default_config_def omerge_Cons)
qed

text \<open>C20.  The compliance floor (\<open>assertGuardrailFloor\<close> inside \<open>PUT /guardrails/policy\<close>, then
  \<open>loadProjectPolicy\<close> and \<open>applyGuardrails\<close>): under HIPAA and GDPR every policy the endpoint writes,
  where it covers a side, redacts: a covered text with a PII match either comes out as the
  redaction of its matches or is stopped by a blocking detector.\<close>

theorem floor_redacts:
  assumes "ws_mode ws \<in> {''hipaa'', ''gdpr''}" "put_guardrail_policy ws body = Inr row"
    "covers (mergeOnDefault row) side" "t \<noteq> []"
    "allowed_types (js_get (js_get (js_get (mergeOnDefault row) ''config'') ''pii'') ''types'') = Inr types" "scan t types \<noteq> []"
  shows "case fst (applyGuardrails env t side (mergeOnDefault row) ctx) of
      Inr (t', vs) \<Rightarrow> t' = redact_matches t (scan t types) \<and> v_action (hd vs) = ''redacted''
    | Inl e \<Rightarrow> e_code e = Some ''GUARDRAIL_BLOCKED''"
proof -
  let ?config = "js_get (mergeOnDefault row) ''config''" and ?rest = "[''jailbreak'', ''toxicity'']"
  let ?cfg = "js_get ?config ''pii''"
  note f = floor_policy [OF assms(1,2)]
  define result where "result = pii_value \<lparr>r_flagged = True, r_matches = map (\<lambda>m. (m_type m, m_label m, m_preview m)) (scan t types),
    r_redacted = Some (redact_matches t (scan t types))\<rparr>"
  have d: "detect env ''pii'' t ?cfg = Inr result"
    using assms(4-6) by (simp add: detect_def pii_detect_def result_def Let_def)
  have fl: "truthy (js_get result ''flagged'')" "js_get result ''redacted'' = JStr (redact_matches t (scan t types))"
    by (simp_all add: result_def pii_value_def Let_def)
  have act: "action_for ?cfg result = ''redacted''" using f(2) fl(2) by (simp add: action_for_def)
  define v where "v = \<lparr>v_detector = ''pii'', v_mode = js_get ?cfg ''mode'', v_action = ''redacted'', v_details = summariseDetails ''pii'' result\<rparr>"
  obtain ws r where loop: "guard_loop env side ?config ?rest (redact_matches t (scan t types)) [v] = (ws, r)" by fastforce
  have run: "guard_loop env side ?config RUN_ORDER t [] = (ws, r)"
    using f(1) d fl act loop by (simp add: RUN_ORDER_def v_def Let_def)
  have pre: "\<exists>us. ws = v # us" by (rule guard_loop_extends [OF loop])
  show ?thesis
  proof (cases r)
    case (Inl e)
    then show ?thesis using loop_outcome [OF run] assms(3,4) run by (auto simp: applyGuardrails_def passed_def)
  next
    case (Inr t')
    then have "t' = redact_matches t (scan t types)" using loop_keeps_text [OF _ loop [unfolded Inr]] by simp
    then show ?thesis using Inr run pre assms(3,4) by (auto simp: applyGuardrails_def v_def)
  qed
qed

definition hipaa :: ws_compliance where
  "hipaa = \<lparr>ws_mode = ''hipaa'', ws_residency = ''global'', ws_settings = JObj []\<rparr>"

definition ssn_body :: "string \<Rightarrow> js" where
  "ssn_body applyTo = JObj [(''apply_to'', JStr applyTo), (''config'', JObj [(''pii'', JObj [(''enabled'', JBool True), (''mode'', JStr ''redact''), (''types'', JArr [JStr ''ssn''])])])]"

theorem floor_redacts_witness:
  "case fst (applyGuardrails sample_env ''I am 123-45-6789.'' ''input'' (mergeOnDefault (projr (put_guardrail_policy hipaa (ssn_body ''both'')))) no_ctx) of
      Inr (t', vs) \<Rightarrow> t' = redact_matches ''I am 123-45-6789.'' (scan ''I am 123-45-6789.'' [''ssn'']) \<and> v_action (hd vs) = ''redacted''
    | Inl e \<Rightarrow> e_code e = Some ''GUARDRAIL_BLOCKED''"
proof (rule floor_redacts)
  show "ws_mode hipaa \<in> {''hipaa'', ''gdpr''}" by (simp add: hipaa_def)
  show "put_guardrail_policy hipaa (ssn_body ''both'') = Inr (projr (put_guardrail_policy hipaa (ssn_body ''both'')))" by code_simp
  show "covers (mergeOnDefault (projr (put_guardrail_policy hipaa (ssn_body ''both'')))) ''input''" by code_simp
  show "allowed_types (js_get (js_get (js_get (mergeOnDefault (projr (put_guardrail_policy hipaa (ssn_body ''both'')))) ''config'') ''pii'') ''types'') = Inr [''ssn'']"
    by code_simp
  show "scan ''I am 123-45-6789.'' [''ssn''] \<noteq> []" by code_simp
qed simp

text \<open>What the floor does not cover: in a HIPAA workspace a social security number still passes
  unchanged through a policy the endpoint accepts with \<open>apply_to\<close> none, through an accepted policy
  an agent overrides, and in a project whose policy was never written.\<close>

theorem floor_has_holes:
  "(case put_guardrail_policy hipaa (ssn_body ''none'') of Inl _ \<Rightarrow> False
    | Inr row \<Rightarrow> fst (applyGuardrails sample_env ''123-45-6789'' ''input'' (mergeOnDefault row) no_ctx) = Inr (''123-45-6789'', []))
   \<and> (case put_guardrail_policy hipaa (ssn_body ''both'') of Inl _ \<Rightarrow> False
    | Inr row \<Rightarrow> fst (applyGuardrails sample_env ''123-45-6789'' ''input''
        (mergePolicy (mergeOnDefault row) (JObj [(''pii'', JObj [(''enabled'', JBool False)])])) no_ctx) = Inr (''123-45-6789'', []))
   \<and> fst (applyGuardrails sample_env ''123-45-6789'' ''input'' (resolve_policy (Inr None)) no_ctx) = Inr (''123-45-6789'', [])"
proof (intro conjI)
  show "case put_guardrail_policy hipaa (ssn_body ''none'') of Inl _ \<Rightarrow> False
    | Inr row \<Rightarrow> fst (applyGuardrails sample_env ''123-45-6789'' ''input'' (mergeOnDefault row) no_ctx) = Inr (''123-45-6789'', [])"
    by code_simp
  show "case put_guardrail_policy hipaa (ssn_body ''both'') of Inl _ \<Rightarrow> False
    | Inr row \<Rightarrow> fst (applyGuardrails sample_env ''123-45-6789'' ''input''
        (mergePolicy (mergeOnDefault row) (JObj [(''pii'', JObj [(''enabled'', JBool False)])])) no_ctx) = Inr (''123-45-6789'', [])"
    by code_simp
  show "fst (applyGuardrails sample_env ''123-45-6789'' ''input'' (resolve_policy (Inr None)) no_ctx) = Inr (''123-45-6789'', [])"
    by code_simp
qed

end
