(* ===== verification/Sql.thy ===== *)
theory Sql
  imports Errors
begin

text \<open>
  The statements the backend sends to PostgreSQL, for the components whose behaviour depends on the
  schema: a statement names a table and columns, fails when one of them does not exist or a CHECK
  constraint refuses the new row, and otherwise reads or rewrites the rows its conditions select.
  A row is an object of column values; an absent column is NULL.
\<close>

type_synonym row = "(string \<times> js) list"
type_synonym sql_db = "(string, row list) omap"

record table_def =
  t_columns :: "string list"
  t_checks :: "(string \<times> string list) list"   \<comment> \<open>column, admitted texts\<close>

type_synonym schema = "(string, table_def) omap"

datatype cond = ColEq string js | ColNotNull string

datatype stmt =
    Select string "string list" "cond list" string
  | Update string row "cond list"
  | Delete string "cond list"
  | Insert string row

definition col :: "row \<Rightarrow> string \<Rightarrow> js" where
  "col r c = (case oget r c of Some v \<Rightarrow> v | None \<Rightarrow> JNull)"

text \<open>A comparison with NULL does not hold.\<close>

fun holds :: "row \<Rightarrow> cond \<Rightarrow> bool" where
  "holds r (ColEq c v) = (col r c = v \<and> v \<noteq> JNull)"
| "holds r (ColNotNull c) = (col r c \<noteq> JNull)"

fun cond_column :: "cond \<Rightarrow> string" where
  "cond_column (ColEq c v) = c"
| "cond_column (ColNotNull c) = c"

fun stmt_table :: "stmt \<Rightarrow> string" where
  "stmt_table (Select t cs ws ord) = t"
| "stmt_table (Update t sets ws) = t"
| "stmt_table (Delete t ws) = t"
| "stmt_table (Insert t r) = t"

fun stmt_columns :: "stmt \<Rightarrow> string list" where
  "stmt_columns (Select t cs ws ord) = cs @ map cond_column ws @ [ord]"
| "stmt_columns (Update t sets ws) = map fst sets @ map cond_column ws"
| "stmt_columns (Delete t ws) = map cond_column ws"
| "stmt_columns (Insert t r) = map fst r"

text \<open>The statement names what exists.\<close>

definition named_ok :: "schema \<Rightarrow> stmt \<Rightarrow> bool" where
  "named_ok sch s = (case oget sch (stmt_table s) of None \<Rightarrow> False
     | Some d \<Rightarrow> list_all (\<lambda>c. c \<in> set (t_columns d)) (stmt_columns s))"

text \<open>A CHECK admits NULL and the listed texts.\<close>

definition check_ok :: "schema \<Rightarrow> string \<Rightarrow> row \<Rightarrow> bool" where
  "check_ok sch t r = (case oget sch t of None \<Rightarrow> False
     | Some d \<Rightarrow> list_all (\<lambda>(c, vs). col r c = JNull \<or> col r c \<in> JStr ` set vs) (t_checks d))"

definition set_cols :: "row \<Rightarrow> row \<Rightarrow> row" where
  "set_cols sets r = omerge r sets"

definition matching :: "cond list \<Rightarrow> row \<Rightarrow> bool" where
  "matching ws r = list_all (holds r) ws"

definition rows_of :: "sql_db \<Rightarrow> string \<Rightarrow> row list" where
  "rows_of db t = (case oget db t of Some rs \<Rightarrow> rs | None \<Rightarrow> [])"

definition when_of :: "row \<Rightarrow> string \<Rightarrow> rat" where
  "when_of r c = (case col r c of JNum n \<Rightarrow> n | _ \<Rightarrow> 0)"

definition sql_error :: js_error where
  "sql_error = plain_error ''query failed''"

text \<open>The rows, the row count and the new database, or the error.\<close>

definition run_sql :: "schema \<Rightarrow> stmt \<Rightarrow> sql_db \<Rightarrow> (row list \<times> nat \<times> sql_db) js_result" where
  "run_sql sch s db =
     (if \<not> named_ok sch s then Inl sql_error
      else case s of
        Select t cs ws ord \<Rightarrow>
          let rs = sort_key (\<lambda>r. when_of r ord) (filter (matching ws) (rows_of db t))
          in Inr (map (\<lambda>r. map (\<lambda>c. (c, col r c)) cs) rs, length rs, db)
      | Update t sets ws \<Rightarrow>
          let hits = filter (matching ws) (rows_of db t) in
          if \<not> list_all (\<lambda>r. check_ok sch t (set_cols sets r)) hits then Inl sql_error
          else Inr ([], length hits, oset t (map (\<lambda>r. if matching ws r then set_cols sets r else r) (rows_of db t)) db)
      | Delete t ws \<Rightarrow>
          Inr ([], length (filter (matching ws) (rows_of db t)), oset t (filter (\<lambda>r. \<not> matching ws r) (rows_of db t)) db)
      | Insert t r \<Rightarrow>
          if \<not> check_ok sch t r then Inl sql_error else Inr ([], 1, oset t (rows_of db t @ [r]) db))"

definition res_fold :: "('a \<Rightarrow> 's \<Rightarrow> 'e + 's) \<Rightarrow> 'a list \<Rightarrow> 's \<Rightarrow> 'e + 's" where
  "res_fold f xs s = foldl (\<lambda>r x. res_bind r (f x)) (Inr s) xs"

lemma rows_of_oset [simp]: "rows_of (oset t rs db) t' = (if t' = t then rs else rows_of db t')"
  by (simp add: rows_of_def)

lemma col_set_cols: "distinct (map fst sets) \<Longrightarrow> col (set_cols sets r) c = (case oget sets c of Some v \<Rightarrow> v | None \<Rightarrow> col r c)"
  by (auto simp: col_def set_cols_def oget_omerge split: option.splits)

lemma run_update:
  "run_sql sch (Update t sets ws) db = Inr x \<Longrightarrow> r \<in> set (rows_of db t) \<Longrightarrow> matching ws r \<Longrightarrow> check_ok sch t (set_cols sets r)"
  by (auto simp: run_sql_def Let_def list_all_iff split: if_splits)

end
