(* ===== verification/DataSubject.thy ===== *)
theory DataSubject
  imports Compliance Sql
begin

text \<open>
  The data-subject endpoints of \<open>api/compliance.js\<close>: the export of a user's data
  (\<open>GET /compliance/users/:id/export\<close>) and the erasure of a user
  (\<open>DELETE /compliance/users/:id\<close>), statement by statement, over a schema.  \<open>SCHEMA\<close> is the one the
  migrations build, as far as the statements read it: the users of \<open>014_auth.sql\<close> and
  \<open>024_saml.sql\<close> with the check on their status, the memories of \<open>012_memories.sql\<close>, the executions
  and the table \<open>audit_logs\<close>.
\<close>

section \<open>The schema\<close>

definition users_def_of :: "string list \<Rightarrow> table_def" where
  "users_def_of statuses =
     \<lparr>t_columns = [''id'', ''email'', ''password_hash'', ''role'', ''workspace_id'', ''status'', ''oidc_subject'', ''display_name'',
        ''last_login_at'', ''created_at'', ''updated_at'', ''saml_subject''],
      t_checks = [(''role'', [''admin'', ''editor'', ''viewer'']), (''status'', statuses)]\<rparr>"

definition audit_columns :: "string list" where
  "audit_columns = [''id'', ''workspace_id'', ''actor_id'', ''actor_email'', ''actor_role'', ''action'', ''resource_type'', ''resource_id'',
     ''resource_name'', ''outcome'', ''metadata'', ''ip'', ''user_agent'', ''trace_id'', ''created_at'', ''project_id'', ''actor_kind'']"

definition memory_columns :: "string list" where
  "memory_columns = [''id'', ''scope'', ''scope_id'', ''namespace'', ''key'', ''seq'', ''value'', ''created_at'', ''updated_at'',
     ''workspace_id'', ''project_id'']"

definition execution_columns :: "string list" where
  "execution_columns = [''id'', ''graph_id'', ''status'', ''context'', ''error'', ''started_at'', ''finished_at'', ''created_at'', ''inputs'',
     ''workspace_id'', ''tags'', ''project_id'']"

definition erasure_def :: table_def where
  "erasure_def = \<lparr>t_columns = [''id'', ''workspace_id'', ''user_id'', ''user_email_at_erasure'', ''requested_by'', ''reason'', ''details'', ''created_at''],
     t_checks = []\<rparr>"

definition SCHEMA :: schema where
  "SCHEMA = [(''users'', users_def_of [''active'', ''disabled'']),
     (''memories'', \<lparr>t_columns = memory_columns, t_checks = []\<rparr>),
     (''executions'', \<lparr>t_columns = execution_columns, t_checks = []\<rparr>),
     (''audit_logs'', \<lparr>t_columns = audit_columns, t_checks = []\<rparr>),
     (''compliance_erasure_log'', erasure_def)]"


section \<open>The endpoints\<close>

definition loadUser :: "schema \<Rightarrow> string \<Rightarrow> string \<Rightarrow> sql_db \<Rightarrow> row option js_result" where
  "loadUser sch workspaceId userId db =
     res_bind (run_sql sch (Select ''users'' [''id'', ''email'', ''display_name'', ''role'', ''status'', ''oidc_subject'', ''saml_subject'', ''created_at'', ''updated_at'']
         [ColEq ''id'' (JStr userId), ColEq ''workspace_id'' (JStr workspaceId)] ''id'') db)
       (\<lambda>(rows, _). Inr (case rows of [] \<Rightarrow> None | r # _ \<Rightarrow> Some r))"

text \<open>\<open>pool.query(...).then(r => r.rows).catch(() => [])\<close>.\<close>

definition rows_or_none :: "schema \<Rightarrow> stmt \<Rightarrow> sql_db \<Rightarrow> row list" where
  "rows_or_none sch s db = (case run_sql sch s db of Inl _ \<Rightarrow> [] | Inr (rows, _) \<Rightarrow> rows)"

definition audit_query :: "string \<Rightarrow> string \<Rightarrow> stmt" where
  "audit_query workspaceId userId = Select ''audit_log''
     [''id'', ''action'', ''actor_id'', ''actor_kind'', ''actor_email'', ''resource_type'', ''resource_id'', ''project_id'', ''metadata'', ''ip'', ''user_agent'', ''created_at'']
     [ColEq ''workspace_id'' (JStr workspaceId), ColEq ''actor_id'' (JStr userId)] ''created_at''"

definition executions_query :: "string \<Rightarrow> string \<Rightarrow> stmt" where
  "executions_query workspaceId userId = Select ''executions'' [''id'', ''graph_id'', ''status'', ''started_at'', ''finished_at'', ''tags'']
     [ColEq ''workspace_id'' (JStr workspaceId), ColEq ''created_by'' (JStr userId)] ''started_at''"

definition memories_query :: "string \<Rightarrow> string \<Rightarrow> stmt" where
  "memories_query workspaceId userId = Select ''memories'' [''id'', ''namespace'', ''key'', ''content'', ''conversation_id'', ''role'', ''created_at'']
     [ColEq ''workspace_id'' (JStr workspaceId), ColEq ''created_by'' (JStr userId)] ''created_at''"

record user_export =
  x_user :: row
  x_audit :: "row list"
  x_executions :: "row list"
  x_memories :: "row list"

definition endpoint_on :: "ws_compliance \<Rightarrow> string \<Rightarrow> bool" where
  "endpoint_on ws name = (oget (cm_endpoints (getMode (ws_mode ws))) name = Some True)"

definition export_user :: "schema \<Rightarrow> ws_compliance \<Rightarrow> string \<Rightarrow> string \<Rightarrow> sql_db \<Rightarrow> user_export js_result" where
  "export_user sch ws workspaceId userId db =
     (if \<not> endpoint_on ws ''export''
      then Inl (forbidden_error (''Data export is not enabled under '' @ quoted (ws_mode ws)
             @ ''. Enable it by setting compliance mode to GDPR (or extend policies.js).'') JUndef)
      else res_bind (loadUser sch workspaceId userId db) (\<lambda>u. case u of
        None \<Rightarrow> Inl (not_found_error ''user'')
      | Some userRow \<Rightarrow> Inr \<lparr>x_user = userRow, x_audit = rows_or_none sch (audit_query workspaceId userId) db,
          x_executions = rows_or_none sch (executions_query workspaceId userId) db,
          x_memories = rows_or_none sch (memories_query workspaceId userId) db\<rparr>))"

definition erased_columns :: "string \<Rightarrow> nat \<Rightarrow> row" where
  "erased_columns userId now =
     [(''email'', JStr (''erased+'' @ userId @ ''@example.invalid'')), (''display_name'', JStr ''[erased]''), (''oidc_subject'', JNull),
      (''saml_subject'', JNull), (''password_hash'', JNull), (''status'', JStr ''erased''), (''updated_at'', JNum (of_nat now))]"

definition anonymise_user :: "string \<Rightarrow> nat \<Rightarrow> stmt" where
  "anonymise_user userId now = Update ''users'' (erased_columns userId now) [ColEq ''id'' (JStr userId)]"

definition delete_memories :: "string \<Rightarrow> string \<Rightarrow> stmt" where
  "delete_memories workspaceId userId = Delete ''memories'' [ColEq ''workspace_id'' (JStr workspaceId), ColEq ''created_by'' (JStr userId)]"

definition anonymise_audit :: "string \<Rightarrow> string \<Rightarrow> stmt" where
  "anonymise_audit workspaceId userId = Update ''audit_log'' [(''actor_email'', JStr ''[erased]'')]
     [ColEq ''workspace_id'' (JStr workspaceId), ColEq ''actor_id'' (JStr userId), ColNotNull ''actor_email'']"

text \<open>The transaction: the row counts and the new database, or the first error.\<close>

definition erasure_tx :: "schema \<Rightarrow> string \<Rightarrow> string \<Rightarrow> string \<Rightarrow> js \<Rightarrow> js \<Rightarrow> js \<Rightarrow> nat \<Rightarrow> sql_db \<Rightarrow> ((nat \<times> nat) \<times> sql_db) js_result" where
  "erasure_tx sch logId workspaceId userId email requester reason now db =
     res_bind (run_sql sch (anonymise_user userId now) db) (\<lambda>(_, _, db1).
     res_bind (run_sql sch (delete_memories workspaceId userId) db1) (\<lambda>(_, mem, db2).
     res_bind (run_sql sch (anonymise_audit workspaceId userId) db2) (\<lambda>(_, aud, db3).
     res_bind (run_sql sch (Insert ''compliance_erasure_log''
         [(''id'', JStr logId), (''workspace_id'', JStr workspaceId), (''user_id'', JStr userId), (''user_email_at_erasure'', email),
          (''requested_by'', requester), (''reason'', reason),
          (''details'', JObj [(''memories'', JNum (of_nat mem)), (''audit_anon'', JNum (of_nat aud))])]) db3) (\<lambda>(_, _, db4).
     Inr ((mem, aud), db4)))))"

text \<open>The endpoint: the answer, and the database after it (a failed transaction is rolled back).\<close>

definition erase_user ::
  "schema \<Rightarrow> ws_compliance \<Rightarrow> string \<Rightarrow> string \<Rightarrow> string \<Rightarrow> string \<Rightarrow> js \<Rightarrow> nat \<Rightarrow> sql_db \<Rightarrow> (nat \<times> nat) js_result \<times> sql_db" where
  "erase_user sch ws logId workspaceId requester userId reason now db =
     (if \<not> endpoint_on ws ''erasure''
      then (Inl (forbidden_error (''Right-to-erasure is not enabled under '' @ quoted (ws_mode ws)
              @ ''. Enable it by setting compliance mode to GDPR.'') JUndef), db)
      else case loadUser sch workspaceId userId db of
        Inl e \<Rightarrow> (Inl e, db)
      | Inr None \<Rightarrow> (Inl (not_found_error ''user''), db)
      | Inr (Some userRow) \<Rightarrow>
          if userId = requester then (Inl (validation_error ''you cannot erase your own account; ask another admin'' JUndef), db)
          else case erasure_tx sch logId workspaceId userId (col userRow ''email'') (JStr requester) (js_or reason JNull) now db of
            Inl e \<Rightarrow> (Inl e, db)
          | Inr (counts, db') \<Rightarrow> (Inr counts, db'))"


section \<open>What holds on the schema of the migrations\<close>

lemma loadUser_row:
  assumes "loadUser sch w u db = Inr (Some r)"
  shows "\<exists>x \<in> set (rows_of db ''users''). matching [ColEq ''id'' (JStr u)] x"
proof -
  let ?ws = "[ColEq ''id'' (JStr u), ColEq ''workspace_id'' (JStr w)]"
  have "filter (matching ?ws) (rows_of db ''users'') \<noteq> []"
  proof
    assume "filter (matching ?ws) (rows_of db ''users'') = []"
    then show False using assms by (auto simp: loadUser_def run_sql_def Let_def res_bind_eq_Inr split: if_splits)
  qed
  then show ?thesis by (auto simp: filter_empty_conv matching_def)
qed

lemma anonymise_refused: "\<not> check_ok SCHEMA ''users'' (set_cols (erased_columns u now) r)"
proof -
  have "col (set_cols (erased_columns u now) r) ''status'' = JStr ''erased''"
    by (subst col_set_cols) (simp_all add: erased_columns_def)
  then show ?thesis by (simp add: check_ok_def SCHEMA_def users_def_of_def)
qed

lemma erasure_tx_fails:
  assumes "loadUser SCHEMA w u db = Inr (Some r)"
  shows "\<exists>e. erasure_tx SCHEMA l w u email req reason now db = Inl e"
proof -
  obtain x where x: "x \<in> set (rows_of db ''users'')" "matching [ColEq ''id'' (JStr u)] x"
    using loadUser_row [OF assms] by blast
  have "run_sql SCHEMA (anonymise_user u now) db \<noteq> Inr y" for y
    using run_update [OF _ x] anonymise_refused unfolding anonymise_user_def by blast
  then obtain e where "run_sql SCHEMA (anonymise_user u now) db = Inl e" by (cases "run_sql SCHEMA (anonymise_user u now) db") auto
  then show ?thesis by (simp add: erasure_tx_def)
qed

text \<open>The right to erasure never succeeds on the migrated schema (\<open>DELETE /compliance/users/:id\<close>):
  for every workspace, user and database the endpoint answers with an error and the database is
  unchanged, because the first statement sets a status the CHECK of the users table refuses.\<close>

theorem erasure_never_succeeds:
  "(case erase_user SCHEMA ws logId w requester u reason now db of (Inl e, db') \<Rightarrow> db' = db | (Inr counts, db') \<Rightarrow> False)"
proof -
  have f: "erasure_tx SCHEMA logId w u (col r ''email'') (JStr requester) (js_or reason JNull) now db \<noteq> Inr x"
    if "loadUser SCHEMA w u db = Inr (Some r)" for r x
    using erasure_tx_fails [OF that] by (metis sum.distinct(1))
  show ?thesis using f by (auto simp: erase_user_def split: sum.splits option.splits)
qed

text \<open>The export of a user's data is empty on the migrated schema
  (\<open>GET /compliance/users/:id/export\<close>): whenever it answers, the audit entries, the executions and
  the memories are empty lists, whatever the tables hold, because each query names a table or a
  column that does not exist and its failure is read as no rows.\<close>

theorem export_is_always_empty:
  "(case export_user SCHEMA ws w u db of Inl e \<Rightarrow> True | Inr x \<Rightarrow> x_audit x = [] \<and> x_executions x = [] \<and> x_memories x = [])"
proof -
  have "rows_or_none SCHEMA (audit_query w u) db = []"
    by (simp add: rows_or_none_def run_sql_def named_ok_def audit_query_def SCHEMA_def)
  moreover have "rows_or_none SCHEMA (executions_query w u) db = []"
    by (simp add: rows_or_none_def run_sql_def named_ok_def executions_query_def SCHEMA_def execution_columns_def)
  moreover have "rows_or_none SCHEMA (memories_query w u) db = []"
    by (simp add: rows_or_none_def run_sql_def named_ok_def memories_query_def SCHEMA_def memory_columns_def)
  ultimately show ?thesis by (auto simp: export_user_def res_bind_def split: sum.splits option.splits if_splits)
qed


section \<open>What the endpoint would do\<close>

lemma erasure_tx_effect:
  assumes "erasure_tx sch l w u email req reason now db = Inr (counts, db')"
  shows "rows_of db' ''users'' = map (\<lambda>r. if matching [ColEq ''id'' (JStr u)] r then set_cols (erased_columns u now) r else r) (rows_of db ''users'')"
    "rows_of db' ''memories'' = filter (\<lambda>r. \<not> matching [ColEq ''workspace_id'' (JStr w), ColEq ''created_by'' (JStr u)] r) (rows_of db ''memories'')"
    "fst counts = length (filter (matching [ColEq ''workspace_id'' (JStr w), ColEq ''created_by'' (JStr u)]) (rows_of db ''memories''))"
    "length (rows_of db' ''compliance_erasure_log'') = Suc (length (rows_of db ''compliance_erasure_log''))"
  using assms
  by (auto simp: erasure_tx_def res_bind_eq_Inr run_sql_def anonymise_user_def delete_memories_def anonymise_audit_def Let_def split: if_splits)

lemma filter_map_untouched:
  "(\<And>x. P (f x) \<longleftrightarrow> P x) \<Longrightarrow> filter (\<lambda>x. \<not> P x) (map (\<lambda>x. if P x then f x else x) xs) = filter (\<lambda>x. \<not> P x) xs"
  by (induction xs) auto

definition is_user :: "string \<Rightarrow> row \<Rightarrow> bool" where
  "is_user u r \<longleftrightarrow> col r ''id'' = JStr u"

definition memory_of :: "string \<Rightarrow> string \<Rightarrow> row \<Rightarrow> bool" where
  "memory_of w u r \<longleftrightarrow> col r ''workspace_id'' = JStr w \<and> col r ''created_by'' = JStr u"

text \<open>What erasure means where the schema lets it run (\<open>DELETE /compliance/users/:id\<close>): after a
  success every row of the user has the marker address and the status erased and no identity or
  password left, all other users are untouched, no memory created by the user remains in the
  workspace and no other memory is lost, the answer counts the deleted memories, and one line
  was added to the erasure log.\<close>

theorem erasure_erases:
  assumes "erase_user sch ws logId w requester u reason now db = (Inr (mems, auds), db')"
  shows "list_all (\<lambda>r. if is_user u r then col r ''email'' = JStr (''erased+'' @ u @ ''@example.invalid'') \<and> col r ''status'' = JStr ''erased''
        \<and> col r ''password_hash'' = JNull \<and> col r ''oidc_subject'' = JNull \<and> col r ''saml_subject'' = JNull else True) (rows_of db' ''users'')
    \<and> filter (\<lambda>r. \<not> is_user u r) (rows_of db' ''users'') = filter (\<lambda>r. \<not> is_user u r) (rows_of db ''users'')
    \<and> rows_of db' ''memories'' = filter (\<lambda>r. \<not> memory_of w u r) (rows_of db ''memories'')
    \<and> mems = length (filter (memory_of w u) (rows_of db ''memories''))
    \<and> length (rows_of db' ''compliance_erasure_log'') = Suc (length (rows_of db ''compliance_erasure_log''))"
proof -
  obtain email where tx: "erasure_tx sch logId w u email (JStr requester) (js_or reason JNull) now db = Inr ((mems, auds), db')"
    using assms by (auto simp: erase_user_def split: if_splits sum.splits option.splits)
  note eff = erasure_tx_effect [OF tx]
  have iu: "matching [ColEq ''id'' (JStr u)] r \<longleftrightarrow> is_user u r" for r by (simp add: matching_def is_user_def)
  have mo: "matching [ColEq ''workspace_id'' (JStr w), ColEq ''created_by'' (JStr u)] = memory_of w u"
    by (auto simp: matching_def memory_of_def)
  have id: "is_user u (set_cols (erased_columns u now) r) \<longleftrightarrow> is_user u r" for r
    by (simp add: is_user_def col_set_cols erased_columns_def)
  have users: "rows_of db' ''users'' = map (\<lambda>r. if is_user u r then set_cols (erased_columns u now) r else r) (rows_of db ''users'')"
    using eff(1) by (simp only: iu)
  show ?thesis
  proof (intro conjI)
    show "list_all (\<lambda>r. if is_user u r then col r ''email'' = JStr (''erased+'' @ u @ ''@example.invalid'') \<and> col r ''status'' = JStr ''erased''
        \<and> col r ''password_hash'' = JNull \<and> col r ''oidc_subject'' = JNull \<and> col r ''saml_subject'' = JNull else True) (rows_of db' ''users'')"
      by (auto simp: users list_all_iff id col_set_cols erased_columns_def)
    show "filter (\<lambda>r. \<not> is_user u r) (rows_of db' ''users'') = filter (\<lambda>r. \<not> is_user u r) (rows_of db ''users'')"
      unfolding users by (rule filter_map_untouched) (simp add: id)
    show "rows_of db' ''memories'' = filter (\<lambda>r. \<not> memory_of w u r) (rows_of db ''memories'')" using eff(2) by (simp only: mo)
    show "mems = length (filter (memory_of w u) (rows_of db ''memories''))" using eff(3) by (simp add: mo)
    show "length (rows_of db' ''compliance_erasure_log'') = Suc (length (rows_of db ''compliance_erasure_log''))" by (rule eff(4))
  qed
qed

text \<open>A schema on which the statements run.\<close>

definition amended_schema :: schema where
  "amended_schema = [(''users'', users_def_of [''active'', ''disabled'', ''erased'']),
     (''memories'', \<lparr>t_columns = ''created_by'' # memory_columns, t_checks = []\<rparr>),
     (''audit_log'', \<lparr>t_columns = audit_columns, t_checks = []\<rparr>),
     (''compliance_erasure_log'', erasure_def)]"

definition sample_tables :: sql_db where
  "sample_tables = [(''users'', [[(''id'', JStr ''u1''), (''workspace_id'', JStr ''w''), (''email'', JStr ''a@b.co''), (''status'', JStr ''active'')],
       [(''id'', JStr ''u2''), (''workspace_id'', JStr ''w''), (''email'', JStr ''c@d.eu''), (''status'', JStr ''active'')]]),
     (''memories'', [[(''workspace_id'', JStr ''w''), (''created_by'', JStr ''u1'')], [(''workspace_id'', JStr ''w''), (''created_by'', JStr ''u2'')]])]"

definition gdpr :: ws_compliance where
  "gdpr = \<lparr>ws_mode = ''gdpr'', ws_residency = ''global'', ws_settings = JObj []\<rparr>"

definition sample_erased :: sql_db where
  "sample_erased = snd (erase_user amended_schema gdpr ''log1'' ''w'' ''u2'' ''u1'' JUndef 7 sample_tables)"

theorem erasure_erases_witness:
  "rows_of sample_erased ''memories'' = filter (\<lambda>r. \<not> memory_of ''w'' ''u1'' r) (rows_of sample_tables ''memories'')
   \<and> length (rows_of sample_erased ''compliance_erasure_log'') = Suc (length (rows_of sample_tables ''compliance_erasure_log''))"
proof -
  have "erase_user amended_schema gdpr ''log1'' ''w'' ''u2'' ''u1'' JUndef 7 sample_tables = (Inr (1, 0), sample_erased)" by code_simp
  from erasure_erases [OF this] show ?thesis by blast
qed

end
