(* ===== verification/Routing.thy ===== *)
theory Routing
  imports Guardrails
begin

text \<open>
  Model routes (\<open>routing/dispatcher.js\<close>): the plan of a route (one agent, the agent of a tier, or a
  fallback chain) and its dispatch.  The agent plugin is a parameter: a function of the number of
  the call and the agent's title, so that two calls of one agent may end differently.
\<close>

record route =
  rt_title :: string
  rt_strategy :: string
  rt_config :: js

datatype plan = Single js | Chain "js list"

definition isRetryable :: "js_error \<Rightarrow> bool" where
  "isRetryable e \<longleftrightarrow> e_code e \<noteq> Some ''GUARDRAIL_BLOCKED'' \<and> e_code e \<noteq> Some ''QUOTA_EXCEEDED''"

definition loadRoute :: "(string \<times> string \<times> route) list \<Rightarrow> string \<Rightarrow> string \<Rightarrow> string \<Rightarrow> route option" where
  "loadRoute rows workspaceId projectId title =
     map_option (\<lambda>r. snd (snd r)) (find (\<lambda>(w, p, r). w = workspaceId \<and> p = projectId \<and> rt_title r = title) rows)"

definition route_error :: "route \<Rightarrow> string \<Rightarrow> js_error" where
  "route_error r m = plain_error (''route '' @ quoted (rt_title r) @ '': '' @ m)"

definition planRoute :: "route \<Rightarrow> js \<Rightarrow> plan js_result" where
  "planRoute r tier =
     (let cfg = js_or (rt_config r) (JObj []) in
      if rt_strategy r = ''static'' then
        (if \<not> truthy (js_get cfg ''agent'') then Inl (route_error r ''static.agent is required'') else Inr (Single (js_get cfg ''agent'')))
      else if rt_strategy r = ''tier'' then
        (let tiers = js_or (js_get cfg ''tiers'') (JObj []);
             wanted = js_string (js_or tier (js_or (js_get cfg ''default'') (JStr ''balanced'')));
             target = js_get tiers wanted;
             have = join_str '', '' (map fst (js_entries tiers)) in
         if \<not> truthy target
         then Inl (route_error r (''tier '' @ quoted wanted @ '' not defined (have: '' @ (if have = [] then ''none'' else have) @ '').''))
         else Inr (Single target))
      else if rt_strategy r = ''fallback'' then
        (let chain = filter truthy (elements (js_get cfg ''chain'')) in
         if chain = [] then Inl (route_error r ''fallback.chain is empty'') else Inr (Chain chain))
      else Inl (route_error r (''unknown strategy '' @ quoted (rt_strategy r))))"

text \<open>\<open>{...out, route}\<close>.\<close>

definition with_route :: "js \<Rightarrow> js \<Rightarrow> js" where
  "with_route out block = JObj (oset ''route'' block (omerge [] (js_entries out)))"

definition exhausted_error :: "route \<Rightarrow> js_error option \<Rightarrow> js list \<Rightarrow> js_error" where
  "exhausted_error r lastErr tried =
     \<lparr>e_message = ''route '' @ quoted (rt_title r) @ '': all agents in the fallback chain failed. Last error: ''
        @ (case lastErr of Some e \<Rightarrow> if e_message e = [] then ''unknown'' else e_message e | None \<Rightarrow> ''unknown''),
      e_code = Some ''ROUTE_EXHAUSTED'', e_status = None, e_details = JArr tried\<rparr>"

text \<open>The loop over the chain: the agents called, in order, and the outcome.\<close>

fun chain_loop :: "(nat \<Rightarrow> js \<Rightarrow> js js_result) \<Rightarrow> route \<Rightarrow> js list \<Rightarrow> js_error option \<Rightarrow> js list \<Rightarrow> js list \<times> js js_result" where
  "chain_loop call r tried lastErr [] = (tried, Inl (exhausted_error r lastErr tried))"
| "chain_loop call r tried lastErr (candidate # rest) =
     (let tried' = tried @ [candidate] in
      case call (length tried) candidate of
        Inr out \<Rightarrow> (tried', Inr (with_route out (JObj [(''strategy'', JStr ''fallback''), (''picked'', candidate), (''tried'', JArr tried')])))
      | Inl e \<Rightarrow> if \<not> isRetryable e then (tried', Inl e) else chain_loop call r tried' (Some e) rest)"

definition dispatch :: "(nat \<Rightarrow> js \<Rightarrow> js js_result) \<Rightarrow> route \<Rightarrow> js \<Rightarrow> js list \<times> js js_result" where
  "dispatch call r tier =
     (case planRoute r tier of
        Inl e \<Rightarrow> ([], Inl e)
      | Inr (Single agent) \<Rightarrow>
          ([agent], res_bind (call 0 agent) (\<lambda>out. Inr (with_route out (JObj [(''strategy'', JStr (rt_strategy r)), (''picked'', agent)]))))
      | Inr (Chain chain) \<Rightarrow> chain_loop call r [] None chain)"


section \<open>The chain stops at the first link that decides\<close>

text \<open>A call that decides the dispatch: a success, a guardrail block or an exhausted quota.\<close>

definition decides :: "js js_result \<Rightarrow> bool" where
  "decides x = (case x of Inr _ \<Rightarrow> True | Inl e \<Rightarrow> e_code e \<in> {Some ''GUARDRAIL_BLOCKED'', Some ''QUOTA_EXCEEDED''})"

lemma decides_Inl [simp]: "decides (Inl e) \<longleftrightarrow> \<not> isRetryable e"
  by (auto simp: decides_def isRetryable_def)

lemma decides_Inr [simp]: "decides (Inr out)"
  by (simp add: decides_def)

fun first_deciding :: "(nat \<Rightarrow> js \<Rightarrow> js js_result) \<Rightarrow> nat \<Rightarrow> js list \<Rightarrow> nat option" where
  "first_deciding call n [] = None"
| "first_deciding call n (c # cs) = (if decides (call n c) then Some 0 else map_option Suc (first_deciding call (Suc n) cs))"

lemma first_deciding_Some:
  "first_deciding call n cs = Some k \<Longrightarrow> k < length cs \<and> decides (call (n + k) (cs ! k)) \<and> (\<forall>i < k. \<not> decides (call (n + i) (cs ! i)))"
proof (induction cs arbitrary: n k)
  case (Cons c cs)
  show ?case
  proof (cases "decides (call n c)")
    case True
    then show ?thesis using Cons.prems by simp
  next
    case False
    then obtain j where j: "first_deciding call (Suc n) cs = Some j" "k = Suc j" using Cons.prems by auto
    have "\<not> decides (call (n + i) ((c # cs) ! i))" if "i < k" for i
      using that Cons.IH [OF j(1)] False j(2) by (cases i) auto
    then show ?thesis using Cons.IH [OF j(1)] j(2) by simp
  qed
qed simp

lemma first_deciding_None: "first_deciding call n cs = None \<Longrightarrow> i < length cs \<Longrightarrow> \<not> decides (call (n + i) (cs ! i))"
proof (induction cs arbitrary: n i)
  case (Cons c cs)
  then have "\<not> decides (call n c)" "first_deciding call (Suc n) cs = None" by (auto split: if_splits)
  then show ?case using Cons.IH [of "Suc n"] Cons.prems(2) by (cases i) auto
qed simp

lemma chain_loop_runs:
  "chain_loop call r tried last_err cs =
     (case first_deciding call (length tried) cs of
        None \<Rightarrow> (tried @ cs, Inl (exhausted_error r
           (if cs = [] then last_err else case call (length tried + length cs - 1) (last cs) of Inl e \<Rightarrow> Some e | Inr _ \<Rightarrow> None) (tried @ cs)))
      | Some k \<Rightarrow> (tried @ take (Suc k) cs,
          res_bind (call (length tried + k) (cs ! k)) (\<lambda>out. Inr (with_route out
            (JObj [(''strategy'', JStr ''fallback''), (''picked'', cs ! k), (''tried'', JArr (tried @ take (Suc k) cs))])))))"
proof (induction cs arbitrary: tried last_err)
  case (Cons c cs)
  show ?case
  proof (cases "call (length tried) c")
    case (Inr out)
    then show ?thesis by (simp add: Let_def)
  next
    case (Inl e)
    show ?thesis
    proof (cases "isRetryable e")
      case False
      then show ?thesis using Inl by (simp add: Let_def)
    next
      case True
      then have nd: "\<not> decides (call (length tried) c)" using Inl by simp
      show ?thesis using Cons.IH [of "tried @ [c]" "Some e"] Inl True nd
        by (cases "first_deciding call (Suc (length tried)) cs") (auto simp: Let_def)
    qed
  qed
qed simp

text \<open>C21.  Fallback dispatch (\<open>dispatch\<close>): the agents of the chain are called once each, in order, up to
  the first whose call succeeds or fails with a guardrail block or an exhausted quota; that call's
  output (with the route block) or error is the outcome.  When no call decides, every agent was
  called and the error is ROUTE_EXHAUSTED with the whole chain.\<close>

theorem fallback_stops_at_first_decision:
  assumes "planRoute r tier = Inr (Chain cs)"
  shows "case first_deciding call 0 cs of
      Some k \<Rightarrow> k < length cs \<and> decides (call k (cs ! k)) \<and> list_all (\<lambda>i. \<not> decides (call i (cs ! i))) [0..<k] \<and>
        dispatch call r tier = (take (Suc k) cs, res_bind (call k (cs ! k)) (\<lambda>out. Inr (with_route out
          (JObj [(''strategy'', JStr ''fallback''), (''picked'', cs ! k), (''tried'', JArr (take (Suc k) cs))]))))
    | None \<Rightarrow> list_all (\<lambda>i. \<not> decides (call i (cs ! i))) [0..<length cs] \<and> fst (dispatch call r tier) = cs \<and>
        (case snd (dispatch call r tier) of Inr _ \<Rightarrow> False | Inl e \<Rightarrow> e_code e = Some ''ROUTE_EXHAUSTED'' \<and> e_details e = JArr cs)"
proof (cases "first_deciding call 0 cs")
  case None
  then show ?thesis using first_deciding_None [OF None]
    by (simp add: dispatch_def assms chain_loop_runs exhausted_error_def list_all_iff)
next
  case (Some k)
  then show ?thesis using first_deciding_Some [OF Some]
    by (simp add: dispatch_def assms chain_loop_runs list_all_iff)
qed

definition sample_route :: route where
  "sample_route = \<lparr>rt_title = ''r'', rt_strategy = ''fallback'', rt_config = JObj [(''chain'', JArr [JStr ''a'', JStr ''b'', JStr ''c''])]\<rparr>"

definition sample_call :: "nat \<Rightarrow> js \<Rightarrow> js js_result" where
  "sample_call n agent = (if n = 0 then Inl (plain_error ''timeout'') else Inr (JObj [(''raw'', agent)]))"

theorem fallback_stops_at_first_decision_witness:
  "dispatch sample_call sample_route JUndef =
     ([JStr ''a'', JStr ''b''], Inr (JObj [(''raw'', JStr ''b''), (''route'', JObj [(''strategy'', JStr ''fallback''), (''picked'', JStr ''b''),
       (''tried'', JArr [JStr ''a'', JStr ''b''])])]))"
proof -
  have p: "planRoute sample_route JUndef = Inr (Chain [JStr ''a'', JStr ''b'', JStr ''c''])" by code_simp
  have f: "first_deciding sample_call 0 [JStr ''a'', JStr ''b'', JStr ''c''] = Some 1" by code_simp
  from fallback_stops_at_first_decision [OF p, of sample_call]
  have "dispatch sample_call sample_route JUndef = (take (Suc 1) [JStr ''a'', JStr ''b'', JStr ''c''],
      res_bind (sample_call 1 ([JStr ''a'', JStr ''b'', JStr ''c''] ! 1)) (\<lambda>out. Inr (with_route out
        (JObj [(''strategy'', JStr ''fallback''), (''picked'', [JStr ''a'', JStr ''b'', JStr ''c''] ! 1), (''tried'', JArr (take (Suc 1) [JStr ''a'', JStr ''b'', JStr ''c'']))]))))"
    unfolding f option.case by blast
  also have "\<dots> = ([JStr ''a'', JStr ''b''], Inr (JObj [(''raw'', JStr ''b''), (''route'', JObj [(''strategy'', JStr ''fallback''), (''picked'', JStr ''b''),
       (''tried'', JArr [JStr ''a'', JStr ''b''])])]))"
    by code_simp
  finally show ?thesis .
qed

end
