(* ===== verification/Chunk.thy ===== *)
theory Chunk
  imports JsString
begin

text \<open>
  The recursive text splitter of the knowledge bases, \<open>rag/chunk.js\<close>: the ladder of separators, the
  greedy packing of pieces, the hard split at the bottom and the overlap.  The lemmas bound the
  chunks and show that nothing but white space and full stops is lost.  Sizes are natural numbers.
\<close>

section \<open>Splitting\<close>

definition SEPARATORS :: "string list" where
  "SEPARATORS = [[CHR 0x0A, CHR 0x0A], [CHR 0x0A], ''. '', '' '', []]"

text \<open>\<open>text.replace(/\\r\\n/g, "\\n")\<close>.\<close>

fun crlf :: "string \<Rightarrow> string" where
  "crlf [] = []"
| "crlf [c] = [c]"
| "crlf (c # d # s) = (if c = CHR 0x0D \<and> d = CHR 0x0A then CHR 0x0A # crlf s else c # crlf (d # s))"

text \<open>The hard split; the limit is positive wherever it is used.\<close>

fun hard_split :: "nat \<Rightarrow> string \<Rightarrow> string list" where
  "hard_split n s = (if s = [] \<or> n = 0 then [] else take n s # hard_split n (drop n s))"

declare hard_split.simps [simp del]

text \<open>The packing of the chunks of an oversized piece into the current chunk.\<close>

definition sub_step :: "string \<Rightarrow> nat \<Rightarrow> string list \<times> string \<Rightarrow> string \<Rightarrow> string list \<times> string" where
  "sub_step sep limit st sub =
     (let (out, cur) = st in
      if cur \<noteq> [] \<and> length (cur @ sep @ sub) \<le> limit then (out, cur @ sep @ sub)
      else (if cur \<noteq> [] then out @ [cur] else out, sub))"

definition piece_step :: "(string \<Rightarrow> string list) \<Rightarrow> string \<Rightarrow> nat \<Rightarrow> string list \<times> string \<Rightarrow> string \<Rightarrow> string list \<times> string" where
  "piece_step deeper sep limit st piece =
     (let (out, cur) = st; candidate = (if cur \<noteq> [] then cur @ sep @ piece else piece) in
      if limit < length candidate then
        (let out' = (if cur \<noteq> [] then out @ [cur] else out) in
         if limit < length piece then foldl (sub_step sep limit) (out', []) (deeper piece)
         else (out', piece))
      else (out, candidate))"

definition close_chunk :: "string list \<times> string \<Rightarrow> string list" where
  "close_chunk st = filter (\<lambda>s. s \<noteq> []) (map trim (fst st @ (if snd st \<noteq> [] then [snd st] else [])))"

primrec splitRecursive :: "string list \<Rightarrow> nat \<Rightarrow> string \<Rightarrow> string list" where
  "splitRecursive [] = (\<lambda>limit t. [t])"
| "splitRecursive (sep # seps) = (\<lambda>limit t.
     if length t \<le> limit then [t]
     else if sep = [] then hard_split limit t
     else close_chunk (foldl (piece_step (splitRecursive seps limit) sep limit) ([], []) (split_str sep t)))"

definition overlap_one :: "nat \<Rightarrow> string \<Rightarrow> string \<Rightarrow> string" where
  "overlap_one overlap prev part =
     (let tail = slice_last overlap prev in
      tail @ (if tail \<noteq> [] \<and> last tail \<in> {CHR 0x0A, CHR '' ''} then [] else '' '') @ part)"

definition applyOverlap :: "nat \<Rightarrow> string list \<Rightarrow> string list" where
  "applyOverlap overlap parts =
     (if overlap = 0 \<or> length parts < 2 then parts
      else hd parts # map (\<lambda>(prev, part). overlap_one overlap prev part) (zip parts (tl parts)))"

definition chunkText :: "nat \<Rightarrow> nat \<Rightarrow> string \<Rightarrow> string list" where
  "chunkText chunkSize overlap t =
     (if t = [] then []
      else let clean = crlf t in
        if length clean \<le> chunkSize then filter (\<lambda>s. s \<noteq> []) [trim clean]
        else applyOverlap (min overlap (chunkSize - 1)) (splitRecursive SEPARATORS (max 50 chunkSize) clean))"

definition estimateTokens :: "string \<Rightarrow> nat" where
  "estimateTokens s = (length s + 3) div 4"


section \<open>Chunks are bounded\<close>

definition fits :: "nat \<Rightarrow> string \<Rightarrow> bool" where
  "fits limit s \<longleftrightarrow> length s \<le> limit"

lemmas fits_eq = fits_def [abs_def]

lemma hard_split_fits: "list_all (fits n) (hard_split n s)"
proof (induction n s rule: hard_split.induct)
  case (1 n s)
  then show ?case by (subst hard_split.simps) (auto simp: fits_eq)
qed

definition state_fits :: "nat \<Rightarrow> string list \<times> string \<Rightarrow> bool" where
  "state_fits limit st \<longleftrightarrow> list_all (fits limit) (fst st) \<and> fits limit (snd st)"

lemma sub_step_fits: "state_fits limit st \<Longrightarrow> fits limit sub \<Longrightarrow> state_fits limit (sub_step sep limit st sub)"
  by (cases st) (auto simp: sub_step_def state_fits_def fits_def)

lemma sub_steps_fit: "state_fits limit st \<Longrightarrow> list_all (fits limit) subs \<Longrightarrow> state_fits limit (foldl (sub_step sep limit) st subs)"
  by (induction subs arbitrary: st) (simp_all add: sub_step_fits)

lemma piece_step_fits:
  assumes "state_fits limit st" "\<And>p. list_all (fits limit) (deeper p)"
  shows "state_fits limit (piece_step deeper sep limit st p)"
proof -
  obtain out cur where st: "st = (out, cur)" by (cases st)
  have "state_fits limit (if cur \<noteq> [] then out @ [cur] else out, [])"
    using assms(1) by (auto simp: st state_fits_def fits_def)
  then have "state_fits limit (foldl (sub_step sep limit) (if cur \<noteq> [] then out @ [cur] else out, []) (deeper p))"
    using assms(2) by (rule sub_steps_fit)
  then show ?thesis using assms(1) by (auto simp: piece_step_def st Let_def state_fits_def fits_def)
qed

lemma piece_steps_fit:
  assumes "\<And>p. list_all (fits limit) (deeper p)"
  shows "state_fits limit st \<Longrightarrow> state_fits limit (foldl (piece_step deeper sep limit) st ps)"
  by (induction ps arbitrary: st) (simp_all add: piece_step_fits assms)

lemma close_fits: "state_fits limit st \<Longrightarrow> list_all (fits limit) (close_chunk st)"
  using order_trans [OF length_trim] by (auto simp: close_chunk_def state_fits_def fits_def list_all_iff)

lemma splitRecursive_fits: "seps \<noteq> [] \<Longrightarrow> last seps = [] \<Longrightarrow> list_all (fits limit) (splitRecursive seps limit t)"
proof (induction seps arbitrary: t)
  case (Cons sep seps)
  show ?case
  proof (cases "length t \<le> limit \<or> sep = []")
    case True
    then show ?thesis using hard_split_fits by (auto simp: fits_eq)
  next
    case False
    then have "seps \<noteq> []" "last seps = []" using Cons.prems by (auto split: if_splits)
    then have "list_all (fits limit) (splitRecursive seps limit p)" for p by (rule Cons.IH)
    then have "state_fits limit (foldl (piece_step (splitRecursive seps limit) sep limit) ([], []) (split_str sep t))"
      by (rule piece_steps_fit) (simp add: state_fits_def fits_def)
    then show ?thesis using False by (simp add: close_fits)
  qed
qed simp

lemma overlap_one_fits: "fits limit part \<Longrightarrow> fits (limit + overlap + 1) (overlap_one overlap prev part)"
  by (auto simp: fits_def overlap_one_def slice_last_def Let_def)

lemma applyOverlap_fits:
  assumes "list_all (fits limit) parts"
  shows "list_all (fits (limit + overlap + 1)) (applyOverlap overlap parts)"
proof -
  have w: "fits (limit + overlap + 1) p" if "fits limit p" for p using that by (simp add: fits_def)
  have "list_all (fits (limit + overlap + 1)) (map (\<lambda>(prev, part). overlap_one overlap prev part) (zip parts (tl parts)))"
    using assms overlap_one_fits by (auto simp: list_all_iff dest!: set_zip_rightD intro!: overlap_one_fits) (metis list.set_sel(2) tl_Nil)
  then show ?thesis using assms w by (cases parts) (auto simp: applyOverlap_def list_all_iff)
qed


section \<open>Nothing but space and full stops is lost\<close>

definition content :: "string \<Rightarrow> string" where
  "content s = filter (\<lambda>c. \<not> is_space c \<and> c \<noteq> CHR ''.'') s"

lemma content_append [simp]: "content (a @ b) = content a @ content b"
  by (simp add: content_def)

lemma content_Nil [simp]: "content [] = []"
  by (simp add: content_def)

definition blank_sep :: "string \<Rightarrow> bool" where
  "blank_sep sep \<longleftrightarrow> content sep = []"

lemma content_dropWhile [simp]: "filter (\<lambda>c. \<not> is_space c \<and> c \<noteq> CHR ''.'') (dropWhile is_space s) = content s"
  by (induction s) (auto simp: content_def)

lemma content_rev: "content (rev s) = rev (content s)"
  by (simp add: content_def rev_filter)

lemma content_trim [simp]: "content (trim s) = content s"
proof -
  have d: "content (dropWhile is_space u) = content u" for u by (simp add: content_def)
  show ?thesis by (simp add: trim_def content_rev d)
qed

lemma content_split: "blank_sep sep \<Longrightarrow> concat (map content (split_str sep t)) = content t"
proof -
  assume b: "blank_sep sep"
  have "content (join_str sep ps) = concat (map content ps)" for ps
    using b by (induction sep ps rule: join_str.induct) (auto simp: blank_sep_def)
  from this [of "split_str sep t"] show ?thesis by (simp add: split_str_def join_split_acc)
qed

definition state_content :: "string list \<times> string \<Rightarrow> string" where
  "state_content st = concat (map content (fst st)) @ content (snd st)"

lemma sub_step_content: "blank_sep sep \<Longrightarrow> state_content (sub_step sep limit st sub) = state_content st @ content sub"
  by (cases st) (auto simp: sub_step_def state_content_def blank_sep_def)

lemma sub_steps_content:
  "blank_sep sep \<Longrightarrow> state_content (foldl (sub_step sep limit) st subs) = state_content st @ concat (map content subs)"
  by (induction subs arbitrary: st) (auto simp: sub_step_content)

lemma piece_step_content:
  assumes "blank_sep sep" "\<And>p. concat (map content (deeper p)) = content p"
  shows "state_content (piece_step deeper sep limit st p) = state_content st @ content p"
proof -
  obtain out cur where st: "st = (out, cur)" by (cases st)
  have "state_content (if cur \<noteq> [] then out @ [cur] else out, []) = state_content st" by (simp add: st state_content_def)
  then have "state_content (foldl (sub_step sep limit) (if cur \<noteq> [] then out @ [cur] else out, []) (deeper p)) = state_content st @ content p"
    using sub_steps_content [OF assms(1)] assms(2) by simp
  then show ?thesis using assms(1) by (auto simp: piece_step_def st Let_def state_content_def blank_sep_def)
qed

lemma piece_steps_content:
  assumes "blank_sep sep" "\<And>p. concat (map content (deeper p)) = content p"
  shows "state_content (foldl (piece_step deeper sep limit) st ps) = state_content st @ concat (map content ps)"
  by (induction ps arbitrary: st) (simp_all add: piece_step_content [OF assms])

lemma content_kept: "concat (map content (filter (\<lambda>s. s \<noteq> []) ss)) = concat (map content ss)"
  by (induction ss) auto

lemma close_content: "concat (map content (close_chunk st)) = state_content st"
  unfolding close_chunk_def content_kept by (simp add: state_content_def comp_def)

lemma hard_split_concat: "0 < n \<Longrightarrow> concat (hard_split n s) = s"
proof (induction n s rule: hard_split.induct)
  case (1 n s)
  then show ?case by (subst hard_split.simps) auto
qed

lemma content_concat: "content (concat ss) = concat (map content ss)"
  by (induction ss) auto

lemma splitRecursive_content: "0 < limit \<Longrightarrow> list_all blank_sep seps \<Longrightarrow> concat (map content (splitRecursive seps limit t)) = content t"
proof (induction seps arbitrary: t)
  case (Cons sep seps)
  show ?case
  proof (cases "length t \<le> limit \<or> sep = []")
    case True
    then show ?thesis using hard_split_concat [OF Cons.prems(1), of t] by (auto simp flip: content_concat)
  next
    case False
    have "concat (map content (splitRecursive seps limit p)) = content p" for p using Cons by simp
    then have "state_content (foldl (piece_step (splitRecursive seps limit) sep limit) ([], []) (split_str sep t)) = content t"
      using piece_steps_content [of sep "splitRecursive seps limit"] Cons.prems content_split [of sep t] by (simp add: state_content_def)
    then show ?thesis using False by (simp add: close_content)
  qed
qed simp

lemma content_crlf: "content (crlf t) = content t"
  by (induction t rule: crlf.induct) (auto simp: content_def is_space_def)


section \<open>The properties\<close>

text \<open>C22.  Chunks (\<open>chunkText\<close>): no chunk is longer than the chunk size, raised to fifty, plus the
  effective overlap and one separating blank; and without overlap the chunks carry, in order, every
  character of the text except white space and full stops.\<close>

theorem chunks_bounded_and_complete:
  "list_all (\<lambda>c. length c \<le> max 50 chunkSize + min overlap (chunkSize - 1) + 1) (chunkText chunkSize overlap t)
   \<and> content (concat (chunkText chunkSize 0 t)) = content t"
proof
  have seps: "list_all blank_sep SEPARATORS" by code_simp
  have "list_all (fits (max 50 chunkSize)) (splitRecursive SEPARATORS (max 50 chunkSize) (crlf t))"
    by (rule splitRecursive_fits) (simp_all add: SEPARATORS_def)
  then have "list_all (fits (max 50 chunkSize + min overlap (chunkSize - 1) + 1))
      (applyOverlap (min overlap (chunkSize - 1)) (splitRecursive SEPARATORS (max 50 chunkSize) (crlf t)))"
    by (rule applyOverlap_fits)
  moreover have "length (trim (crlf t)) \<le> chunkSize" if "length (crlf t) \<le> chunkSize"
    using that length_trim [of "crlf t"] by (rule order_trans [rotated])
  ultimately show "list_all (\<lambda>c. length c \<le> max 50 chunkSize + min overlap (chunkSize - 1) + 1) (chunkText chunkSize overlap t)"
    by (auto simp: chunkText_def Let_def fits_eq)
  have "concat (map content (splitRecursive SEPARATORS (max 50 chunkSize) (crlf t))) = content t"
    using splitRecursive_content [OF _ seps] content_crlf by simp
  moreover have "trim (crlf t) = [] \<Longrightarrow> content t = []"
    using content_trim [of "crlf t"] content_crlf [of t] by simp
  ultimately show "content (concat (chunkText chunkSize 0 t)) = content t"
    by (auto simp: chunkText_def Let_def applyOverlap_def content_concat content_crlf)
qed

end
