(* ===== verification/Retention.thy ===== *)
theory Retention
  imports Tokens MemoryStore Compliance
begin

text \<open>
  Retention (\<open>retention/policies.js\<close>, \<open>retention/runner.js\<close>): the bounded DELETEs over executions,
  refresh tokens, audit entries, conversation turns and soft-deleted projects, and the runner that
  repeats each one until it deletes less than its limit, gives up on an error, or runs out of
  passes.  The locale states what a bounded DELETE promises; repeating one then removes exactly
  the rows that are due.  Times are milliseconds.
\<close>

section \<open>Bounded deletes\<close>

text \<open>
  \<open>DELETE ... WHERE id IN (SELECT id ... WHERE due ORDER BY key LIMIT n)\<close>: the number of deleted rows
  and the rows left.
\<close>

definition prune_rows :: "('r \<Rightarrow> 'i) \<Rightarrow> ('r \<Rightarrow> bool) \<Rightarrow> ('r \<Rightarrow> nat) \<Rightarrow> nat \<Rightarrow> 'r list \<Rightarrow> nat \<times> 'r list" where
  "prune_rows ident due key limit rows =
     (let victims = take limit (sort_key key (filter due rows));
          rest = filter (\<lambda>r. ident r \<notin> ident ` set victims) rows
      in (length rows - length rest, rest))"

definition days :: "nat \<Rightarrow> nat" where
  "days n = n * 86400000"

text \<open>\<open>t < NOW() - interval\<close>.\<close>

definition older :: "nat \<Rightarrow> nat \<Rightarrow> nat \<Rightarrow> bool" where
  "older now n t \<longleftrightarrow> t + days n < now"

record execution_row =
  ex_id :: string
  ex_status :: string
  ex_created :: nat

definition success_due :: "nat \<Rightarrow> nat \<Rightarrow> execution_row \<Rightarrow> bool" where
  "success_due now successDays r \<longleftrightarrow> ex_status r = ''success'' \<and> older now successDays (ex_created r)"

definition failed_due :: "nat \<Rightarrow> nat \<Rightarrow> execution_row \<Rightarrow> bool" where
  "failed_due now failedDays r \<longleftrightarrow> ex_status r \<noteq> ''success'' \<and> ex_status r \<in> {''failed'', ''cancelled'', ''partial''} \<and> older now failedDays (ex_created r)"

definition pruneExecutions :: "nat \<Rightarrow> nat \<Rightarrow> nat \<Rightarrow> nat \<Rightarrow> execution_row list \<Rightarrow> nat \<times> execution_row list" where
  "pruneExecutions now successDays failedDays limit rows =
     (let (s, rows1) = prune_rows ex_id (success_due now successDays) ex_created limit rows;
          (f, rows2) = prune_rows ex_id (failed_due now failedDays) ex_created limit rows1
      in (s + f, rows2))"

definition token_moment :: "rt_row \<Rightarrow> nat" where
  "token_moment r = (case rt_revoked r of Some t \<Rightarrow> t | None \<Rightarrow> rt_expires r)"

definition token_due :: "nat \<Rightarrow> nat \<Rightarrow> rt_row \<Rightarrow> bool" where
  "token_due now n r \<longleftrightarrow> (rt_revoked r \<noteq> None \<or> rt_expires r < now) \<and> older now n (token_moment r)"

definition pruneRefreshTokens :: "nat \<Rightarrow> nat \<Rightarrow> nat \<Rightarrow> rt_row list \<Rightarrow> nat \<times> rt_row list" where
  "pruneRefreshTokens now n limit = prune_rows rt_id (token_due now n) token_moment limit"

record audit_row =
  au_id :: string
  au_ws :: string
  au_created :: nat

definition audit_due :: "nat \<Rightarrow> nat \<Rightarrow> audit_row \<Rightarrow> bool" where
  "audit_due now n r \<longleftrightarrow> older now n (au_created r)"

definition pruneAuditLogs :: "nat \<Rightarrow> nat \<Rightarrow> nat \<Rightarrow> audit_row list \<Rightarrow> nat \<times> audit_row list" where
  "pruneAuditLogs now n limit = prune_rows au_id (audit_due now n) au_created limit"

text \<open>
  Conversation turns: a turn is due when at least \<open>keepTurns\<close> turns of its conversation are younger
  (its row number, by descending sequence number, is larger than \<open>keepTurns\<close>).  A turn is
  identified by its columns; the DELETE has no order, and takes the turns in table order here.
\<close>

definition partition_of :: "turn_row \<Rightarrow> string \<times> string \<times> string \<times> string" where
  "partition_of r = (tr_ws r, tr_scope r, scope_key (tr_scope_id r), tr_key r)"

definition younger :: "turn_row list \<Rightarrow> turn_row \<Rightarrow> turn_row list" where
  "younger rows r = filter (\<lambda>q. partition_of q = partition_of r \<and> tr_seq r < tr_seq q) rows"

definition turn_due :: "nat \<Rightarrow> turn_row list \<Rightarrow> turn_row \<Rightarrow> bool" where
  "turn_due keepTurns rows r \<longleftrightarrow> keepTurns \<le> length (younger rows r)"

definition turn_ident :: "turn_row \<Rightarrow> (string \<times> string \<times> string \<times> string) \<times> nat" where
  "turn_ident r = (partition_of r, tr_seq r)"

definition pruneConversationHistory :: "nat \<Rightarrow> nat \<Rightarrow> turn_row list \<Rightarrow> nat \<times> turn_row list" where
  "pruneConversationHistory keepTurns limit rows = prune_rows turn_ident (turn_due keepTurns rows) (\<lambda>_. 0) limit rows"

record project_row =
  pj_id :: string
  pj_deleted :: "nat option"
  pj_purge :: "nat option"

record jit_row =
  jg_scope_type :: string
  jg_scope_id :: string

definition purge_due :: "nat \<Rightarrow> project_row \<Rightarrow> bool" where
  "purge_due now r \<longleftrightarrow> pj_deleted r \<noteq> None \<and> (case pj_purge r of None \<Rightarrow> False | Some t \<Rightarrow> t < now)"

definition purge_moment :: "project_row \<Rightarrow> nat" where
  "purge_moment r = (case pj_purge r of Some t \<Rightarrow> t | None \<Rightarrow> 0)"

definition purgeDeletedProjects :: "nat \<Rightarrow> nat \<Rightarrow> project_row list \<times> jit_row list \<Rightarrow> nat \<times> project_row list \<times> jit_row list" where
  "purgeDeletedProjects now limit st =
     (let (projects, grants) = st;
          ids = map pj_id (take limit (sort_key purge_moment (filter (purge_due now) projects))) in
      if ids = [] then (0, st)
      else let rest = filter (\<lambda>p. pj_id p \<notin> set ids) projects in
        (length projects - length rest, rest, filter (\<lambda>g. \<not> (jg_scope_type g = ''project'' \<and> jg_scope_id g \<in> set ids)) grants))"


section \<open>The runner\<close>

definition intEnv :: "string option \<Rightarrow> nat \<Rightarrow> nat" where
  "intEnv v fallback =
     (case v of None \<Rightarrow> fallback
      | Some s \<Rightarrow> if s = [] then fallback
          else case parse_int s of Some n \<Rightarrow> if 0 \<le> n then nat n else fallback | None \<Rightarrow> fallback)"

definition bool_re :: regex where
  "bool_re = rx_i (r_seq [RBol, r_alt (map r_lit [''1'', ''true'', ''yes'', ''on'']), REol])"

definition boolEnv :: "string option \<Rightarrow> bool \<Rightarrow> bool" where
  "boolEnv v fallback = (case v of None \<Rightarrow> fallback | Some s \<Rightarrow> if s = [] then fallback else re_test bool_re s)"

record retention_config =
  rc_enabled :: bool
  rc_success :: nat
  rc_failed :: nat
  rc_tokens :: nat
  rc_turns :: nat
  rc_audit :: nat
  rc_batch :: nat
  rc_passes :: nat

definition retention_config_of :: "(string \<Rightarrow> string option) \<Rightarrow> retention_config" where
  "retention_config_of env =
     \<lparr>rc_enabled = boolEnv (env ''RETENTION_ENABLED'') False,
      rc_success = intEnv (env ''RETENTION_EXECUTIONS_SUCCESS_DAYS'') 90,
      rc_failed = intEnv (env ''RETENTION_EXECUTIONS_FAILED_DAYS'') 180,
      rc_tokens = intEnv (env ''RETENTION_REFRESH_TOKENS_DAYS'') 30,
      rc_turns = intEnv (env ''RETENTION_HISTORY_TURNS_PER_CONVERSATION'') 100,
      rc_audit = intEnv (env ''RETENTION_AUDIT_LOG_DAYS'') 365,
      rc_batch = intEnv (env ''RETENTION_BATCH_LIMIT'') 50000,
      rc_passes = intEnv (env ''RETENTION_MAX_PASSES'') 20\<rparr>"

record 't drained =
  dr_table :: 't
  dr_deleted :: nat
  dr_passes :: nat
  dr_failed :: bool

text \<open>
  \<open>drainPass\<close>: passes \<open>i\<close>, \<open>i + 1\<close>, ... while passes are left; \<open>fails i\<close> says that the query of pass
  \<open>i\<close> throws.
\<close>

fun drainPass :: "(nat \<Rightarrow> bool) \<Rightarrow> (nat \<Rightarrow> 't \<Rightarrow> nat \<times> 't) \<Rightarrow> nat \<Rightarrow> nat \<Rightarrow> nat \<Rightarrow> 't drained \<Rightarrow> 't drained" where
  "drainPass fails prune limit 0 i d = d"
| "drainPass fails prune limit (Suc n) i d =
     (if fails i then d\<lparr>dr_failed := True\<rparr>
      else let (k, t') = prune limit (dr_table d); d' = d\<lparr>dr_table := t', dr_deleted := dr_deleted d + k, dr_passes := Suc (dr_passes d)\<rparr> in
        if limit \<le> k then drainPass fails prune limit n (Suc i) d' else d')"

definition fresh :: "'t \<Rightarrow> 't drained" where
  "fresh t = \<lparr>dr_table = t, dr_deleted = 0, dr_passes = 0, dr_failed = False\<rparr>"

record tables =
  tb_executions :: "execution_row list"
  tb_tokens :: "rt_row list"
  tb_turns :: "turn_row list"
  tb_audit :: "audit_row list"
  tb_projects :: "project_row list"
  tb_grants :: "jit_row list"

text \<open>\<open>runAll\<close>: the tables afterwards, the deleted rows per policy, and the policies that failed.\<close>

definition runAll :: "retention_config \<Rightarrow> (string \<Rightarrow> nat \<Rightarrow> bool) \<Rightarrow> nat \<Rightarrow> tables \<Rightarrow> tables \<times> nat list \<times> string list" where
  "runAll cfg fails now db =
     (let e = drainPass (fails ''pruneExecutions'') (pruneExecutions now (rc_success cfg) (rc_failed cfg)) (rc_batch cfg) (rc_passes cfg) 0 (fresh (tb_executions db));
          t = drainPass (fails ''pruneRefreshTokens'') (pruneRefreshTokens now (rc_tokens cfg)) (rc_batch cfg) (rc_passes cfg) 0 (fresh (tb_tokens db));
          h = drainPass (fails ''pruneConversationHistory'') (pruneConversationHistory (rc_turns cfg)) (rc_batch cfg) (rc_passes cfg) 0 (fresh (tb_turns db));
          a = drainPass (fails ''pruneAuditLogs'') (pruneAuditLogs now (rc_audit cfg)) (rc_batch cfg) (rc_passes cfg) 0 (fresh (tb_audit db));
          p = drainPass (fails ''purgeDeletedProjects'') (purgeDeletedProjects now) 100 (rc_passes cfg) 0 (fresh (tb_projects db, tb_grants db))
      in (\<lparr>tb_executions = dr_table e, tb_tokens = dr_table t, tb_turns = dr_table h, tb_audit = dr_table a,
           tb_projects = fst (dr_table p), tb_grants = snd (dr_table p)\<rparr>,
          [dr_deleted e, dr_deleted t, dr_deleted h, dr_deleted a, dr_deleted p],
          concat (map (\<lambda>(l, f). if f then [l] else [])
            [(''pruneExecutions'', dr_failed e), (''pruneRefreshTokens'', dr_failed t), (''pruneConversationHistory'', dr_failed h),
             (''pruneAuditLogs'', dr_failed a), (''purgeDeletedProjects'', dr_failed p)])))"


text \<open>The daily job: \<open>start\<close> registers it once and only when retention is enabled, \<open>stop\<close> drops it.\<close>

definition start_job :: "retention_config \<Rightarrow> bool \<Rightarrow> bool" where
  "start_job cfg job = (if job then True else rc_enabled cfg)"

definition stop_job :: "bool \<Rightarrow> bool" where
  "stop_job job = False"


section \<open>What repeating a bounded delete achieves\<close>

text \<open>
  The contract of a bounded DELETE on a table of type \<open>'t\<close>: \<open>due\<close> counts the rows to go, \<open>kept\<close> is the
  table without them, and \<open>ok\<close> is the table's own invariant (its primary key).  A pass deletes due
  rows only, and either as many as the limit or all of them.
\<close>

locale bounded_delete =
  fixes prune :: "nat \<Rightarrow> 't \<Rightarrow> nat \<times> 't"
    and due :: "'t \<Rightarrow> nat"
    and kept :: "'t \<Rightarrow> 't"
    and ok :: "'t \<Rightarrow> bool"
  assumes prune_enough: "ok t \<Longrightarrow> min limit (due t) \<le> fst (prune limit t) \<and> fst (prune limit t) \<le> due t"
    and prune_due: "ok t \<Longrightarrow> due (snd (prune limit t)) = due t - fst (prune limit t)"
    and prune_kept: "ok t \<Longrightarrow> kept (snd (prune limit t)) = kept t"
    and prune_ok: "ok t \<Longrightarrow> ok (snd (prune limit t))"
    and none_due: "ok t \<Longrightarrow> due t = 0 \<Longrightarrow> kept t = t"
begin

lemma drain_kept: "ok (dr_table d) \<Longrightarrow> ok (dr_table (drainPass fails prune limit n i d)) \<and> kept (dr_table (drainPass fails prune limit n i d)) = kept (dr_table d)"
proof (induction n arbitrary: i d)
  case (Suc n)
  obtain k t' where p: "prune limit (dr_table d) = (k, t')" by fastforce
  have "ok t'" "kept t' = kept (dr_table d)" using prune_ok [OF Suc.prems, of limit] prune_kept [OF Suc.prems, of limit] p by simp_all
  then show ?case using Suc p by (auto simp: Let_def)
qed simp

lemma drain_counts: "ok (dr_table d) \<Longrightarrow>
  dr_deleted (drainPass fails prune limit n i d) + due (dr_table (drainPass fails prune limit n i d)) = dr_deleted d + due (dr_table d)"
proof (induction n arbitrary: i d)
  case (Suc n)
  obtain k t' where p: "prune limit (dr_table d) = (k, t')" by fastforce
  have "ok t'" "due t' = due (dr_table d) - k" "k \<le> due (dr_table d)"
    using prune_ok [OF Suc.prems, of limit] prune_due [OF Suc.prems, of limit] prune_enough [OF Suc.prems, of limit] p by simp_all
  then show ?case using Suc p by (auto simp: Let_def)
qed simp

text \<open>Without failures, enough passes leave nothing due.\<close>

lemma drain_all:
  "ok (dr_table d) \<Longrightarrow> (\<And>j. \<not> fails j) \<Longrightarrow> due (dr_table d) \<le> n * limit \<Longrightarrow> due (dr_table (drainPass fails prune limit n i d)) = 0"
proof (induction n arbitrary: i d)
  case (Suc n)
  obtain k t' where p: "prune limit (dr_table d) = (k, t')" by fastforce
  have t': "ok t'" "due t' = due (dr_table d) - k" "min limit (due (dr_table d)) \<le> k" "k \<le> due (dr_table d)"
    using prune_ok [OF Suc.prems(1), of limit] prune_due [OF Suc.prems(1), of limit] prune_enough [OF Suc.prems(1), of limit] p by simp_all
  show ?case
  proof (cases "limit \<le> k")
    case True
    then have "due t' \<le> n * limit" using Suc.prems(3) t'(2) by simp
    then show ?thesis using Suc.IH [of "d\<lparr>dr_table := t', dr_deleted := dr_deleted d + k, dr_passes := Suc (dr_passes d)\<rparr>" "Suc i"]
        Suc.prems(2) t'(1) p True by (simp add: Let_def)
  next
    case False
    then have "k = due (dr_table d)" using t'(3,4) by simp
    then show ?thesis using p False Suc.prems(2) t'(2) by (simp add: Let_def)
  qed
qed simp

lemma drain_exact:
  assumes "ok t" "\<And>j. \<not> fails j" "due t \<le> n * limit"
  shows "dr_table (drainPass fails prune limit n 0 (fresh t)) = kept t"
    "dr_deleted (drainPass fails prune limit n 0 (fresh t)) = due t"
proof -
  have f: "ok (dr_table (fresh t))" "due (dr_table (fresh t)) \<le> n * limit" using assms by (simp_all add: fresh_def)
  have z: "due (dr_table (drainPass fails prune limit n 0 (fresh t))) = 0" by (rule drain_all [OF f(1) assms(2) f(2)])
  have k: "ok (dr_table (drainPass fails prune limit n 0 (fresh t)))"
    "kept (dr_table (drainPass fails prune limit n 0 (fresh t))) = kept (dr_table (fresh t))"
    using drain_kept [OF f(1)] by simp_all
  show "dr_table (drainPass fails prune limit n 0 (fresh t)) = kept t"
    using none_due [OF k(1) z] k(2) by (simp add: fresh_def)
  show "dr_deleted (drainPass fails prune limit n 0 (fresh t)) = due t"
    using drain_counts [OF f(1), of fails limit n 0] z by (simp add: fresh_def)
qed

end


section \<open>The deletes keep the contract\<close>

definition victims :: "('r \<Rightarrow> bool) \<Rightarrow> ('r \<Rightarrow> nat) \<Rightarrow> nat \<Rightarrow> 'r list \<Rightarrow> 'r list" where
  "victims due key limit rows = take limit (sort_key key (filter due rows))"

lemma victims_due: "r \<in> set (victims due key limit rows) \<Longrightarrow> r \<in> set rows \<and> due r"
  by (auto simp: victims_def dest: in_set_takeD)

lemma victims_length: "length (victims due key limit rows) = min limit (length (filter due rows))"
  by (simp add: victims_def min.commute)

lemma victims_distinct: "distinct rows \<Longrightarrow> distinct (victims due key limit rows)"
  by (simp add: victims_def)

lemma prune_rows_eq:
  assumes "distinct (map ident rows)"
  shows "prune_rows ident due key limit rows =
    (min limit (length (filter due rows)), filter (\<lambda>r. r \<notin> set (victims due key limit rows)) rows)"
proof -
  let ?V = "victims due key limit rows"
  have sub: "set ?V \<subseteq> set rows" using victims_due by fast
  have inj: "ident r \<in> ident ` set ?V \<longleftrightarrow> r \<in> set ?V" if "r \<in> set rows" for r
    using inj_on_image_mem_iff [of ident "set rows" r "set ?V"] that assms sub by (simp add: distinct_map)
  have rest: "filter (\<lambda>r. ident r \<notin> ident ` set ?V) rows = filter (\<lambda>r. r \<notin> set ?V) rows"
    by (rule filter_cong) (simp_all add: inj)
  have d: "distinct rows" using assms by (simp add: distinct_map)
  have "set (filter (\<lambda>r. r \<in> set ?V) rows) = set ?V" using victims_due by fastforce
  then have "length (filter (\<lambda>r. r \<in> set ?V) rows) = length ?V"
    using d victims_distinct [OF d] by (metis distinct_card distinct_filter)
  then have "length rows - length (filter (\<lambda>r. r \<notin> set ?V) rows) = length ?V"
    using sum_length_filter_compl [of "\<lambda>r. r \<in> set ?V" rows] by simp
  then show ?thesis using rest by (simp add: prune_rows_def victims_def [symmetric] Let_def victims_length)
qed

lemma remove_due_count:
  assumes "distinct rows" "distinct vs" "\<And>r. r \<in> set vs \<Longrightarrow> r \<in> set rows \<and> due r"
  shows "length (filter due (filter (\<lambda>r. r \<notin> set vs) rows)) = length (filter due rows) - length vs"
proof -
  have "set (filter due (filter (\<lambda>r. r \<notin> set vs) rows)) = set (filter due rows) - set vs" by auto
  moreover have "card (set (filter due rows) - set vs) = card (set (filter due rows)) - card (set vs)"
    using assms(3) by (intro card_Diff_subset) auto
  ultimately show ?thesis using assms(1,2) by (metis distinct_card distinct_filter)
qed

lemma remove_due_kept: "(\<And>r. r \<in> set vs \<Longrightarrow> due r) \<Longrightarrow> filter (\<lambda>r. \<not> due r) (filter (\<lambda>r. r \<notin> set vs) rows) = filter (\<lambda>r. \<not> due r) rows"
  by (auto simp: filter_filter intro!: filter_cong)

lemma distinct_map_filter: "distinct (map f xs) \<Longrightarrow> distinct (map f (filter P xs))"
  by (induction xs) auto

lemma prune_rows_laws:
  assumes "distinct (map ident rows)"
  shows "fst (prune_rows ident due key limit rows) = min limit (length (filter due rows))"
    "length (filter due (snd (prune_rows ident due key limit rows))) = length (filter due rows) - min limit (length (filter due rows))"
    "filter (\<lambda>r. \<not> due r) (snd (prune_rows ident due key limit rows)) = filter (\<lambda>r. \<not> due r) rows"
    "distinct (map ident (snd (prune_rows ident due key limit rows)))"
proof -
  note eq = prune_rows_eq [OF assms, of due key limit]
  have d: "distinct rows" using assms by (simp add: distinct_map)
  show "fst (prune_rows ident due key limit rows) = min limit (length (filter due rows))" by (simp add: eq)
  show "length (filter due (snd (prune_rows ident due key limit rows))) = length (filter due rows) - min limit (length (filter due rows))"
    using remove_due_count [OF d victims_distinct [OF d] victims_due, of due key limit] by (simp add: eq victims_length)
  show "filter (\<lambda>r. \<not> due r) (snd (prune_rows ident due key limit rows)) = filter (\<lambda>r. \<not> due r) rows"
    using remove_due_kept [of "victims due key limit rows" due rows] victims_due by (fastforce simp: eq)
  show "distinct (map ident (snd (prune_rows ident due key limit rows)))"
    by (simp add: eq distinct_map_filter [OF assms])
qed

lemma none_due_all_kept: "length (filter due rows) = 0 \<Longrightarrow> filter (\<lambda>r. \<not> due r) rows = rows"
  by (simp add: filter_empty_conv)

interpretation rows: bounded_delete "prune_rows ident due key" "\<lambda>rows. length (filter due rows)" "\<lambda>rows. filter (\<lambda>r. \<not> due r) rows" "\<lambda>rows. distinct (map ident rows)"
  for ident due key
  by unfold_locales (simp_all add: prune_rows_laws none_due_all_kept)


















definition due_ids :: "nat \<Rightarrow> project_row list \<Rightarrow> string list" where
  "due_ids now ps = map pj_id (filter (purge_due now) ps)"

definition grant_of :: "string list \<Rightarrow> jit_row \<Rightarrow> bool" where
  "grant_of ids g \<longleftrightarrow> jg_scope_type g = ''project'' \<and> jg_scope_id g \<in> set ids"

lemma purge_eq:
  fixes now limit :: nat
  assumes "distinct (map pj_id ps)"
  defines "vs \<equiv> victims (purge_due now) purge_moment limit ps"
  shows "purgeDeletedProjects now limit (ps, gs) =
    (length vs, filter (\<lambda>p. p \<notin> set vs) ps, filter (\<lambda>g. \<not> grant_of (map pj_id vs) g) gs)"
proof -
  have c: "length ps - length (filter (\<lambda>p. pj_id p \<notin> pj_id ` set vs) ps) = length vs \<and>
    filter (\<lambda>p. pj_id p \<notin> pj_id ` set vs) ps = filter (\<lambda>p. p \<notin> set vs) ps"
    using prune_rows_eq [OF assms(1), of "purge_due now" purge_moment limit]
    unfolding prune_rows_def victims_def [symmetric] vs_def [symmetric] Let_def victims_length [of "purge_due now" purge_moment limit ps, folded vs_def, symmetric]
      prod.inject .
  note p = c [THEN conjunct1] c [THEN conjunct2]
  show ?thesis
    using p(1) by (cases "vs = []") (simp_all add: purgeDeletedProjects_def Let_def victims_def [symmetric] vs_def [symmetric] grant_of_def p(2))
qed

definition swept_grants :: "nat \<Rightarrow> project_row list \<times> jit_row list \<Rightarrow> project_row list \<times> jit_row list" where
  "swept_grants now st = (filter (\<lambda>p. \<not> purge_due now p) (fst st), filter (\<lambda>g. \<not> grant_of (due_ids now (fst st)) g) (snd st))"

interpretation projects: bounded_delete "purgeDeletedProjects now" "\<lambda>st. length (filter (purge_due now) (fst st))" "swept_grants now"
  "\<lambda>st. distinct (map pj_id (fst st))" for now
proof unfold_locales
  fix t :: "project_row list \<times> jit_row list" and limit :: nat
  assume d: "distinct (map pj_id (fst t))"
  obtain ps gs where t: "t = (ps, gs)" by (cases t)
  let ?vs = "victims (purge_due now) purge_moment limit ps"
  have dp: "distinct ps" using d t by (simp add: distinct_map)
  have eq: "purgeDeletedProjects now limit t = (length ?vs, filter (\<lambda>p. p \<notin> set ?vs) ps, filter (\<lambda>g. \<not> grant_of (map pj_id ?vs) g) gs)"
    using purge_eq [of ps now limit gs] d t by simp
  note vd = victims_due [of _ "purge_due now" purge_moment limit ps]
  show "min limit (length (filter (purge_due now) (fst t))) \<le> fst (purgeDeletedProjects now limit t) \<and> fst (purgeDeletedProjects now limit t) \<le> length (filter (purge_due now) (fst t))"
    unfolding eq by (simp add: t victims_length)
  show "length (filter (purge_due now) (fst (snd (purgeDeletedProjects now limit t)))) = length (filter (purge_due now) (fst t)) - fst (purgeDeletedProjects now limit t)"
    using remove_due_count [OF dp victims_distinct [OF dp] vd] unfolding eq by (simp add: t)
  have kept: "filter (\<lambda>p. \<not> purge_due now p) (filter (\<lambda>p. p \<notin> set ?vs) ps) = filter (\<lambda>p. \<not> purge_due now p) ps"
    by (rule remove_due_kept) (use vd in blast)
  have ids: "set (due_ids now ps) = set (due_ids now (filter (\<lambda>p. p \<notin> set ?vs) ps)) \<union> set (map pj_id ?vs)"
    using vd by (auto simp: due_ids_def)
  have "\<not> grant_of (due_ids now (filter (\<lambda>p. p \<notin> set ?vs) ps)) g \<and> \<not> grant_of (map pj_id ?vs) g \<longleftrightarrow> \<not> grant_of (due_ids now ps) g" for g
    unfolding grant_of_def ids by blast
  then have "filter (\<lambda>g. \<not> grant_of (due_ids now (filter (\<lambda>p. p \<notin> set ?vs) ps)) g) (filter (\<lambda>g. \<not> grant_of (map pj_id ?vs) g) gs)
      = filter (\<lambda>g. \<not> grant_of (due_ids now ps) g) gs"
    by (simp add: filter_filter conj_commute)
  then show "swept_grants now (snd (purgeDeletedProjects now limit t)) = swept_grants now t"
    unfolding eq by (simp only: swept_grants_def t kept fst_conv snd_conv)
  show "distinct (map pj_id (fst (snd (purgeDeletedProjects now limit t))))"
    using d unfolding eq by (simp add: t distinct_map_filter)
next
  fix t :: "project_row list \<times> jit_row list"
  assume n: "length (filter (purge_due now) (fst t)) = 0"
  then have "due_ids now (fst t) = []" by (simp add: due_ids_def)
  then show "swept_grants now t = t"
    using none_due_all_kept [OF n] by (simp add: swept_grants_def grant_of_def)
qed



lemma fresh_clean [simp]: "\<not> dr_failed (fresh t)"
  by (simp add: fresh_def)


section \<open>The properties\<close>






definition default_retention :: retention_config where
  "default_retention = retention_config_of (\<lambda>_. None)"

definition sample_rows :: tables where
  "sample_rows = \<lparr>tb_executions = [\<lparr>ex_id = ''e1'', ex_status = ''success'', ex_created = days 100\<rparr>, \<lparr>ex_id = ''e2'', ex_status = ''failed'', ex_created = days 100\<rparr>,
       \<lparr>ex_id = ''e3'', ex_status = ''running'', ex_created = days 1\<rparr>],
     tb_tokens = [], tb_turns = [], tb_audit = [\<lparr>au_id = ''a1'', au_ws = ''clinic'', au_created = days 1\<rparr>],
     tb_projects = [\<lparr>pj_id = ''p1'', pj_deleted = Some 0, pj_purge = Some (days 30)\<rparr>], tb_grants = [\<lparr>jg_scope_type = ''project'', jg_scope_id = ''p1''\<rparr>]\<rparr>"


text \<open>
  The runner takes no notice of the modes: a year-old audit entry of any workspace is deleted,
  while the HIPAA mode announces a retention of 2190 days.
\<close>

lemma audit_retention_ignores_modes:
  "cm_retention (getMode ''hipaa'') = 2190 \<and> rc_audit default_retention = 365
   \<and> tb_audit (fst (runAll default_retention (\<lambda>_ _. False) (days 400) sample_rows)) = []"
proof (intro conjI)
  show "cm_retention (getMode ''hipaa'') = 2190" by code_simp
  show "rc_audit default_retention = 365" by code_simp
  show "tb_audit (fst (runAll default_retention (\<lambda>_ _. False) (days 400) sample_rows)) = []" by code_simp
qed

end
