(* ===== verification/Json.thy ===== *)
theory Json
  imports Errors
begin

text \<open>
  \<open>JSON.stringify\<close> and \<open>JSON.parse\<close> of the language, which the backend uses for stored secrets, prompt
  variables, cache keys, tool results and model answers.  Text is a list of the model's eight-bit
  characters: an escape \<open>\uXXXX\<close> beyond them reads as the substitute character.  The theorem of this
  theory is that parsing undoes printing.
\<close>

section \<open>Printing\<close>

definition hex_char :: "nat \<Rightarrow> char" where
  "hex_char n = (if n < 10 then digit_char n else char_of (87 + n))"

definition json_char :: "char \<Rightarrow> string" where
  "json_char c =
     (let n = (of_char c :: nat) in
      if c = CHR 0x22 then [CHR 0x5C, CHR 0x22] else if c = CHR 0x5C then [CHR 0x5C, CHR 0x5C]
      else if n = 8 then [CHR 0x5C, CHR ''b''] else if n = 12 then [CHR 0x5C, CHR ''f''] else if n = 10 then [CHR 0x5C, CHR ''n'']
      else if n = 13 then [CHR 0x5C, CHR ''r''] else if n = 9 then [CHR 0x5C, CHR ''t'']
      else if n < 32 then CHR 0x5C # ''u00'' @ [hex_char (n div 16), hex_char (n mod 16)] else [c])"

definition json_quote :: "string \<Rightarrow> string" where
  "json_quote s = CHR 0x22 # concat (map json_char s) @ [CHR 0x22]"

text \<open>Undefined prints as null in an array and is dropped from an object.\<close>

fun json_text :: "js \<Rightarrow> string" where
  "json_text JUndef = ''null''"
| "json_text JNull = ''null''"
| "json_text (JBool b) = (if b then ''true'' else ''false'')"
| "json_text (JNum r) = show_num r"
| "json_text (JStr s) = json_quote s"
| "json_text (JArr vs) = ''['' @ join_str '','' (map json_text vs) @ '']''"
| "json_text (JObj kvs) = ''{'' @ join_str '','' (concat (map (\<lambda>(k, v). if v = JUndef then [] else [json_quote k @ '':'' @ json_text v]) kvs)) @ ''}''"


section \<open>Parsing\<close>

definition json_space :: "char \<Rightarrow> bool" where
  "json_space c = ((of_char c :: nat) \<in> {9, 10, 13, 32})"

definition skip_space :: "string \<Rightarrow> string" where
  "skip_space = dropWhile json_space"

text \<open>A number token: its value and the text after it.\<close>

definition exponent_part :: "string \<Rightarrow> (int \<times> string) option" where
  "exponent_part s =
     (if s \<noteq> [] \<and> hd s \<in> set ''eE'' then
        (let r = tl s; neg = (r \<noteq> [] \<and> hd r = CHR ''-'');
             r' = (if r \<noteq> [] \<and> hd r \<in> set ''+-'' then tl r else r); ds = takeWhile is_digit r'
         in if ds = [] then None
            else Some (if neg then - int (digits_val ds) else int (digits_val ds), dropWhile is_digit r'))
      else Some (0, s))"

definition fraction_part :: "string \<Rightarrow> (rat \<times> string) option" where
  "fraction_part s =
     (if s \<noteq> [] \<and> hd s = CHR ''.'' then
        (let ds = takeWhile is_digit (tl s) in if ds = [] then None else Some (frac_val ds, dropWhile is_digit (tl s)))
      else Some (0, s))"

definition json_number :: "string \<Rightarrow> (js \<times> string) option" where
  "json_number s =
     (let neg = (s \<noteq> [] \<and> hd s = CHR ''-''); s1 = (if neg then tl s else s);
          ip = takeWhile is_digit s1; r1 = dropWhile is_digit s1
      in if ip = [] \<or> 1 < length ip \<and> hd ip = CHR ''0'' then None
         else case fraction_part r1 of None \<Rightarrow> None
         | Some (f, r2) \<Rightarrow> (case exponent_part r2 of None \<Rightarrow> None
           | Some (e, r3) \<Rightarrow> (let v = (of_nat (digits_val ip) + f) * pow10 e in Some (JNum (if neg then - v else v), r3))))"

text \<open>The rest of a string after its opening quote.\<close>

definition simple_escape :: "char \<Rightarrow> char option" where
  "simple_escape c =
     (if c \<in> {CHR 0x22, CHR 0x5C, CHR ''/''} then Some c
      else if c = CHR ''b'' then Some (char_of (8::nat)) else if c = CHR ''f'' then Some (char_of (12::nat))
      else if c = CHR ''n'' then Some (char_of (10::nat)) else if c = CHR ''r'' then Some (char_of (13::nat))
      else if c = CHR ''t'' then Some (char_of (9::nat)) else None)"

definition unit_char :: "nat \<Rightarrow> char" where
  "unit_char n = (if n < 256 then char_of n else char_of (26::nat))"

fun json_chars :: "string \<Rightarrow> (string \<times> string) option" where
  "json_chars [] = None"
| "json_chars (c # cs) =
     (if c = CHR 0x22 then Some ([], cs)
      else if c = CHR 0x5C then
        (case cs of [] \<Rightarrow> None
         | e # r \<Rightarrow>
             (case simple_escape e of
                Some d \<Rightarrow> map_option (apfst (Cons d)) (json_chars r)
              | None \<Rightarrow>
                  if e = CHR ''u'' \<and> 4 \<le> length r then
                    (case hex_digits 0 (take 4 r) of None \<Rightarrow> None
                     | Some n \<Rightarrow> map_option (apfst (Cons (unit_char n))) (json_chars (drop 4 r)))
                  else None))
      else if (of_char c :: nat) < 32 then None
      else map_option (apfst (Cons c)) (json_chars cs))"

text \<open>
  Values, by recursive descent.  Every recursive call is on a shorter text, so a fuel greater than
  twice the length is enough (\<open>json_fuel\<close> below).  A repeated member keeps its place and takes the last
  value.
\<close>

fun json_value :: "nat \<Rightarrow> string \<Rightarrow> (js \<times> string) option"
  and json_elements :: "nat \<Rightarrow> string \<Rightarrow> (js list \<times> string) option"
  and json_members :: "nat \<Rightarrow> string \<Rightarrow> ((string \<times> js) list \<times> string) option" where
  "json_value 0 s = None"
| "json_value (Suc n) s0 =
     (let s = skip_space s0 in
      if s = [] then None
      else if starts_with s ''null'' then Some (JNull, drop 4 s)
      else if starts_with s ''true'' then Some (JBool True, drop 4 s)
      else if starts_with s ''false'' then Some (JBool False, drop 5 s)
      else if hd s = CHR 0x22 then map_option (apfst JStr) (json_chars (tl s))
      else if hd s = CHR ''['' then
        (let r = skip_space (tl s) in
         if r \<noteq> [] \<and> hd r = CHR '']'' then Some (JArr [], tl r) else map_option (apfst JArr) (json_elements n (tl s)))
      else if hd s = CHR ''{'' then
        (let r = skip_space (tl s) in
         if r \<noteq> [] \<and> hd r = CHR ''}'' then Some (JObj [], tl r)
         else map_option (apfst (\<lambda>kvs. JObj (omerge [] kvs))) (json_members n (tl s)))
      else json_number s)"
| "json_elements 0 s = None"
| "json_elements (Suc n) s =
     (case json_value n s of None \<Rightarrow> None
      | Some (v, r0) \<Rightarrow>
          (let r = skip_space r0 in
           if r \<noteq> [] \<and> hd r = CHR '']'' then Some ([v], tl r)
           else if r \<noteq> [] \<and> hd r = CHR '','' then map_option (apfst (Cons v)) (json_elements n (tl r))
           else None))"
| "json_members 0 s = None"
| "json_members (Suc n) s0 =
     (let s = skip_space s0 in
      if s \<noteq> [] \<and> hd s = CHR 0x22 then
        (case json_chars (tl s) of None \<Rightarrow> None
         | Some (k, r0) \<Rightarrow>
             (let r = skip_space r0 in
              if r \<noteq> [] \<and> hd r = CHR '':'' then
                (case json_value n (tl r) of None \<Rightarrow> None
                 | Some (v, q0) \<Rightarrow>
                     (let q = skip_space q0 in
                      if q \<noteq> [] \<and> hd q = CHR ''}'' then Some ([(k, v)], tl q)
                      else if q \<noteq> [] \<and> hd q = CHR '','' then map_option (apfst (Cons (k, v))) (json_members n (tl q))
                      else None))
              else None))
      else None)"

definition json_parse :: "string \<Rightarrow> js option" where
  "json_parse s =
     (case json_value (Suc (2 * length s)) s of
        Some (v, r) \<Rightarrow> if skip_space r = [] then Some v else None
      | None \<Rightarrow> None)"



section \<open>The fuel is enough\<close>

lemma length_skip_space [simp]: "length (skip_space s) \<le> length s"
  by (simp add: skip_space_def length_dropWhile_le)

lemma json_chars_shorter: "json_chars s = Some (k, r) \<Longrightarrow> length r < length s"
proof (induction s arbitrary: k r rule: json_chars.induct)
  case (2 c cs)
  then show ?case by (fastforce split: if_splits list.splits option.splits simp: less_Suc_eq)
qed simp

lemma dropWhile_shorter: "takeWhile P s \<noteq> [] \<Longrightarrow> length (dropWhile P s) < length s"
  by (cases s) (auto simp: less_Suc_eq_le length_dropWhile_le split: if_splits)

lemma fraction_part_shorter: "fraction_part s = Some (f, r) \<Longrightarrow> length r \<le> length s"
  using length_dropWhile_le [of is_digit "tl s"] by (auto simp: fraction_part_def Let_def split: if_splits)

lemma exponent_part_shorter: "exponent_part s = Some (e, r) \<Longrightarrow> length r \<le> length s"
  using length_dropWhile_le [of is_digit "tl s"] length_dropWhile_le [of is_digit "tl (tl s)"]
  by (auto simp: exponent_part_def Let_def split: if_splits)

lemma json_number_shorter: "json_number s = Some (v, r) \<Longrightarrow> length r < length s"
proof -
  assume a: "json_number s = Some (v, r)"
  define s1 where "s1 = (if s \<noteq> [] \<and> hd s = CHR ''-'' then tl s else s)"
  obtain f r2 e where p: "takeWhile is_digit s1 \<noteq> []" "fraction_part (dropWhile is_digit s1) = Some (f, r2)"
      "exponent_part r2 = Some (e, r)"
    using a unfolding json_number_def Let_def s1_def [symmetric] by (auto split: if_splits option.splits)
  have "length r \<le> length r2" "length r2 \<le> length (dropWhile is_digit s1)" "length (dropWhile is_digit s1) < length s1"
    using exponent_part_shorter [OF p(3)] fraction_part_shorter [OF p(2)] dropWhile_shorter [OF p(1)] by auto
  moreover have "length s1 \<le> length s" by (simp add: s1_def)
  ultimately show ?thesis by simp
qed

lemma skip_space_tl: "skip_space s \<noteq> [] \<Longrightarrow> length (tl (skip_space s)) < length s"
  using length_skip_space [of s] by (cases "skip_space s") auto

lemma json_shorter:
  "(\<forall>s v r. json_value n s = Some (v, r) \<longrightarrow> length r < length s) \<and>
   (\<forall>s vs r. json_elements n s = Some (vs, r) \<longrightarrow> length r < length s) \<and>
   (\<forall>s kvs r. json_members n s = Some (kvs, r) \<longrightarrow> length r < length s)"
proof (induction n)
  case (Suc n)
  have v: "length r < length s" if "json_value n s = Some (v, r)" for s v r using Suc that by blast
  have e: "length r < length s" if "json_elements n s = Some (v, r)" for s v r using Suc that by blast
  have m: "length r < length s" if "json_members n s = Some (v, r)" for s v r using Suc that by blast
  have sk: "length (tl (skip_space t)) < k" if "skip_space t \<noteq> []" "length t \<le> k" for t k
    using skip_space_tl [OF that(1)] that(2) by simp
  show ?case
  proof (intro conjI allI impI)
    fix s v r
    assume a: "json_value (Suc n) s = Some (v, r)"
    obtain c t where s: "skip_space s = c # t"
      using a by (cases "skip_space s") (auto simp: Let_def)
    have t: "length t < length s" using length_skip_space [of s] s by simp
    have num: "length r < length s" if "json_number (c # t) = Some (v, r)"
      using json_number_shorter [OF that] t by simp
    have "length (drop k (c # t)) < length s" if "0 < k" for k using that t by (cases k) auto
    from this [of 4] this [of 5] show "length r < length s"
      using a t num sk [of t "length t"] json_chars_shorter e m
      by (auto simp: s Let_def split: if_splits dest!: json_chars_shorter e m)
  next
    fix s vs r
    assume "json_elements (Suc n) s = Some (vs, r)"
    then show "length r < length s"
      using skip_space_tl by (fastforce simp: Let_def split: option.splits if_splits dest!: v e)
  next
    fix s kvs r
    assume "json_members (Suc n) s = Some (kvs, r)"
    then obtain k r0 w q0 where p: "skip_space s \<noteq> []" "json_chars (tl (skip_space s)) = Some (k, r0)" "skip_space r0 \<noteq> []"
        "json_value n (tl (skip_space r0)) = Some (w, q0)" "skip_space q0 \<noteq> []"
        "r = tl (skip_space q0) \<or> (\<exists>l. json_members n (tl (skip_space q0)) = Some (l, r))"
      by (auto simp: Let_def split: option.splits if_splits)
    have "length r0 < length s" using json_chars_shorter [OF p(2)] skip_space_tl [OF p(1)] by simp
    moreover have "length q0 < length r0" using v [OF p(4)] skip_space_tl [OF p(3)] by simp
    moreover have "length r < length q0" using p(6) m [of "tl (skip_space q0)"] skip_space_tl [OF p(5)] by auto
    ultimately show "length r < length s" by simp
  qed
qed simp


lemma json_fuel:
  "(\<forall>s m. 2 * length s < n \<and> n \<le> m \<longrightarrow> json_value m s = json_value n s) \<and>
   (\<forall>s m. 2 * length s + 1 < n \<and> n \<le> m \<longrightarrow> json_elements m s = json_elements n s) \<and>
   (\<forall>s m. 2 * length s + 1 < n \<and> n \<le> m \<longrightarrow> json_members m s = json_members n s)"
proof (induction n)
  case (Suc n)
  have v: "json_value m s = json_value n s" if "2 * length s < n" "n \<le> m" for s m using Suc that by blast
  have e: "json_elements m s = json_elements n s" if "2 * length s + 1 < n" "n \<le> m" for s m using Suc that by blast
  have mm: "json_members m s = json_members n s" if "2 * length s + 1 < n" "n \<le> m" for s m using Suc that by blast
  have sh: "length r < length s" if "json_value n s = Some (w, r)" for s w r using json_shorter that by blast
  show ?case
  proof (intro conjI allI impI)
    fix s :: string and m
    assume a: "2 * length s < Suc n \<and> Suc n \<le> m"
    obtain m' where m: "m = Suc m'" "n \<le> m'" using a by (cases m) auto
    show "json_value m s = json_value (Suc n) s"
    proof (cases "skip_space s")
      case (Cons c t)
      have "2 * length t + 1 < n" using a length_skip_space [of s] Cons by simp
      then have "json_elements m' t = json_elements n t" "json_members m' t = json_members n t" using e mm m(2) by blast+
      then show ?thesis by (simp add: m(1) Cons Let_def)
    qed (simp add: m)
  next
    fix s :: string and m
    assume a: "2 * length s + 1 < Suc n \<and> Suc n \<le> m"
    obtain m' where m: "m = Suc m'" "n \<le> m'" using a by (cases m) auto
    have hv: "json_value m' s = json_value n s" using v [of s m'] a m(2) by linarith
    show "json_elements m s = json_elements (Suc n) s"
    proof (cases "json_value n s")
      case (Some p)
      obtain w r where p: "p = (w, r)" by (cases p)
      have "length r < length s" using sh Some p by blast
      then have "skip_space r \<noteq> [] \<Longrightarrow> 2 * length (tl (skip_space r)) + 1 < n" using a skip_space_tl [of r] by simp
      then have "skip_space r \<noteq> [] \<Longrightarrow> json_elements m' (tl (skip_space r)) = json_elements n (tl (skip_space r))" using e m(2) by blast
      then show ?thesis by (cases "skip_space r = []") (simp_all add: m(1) hv Some p Let_def)
    qed (simp add: m hv)
  next
    fix s :: string and m
    assume a: "2 * length s + 1 < Suc n \<and> Suc n \<le> m"
    obtain m' where m: "m = Suc m'" "n \<le> m'" using a by (cases m) auto
    show "json_members m s = json_members (Suc n) s"
    proof (cases "skip_space s \<noteq> [] \<and> (\<exists>k r0. json_chars (tl (skip_space s)) = Some (k, r0) \<and> skip_space r0 \<noteq> [])")
      case False
      then show ?thesis by (auto simp: m Let_def split: option.splits)
    next
      case True
      then obtain k r0 where p: "skip_space s \<noteq> []" "json_chars (tl (skip_space s)) = Some (k, r0)" "skip_space r0 \<noteq> []" by blast
      have l: "length (tl (skip_space r0)) < length s"
        using json_chars_shorter [OF p(2)] skip_space_tl [OF p(1)] skip_space_tl [OF p(3)] by simp
      then have hv: "json_value m' (tl (skip_space r0)) = json_value n (tl (skip_space r0))" using v [of "tl (skip_space r0)" m'] a m(2) by linarith
      show ?thesis
      proof (cases "json_value n (tl (skip_space r0))")
        case None
        then show ?thesis using p by (simp add: m hv Let_def)
      next
        case (Some q)
        obtain w q0 where q: "q = (w, q0)" by (cases q)
        have "length q0 < length s" using sh [of "tl (skip_space r0)" w q0] Some q l by simp
        then have "skip_space q0 \<noteq> [] \<Longrightarrow> 2 * length (tl (skip_space q0)) + 1 < n" using a skip_space_tl [of q0] by simp
        then have "skip_space q0 \<noteq> [] \<Longrightarrow> json_members m' (tl (skip_space q0)) = json_members n (tl (skip_space q0))" using mm m(2) by blast
        then show ?thesis using p by (cases "skip_space q0 = []") (simp_all add: m(1) hv Some q Let_def)
      qed
    qed
  qed
qed simp


section \<open>Parsing undoes printing\<close>

text \<open>
  The values that survive: no undefined, whole numbers, distinct names in an object.  What
  follows a printed value in a larger text is the end, a comma or a closing bracket.
\<close>

fun json_ok :: "js \<Rightarrow> bool" where
  "json_ok JUndef = False"
| "json_ok JNull = True"
| "json_ok (JBool b) = True"
| "json_ok (JNum r) = (of_int \<lfloor>r\<rfloor> = r)"
| "json_ok (JStr s) = True"
| "json_ok (JArr vs) = list_all json_ok vs"
| "json_ok (JObj kvs) = (distinct (map fst kvs) \<and> list_all (\<lambda>(k, v). json_ok v) kvs)"

definition json_stop :: "string \<Rightarrow> bool" where
  "json_stop s = (s = [] \<or> hd s \<in> set '',]}'' \<or> json_space (hd s))"

lemma json_stop_chars [simp]: "json_stop []" "json_stop (CHR '','' # s)" "json_stop (CHR '']'' # s)" "json_stop (CHR ''}'' # s)"
  by (simp_all add: json_stop_def)

lemma json_stop_space: "json_space c \<Longrightarrow> json_stop (c # s)"
  by (simp add: json_stop_def)

lemma control_escape: "n < 32 \<Longrightarrow> hex_digits 0 [CHR ''0'', CHR ''0'', hex_char (n div 16), hex_char (n mod 16)] = Some n"
proof -
  have "list_all (\<lambda>n. hex_digits 0 [CHR ''0'', CHR ''0'', hex_char (n div 16), hex_char (n mod 16)] = Some n) [0..<32]" by code_simp
  then show "n < 32 \<Longrightarrow> ?thesis" by (simp add: list_all_iff)
qed

lemma json_chars_char: "json_chars (json_char c @ t) = map_option (apfst (Cons c)) (json_chars t)"
proof -
  let ?n = "of_char c :: nat"
  consider "c = CHR 0x22" | "c = CHR 0x5C" | "?n = 8" | "?n = 9" | "?n = 10" | "?n = 12" | "?n = 13"
    | "c \<noteq> CHR 0x22" "c \<noteq> CHR 0x5C" "?n \<notin> {8, 9, 10, 12, 13}" "?n < 32"
    | "c \<noteq> CHR 0x22" "c \<noteq> CHR 0x5C" "\<not> ?n < 32" by force
  then show ?thesis
  proof cases
    case 8
    then have "json_chars (json_char c @ t) = map_option (apfst (Cons (unit_char ?n))) (json_chars t)"
      using control_escape [OF 8(4)] by (simp add: json_char_def Let_def simple_escape_def)
    then show ?thesis using 8(4) by (simp add: unit_char_def)
  next
    case 3
    then have "c = char_of (8::nat)" by (metis char_of_char)
    then show ?thesis by (simp add: json_char_def simple_escape_def)
  next
    case 4
    then have "c = char_of (9::nat)" by (metis char_of_char)
    then show ?thesis by (simp add: json_char_def simple_escape_def)
  next
    case 5
    then have "c = char_of (10::nat)" by (metis char_of_char)
    then show ?thesis by (simp add: json_char_def simple_escape_def)
  next
    case 6
    then have "c = char_of (12::nat)" by (metis char_of_char)
    then show ?thesis by (simp add: json_char_def simple_escape_def)
  next
    case 7
    then have "c = char_of (13::nat)" by (metis char_of_char)
    then show ?thesis by (simp add: json_char_def simple_escape_def)
  next
    case 9
    then show ?thesis by (simp add: json_char_def Let_def)
  qed (simp_all add: json_char_def simple_escape_def)
qed

lemma json_chars_quoted: "json_chars (concat (map json_char s) @ CHR 0x22 # rest) = Some (s, rest)"
  by (induction s) (simp_all add: json_chars_char)

lemma digits_then: 
  assumes "json_stop rest"
  shows "takeWhile is_digit (show_nat n @ rest) = show_nat n" "dropWhile is_digit (show_nat n @ rest) = rest"
proof -
  have r: "rest = [] \<or> \<not> is_digit (hd rest)"
    using assms by (auto simp: json_stop_def json_space_def is_digit_def)
  have d: "\<And>c. c \<in> set (show_nat n) \<Longrightarrow> is_digit c" using show_nat_digits by blast
  show "takeWhile is_digit (show_nat n @ rest) = show_nat n" using r d by (cases rest) (simp_all add: takeWhile_append2)
  show "dropWhile is_digit (show_nat n @ rest) = rest" using r d by (cases rest) (simp_all add: dropWhile_append2)
qed

lemma digit_zero: "n < 10 \<Longrightarrow> digit_char n = CHR ''0'' \<Longrightarrow> n = 0"
  using digit_val_digit_char [of n] by (simp add: digit_val_def)

lemma no_leading_zero: "0 < n \<Longrightarrow> hd (show_nat n) \<noteq> CHR ''0''"
proof (induction n rule: show_nat.induct)
  case (1 n)
  show ?case
  proof (cases "n < 10")
    case True
    then show ?thesis using 1(2) digit_zero [of n] by (auto simp: show_nat.simps [of n])
  next
    case False
    then have "hd (show_nat (n div 10)) \<noteq> CHR ''0''" using 1(1) by simp
    then show ?thesis using False by (simp add: show_nat.simps [of n])
  qed
qed

lemma canonical_digits: "\<not> (1 < length (show_nat n) \<and> hd (show_nat n) = CHR ''0'')"
proof (cases "n = 0")
  case True
  then show ?thesis by (simp add: show_nat.simps [of 0])
next
  case False
  then show ?thesis using no_leading_zero by simp
qed

lemma stop_parts:
  assumes "json_stop rest"
  shows "fraction_part rest = Some (0, rest)" "exponent_part rest = Some (0, rest)"
  using assms by (auto simp: fraction_part_def exponent_part_def json_stop_def json_space_def)

lemma hd_show_nat: "is_digit (hd (show_nat n))"
  using show_nat_digits [of n] by (cases "show_nat n") auto

lemma json_number_nat:
  assumes "json_stop rest"
  shows "json_number (show_nat n @ rest) = Some (JNum (of_nat n), rest)"
    and "json_number (CHR ''-'' # show_nat n @ rest) = Some (JNum (- of_nat n), rest)"
proof -
  have "hd (show_nat n) \<noteq> CHR ''-''" using hd_show_nat [of n] by (auto simp: is_digit_def)
  then show "json_number (show_nat n @ rest) = Some (JNum (of_nat n), rest)"
    using canonical_digits [of n] by (auto simp: json_number_def Let_def digits_then [OF assms] stop_parts [OF assms] pow10_def)
  show "json_number (CHR ''-'' # show_nat n @ rest) = Some (JNum (- of_nat n), rest)"
    using canonical_digits [of n] by (auto simp: json_number_def Let_def digits_then [OF assms] stop_parts [OF assms] pow10_def)
qed

lemma show_num_int:
  assumes "of_int \<lfloor>r\<rfloor> = r"
  shows "show_num r = (if r < 0 then CHR ''-'' # show_nat (nat (- \<lfloor>r\<rfloor>)) else show_nat (nat \<lfloor>r\<rfloor>))"
proof -
  obtain i where r: "r = of_int i" using assms by metis
  have a: "\<bar>r\<bar> = of_int \<bar>i\<bar>" by (simp add: r)
  have f: "\<lfloor>\<bar>r\<bar>\<rfloor> = \<bar>i\<bar>" by (simp only: a floor_of_int)
  have z: "\<bar>r\<bar> - of_nat (nat \<lfloor>\<bar>r\<bar>\<rfloor>) = 0" by (simp add: f a)
  show ?thesis unfolding show_num_def Let_def z f by (simp add: r)
qed

definition opens_value :: "char \<Rightarrow> bool" where
  "opens_value c \<longleftrightarrow> \<not> json_space c \<and> c \<notin> set '']}''"

lemma skip_space_head: "\<not> json_space c \<Longrightarrow> skip_space (c # t) = c # t"
  by (simp add: skip_space_def)

lemma not_spaces [simp]: "\<not> json_space (CHR 0x22)" "\<not> json_space (CHR ''['')" "\<not> json_space (CHR ''{'')" "\<not> json_space (CHR '':'')"
    "\<not> json_space (CHR '','')" "\<not> json_space (CHR '']'')" "\<not> json_space (CHR ''}'')" "\<not> json_space (CHR ''n'')"
    "\<not> json_space (CHR ''t'')" "\<not> json_space (CHR ''f'')" "\<not> json_space (CHR ''-'')"
  by (simp_all add: json_space_def)

lemma digit_opens: "is_digit c \<Longrightarrow> opens_value c"
  by (auto simp: opens_value_def json_space_def is_digit_def)

lemma json_text_head:
  assumes "json_ok v"
  shows "\<exists>c t. json_text v = c # t \<and> opens_value c"
proof (cases v)
  case (JNum r)
  have d: "\<exists>c t. show_nat n = c # t \<and> opens_value c" for n
    using hd_show_nat [of n] show_nat_nonempty [of n] by (cases "show_nat n") (auto intro: digit_opens)
  have "of_int \<lfloor>r\<rfloor> = r" using assms JNum by simp
  then show ?thesis using d by (auto simp: JNum show_num_int opens_value_def)
qed (use assms in \<open>auto simp: json_quote_def opens_value_def\<close>)

lemma json_number_value:
  assumes "of_int \<lfloor>r\<rfloor> = r" "json_stop rest"
  shows "json_value (Suc n) (show_num r @ rest) = Some (JNum r, rest)"
proof -
  have other: "c \<noteq> CHR ''n'' \<and> c \<noteq> CHR ''t'' \<and> c \<noteq> CHR ''f'' \<and> c \<noteq> CHR 0x22 \<and> c \<noteq> CHR ''['' \<and> c \<noteq> CHR ''{'' \<and> \<not> json_space c"
    if "is_digit c \<or> c = CHR ''-''" for c
    using that by (auto simp: is_digit_def json_space_def)
  have num: "json_value (Suc n) (c # t) = json_number (c # t)" if "is_digit c \<or> c = CHR ''-''" for c t
    using other [OF that] by (simp add: Let_def skip_space_head)
  show ?thesis
  proof (cases "r < 0")
    case True
    then have r: "- of_nat (nat (- \<lfloor>r\<rfloor>)) = r" using assms(1) by simp
    show ?thesis using True num [of "CHR ''-''"] json_number_nat(2) [OF assms(2), of "nat (- \<lfloor>r\<rfloor>)"] r
      by (simp add: show_num_int [OF assms(1)])
  next
    case False
    then have r: "of_nat (nat \<lfloor>r\<rfloor>) = r" using assms(1) by simp
    obtain c t where c: "show_nat (nat \<lfloor>r\<rfloor>) = c # t" "is_digit c"
      using hd_show_nat [of "nat \<lfloor>r\<rfloor>"] show_nat_nonempty [of "nat \<lfloor>r\<rfloor>"] by (cases "show_nat (nat \<lfloor>r\<rfloor>)") auto
    show ?thesis using False num [of c "t @ rest"] json_number_nat(1) [OF assms(2), of "nat \<lfloor>r\<rfloor>"] r c
      by (simp add: show_num_int [OF assms(1)])
  qed
qed

text \<open>Lists of values and members, given that each value reads back.\<close>

definition reads_back :: "js \<Rightarrow> bool" where
  "reads_back v \<longleftrightarrow> (\<forall>n rest. json_stop rest \<longrightarrow> 2 * length (json_text v) < n \<longrightarrow> json_value n (json_text v @ rest) = Some (v, rest))"

lemma elements_back:
  assumes "vs \<noteq> []" "list_all reads_back vs" "2 * length (join_str '','' (map json_text vs)) + 1 < n"
  shows "json_elements n (join_str '','' (map json_text vs) @ CHR '']'' # rest) = Some (vs, rest)"
  using assms
proof (induction vs arbitrary: n)
  case (Cons v vs)
  obtain n' where n: "n = Suc n'" using Cons.prems(3) by (cases n) auto
  show ?case
  proof (cases vs)
    case Nil
    then have "json_value n' (json_text v @ CHR '']'' # rest) = Some (v, CHR '']'' # rest)"
      using Cons.prems n by (simp add: reads_back_def)
    then show ?thesis by (simp add: n Nil skip_space_head)
  next
    case (Cons w ws)
    let ?more = "join_str '','' (map json_text vs)"
    have j: "join_str '','' (map json_text (v # vs)) = json_text v @ CHR '','' # ?more" by (simp add: Cons)
    have "json_value n' (json_text v @ CHR '','' # ?more @ CHR '']'' # rest) = Some (v, CHR '','' # ?more @ CHR '']'' # rest)"
      using Cons.prems n unfolding j by (simp add: reads_back_def)
    moreover have "json_elements n' (?more @ CHR '']'' # rest) = Some (vs, rest)"
      using Cons.IH [of n'] Cons.prems n Cons unfolding j by simp
    ultimately show ?thesis unfolding j by (simp add: n skip_space_head)
  qed
qed simp

definition member_text :: "string \<times> js \<Rightarrow> string" where
  "member_text m = json_quote (fst m) @ CHR '':'' # json_text (snd m)"

lemma member_head: "member_text m = CHR 0x22 # concat (map json_char (fst m)) @ CHR 0x22 # CHR '':'' # json_text (snd m)"
  by (simp add: member_text_def json_quote_def)

lemma members_back:
  assumes "kvs \<noteq> []" "list_all (\<lambda>m. reads_back (snd m)) kvs" "2 * length (join_str '','' (map member_text kvs)) + 1 < n"
  shows "json_members n (join_str '','' (map member_text kvs) @ CHR ''}'' # rest) = Some (kvs, rest)"
  using assms
proof (induction kvs arbitrary: n)
  case (Cons m kvs)
  obtain n' where n: "n = Suc n'" using Cons.prems(3) by (cases n) auto
  show ?case
  proof (cases kvs)
    case Nil
    then have "json_value n' (json_text (snd m) @ CHR ''}'' # rest) = Some (snd m, CHR ''}'' # rest)"
      using Cons.prems n by (simp add: reads_back_def member_text_def)
    then show ?thesis by (simp add: n Nil skip_space_head member_head json_chars_quoted)
  next
    case (Cons w ws)
    let ?more = "join_str '','' (map member_text kvs)"
    have j: "join_str '','' (map member_text (m # kvs)) = member_text m @ CHR '','' # ?more" by (simp add: Cons)
    have "json_value n' (json_text (snd m) @ CHR '','' # ?more @ CHR ''}'' # rest) = Some (snd m, CHR '','' # ?more @ CHR ''}'' # rest)"
      using Cons.prems n unfolding j by (simp add: reads_back_def member_text_def)
    moreover have "json_members n' (?more @ CHR ''}'' # rest) = Some (kvs, rest)"
      using Cons.IH [of n'] Cons.prems n Cons unfolding j by simp
    ultimately show ?thesis unfolding j by (simp add: n skip_space_head member_head json_chars_quoted)
  qed
qed simp

lemma omerge_distinct: "distinct (map fst kvs) \<Longrightarrow> omerge [] kvs = kvs"
proof (induction kvs rule: rev_induct)
  case (snoc kv kvs)
  have "oset (fst kv) (snd kv) m = m @ [kv]" if "fst kv \<notin> set (map fst m)" for m
    using that by (induction m) auto
  then show ?case using snoc by (simp add: omerge_def split: prod.splits) force
qed (simp add: omerge_def)

lemma object_text:
  "list_all (\<lambda>m. json_ok (snd m)) kvs \<Longrightarrow> json_text (JObj kvs) = CHR ''{'' # join_str '','' (map member_text kvs) @ ''}''"
proof -
  assume a: "list_all (\<lambda>m. json_ok (snd m)) kvs"
  have "concat (map (\<lambda>(k, v). if v = JUndef then [] else [json_quote k @ '':'' @ json_text v]) kvs) = map member_text kvs"
    using a by (induction kvs) (auto simp: member_text_def)
  then show ?thesis by simp
qed

lemma join_head: "\<exists>c t. x = c # t \<and> opens_value c \<Longrightarrow> \<exists>c t. join_str sep (x # xs) = c # t \<and> opens_value c"
  by (cases xs) auto

lemma json_words:
  assumes "0 < n"
  shows "json_value n (CHR ''n'' # CHR ''u'' # CHR ''l'' # CHR ''l'' # rest) = Some (JNull, rest)"
    "json_value n (CHR ''t'' # CHR ''r'' # CHR ''u'' # CHR ''e'' # rest) = Some (JBool True, rest)"
    "json_value n (CHR ''f'' # CHR ''a'' # CHR ''l'' # CHR ''s'' # CHR ''e'' # rest) = Some (JBool False, rest)"
  using assms by (cases n; simp add: skip_space_head Let_def)+

theorem json_value_text: "json_ok v \<Longrightarrow> reads_back v"
proof (induction v rule: json_ok.induct)
  case (4 r)
  then show ?case unfolding reads_back_def by (metis json_number_value json_ok.simps(4) json_text.simps(4) less_imp_Suc_add)
next
  case (5 s)
  show ?case unfolding reads_back_def
  proof (intro allI impI)
    fix n rest assume "2 * length (json_text (JStr s)) < n"
    then obtain n' where "n = Suc n'" by (cases n) auto
    then show "json_value n (json_text (JStr s) @ rest) = Some (JStr s, rest)"
      by (simp add: json_quote_def skip_space_head Let_def json_chars_quoted)
  qed
next
  case (6 vs)
  have rb: "list_all reads_back vs" using 6 by (auto simp: list_all_iff)
  show ?case unfolding reads_back_def
  proof (intro allI impI)
    fix n rest assume l: "2 * length (json_text (JArr vs)) < n"
    then obtain n' where n: "n = Suc n'" by (cases n) auto
    show "json_value n (json_text (JArr vs) @ rest) = Some (JArr vs, rest)"
    proof (cases vs)
      case Nil
      then show ?thesis by (simp add: n skip_space_head Let_def)
    next
      case (Cons w ws)
      have "json_ok w" using 6(2) Cons by simp
      then obtain c t where c: "join_str '','' (map json_text vs) = c # t" "opens_value c"
        using join_head [OF json_text_head [of w], of "'',''" "map json_text ws"] Cons by auto
      have "json_elements n' (join_str '','' (map json_text vs) @ CHR '']'' # rest) = Some (vs, rest)"
        using l n rb Cons by (intro elements_back) simp_all
      then show ?thesis using c by (simp add: n c skip_space_head Let_def opens_value_def)
    qed
  qed
next
  case (7 kvs)
  have ok: "list_all (\<lambda>m. json_ok (snd m)) kvs" and d: "distinct (map fst kvs)" using 7(2) by (auto simp: list_all_iff)
  have rb: "list_all (\<lambda>m. reads_back (snd m)) kvs" using 7 ok by (fastforce simp: list_all_iff)
  show ?case unfolding reads_back_def
  proof (intro allI impI)
    fix n rest assume l: "2 * length (json_text (JObj kvs)) < n"
    then obtain n' where n: "n = Suc n'" by (cases n) auto
    show "json_value n (json_text (JObj kvs) @ rest) = Some (JObj kvs, rest)"
    proof (cases kvs)
      case Nil
      then show ?thesis by (simp add: n skip_space_head Let_def)
    next
      case (Cons w ws)
      have "\<exists>c t. member_text w = c # t \<and> opens_value c" by (simp add: member_head opens_value_def)
      then obtain c t where c: "join_str '','' (map member_text kvs) = c # t" "opens_value c"
        using join_head [of "member_text w" "'',''" "map member_text ws"] Cons by auto
      have "json_members n' (join_str '','' (map member_text kvs) @ CHR ''}'' # rest) = Some (kvs, rest)"
        using l n rb Cons object_text [OF ok] by (intro members_back) (simp_all del: json_text.simps)
      then show ?thesis using c unfolding object_text [OF ok]
        by (simp add: n c skip_space_head Let_def opens_value_def omerge_distinct [OF d])
    qed
  qed
qed (auto simp: reads_back_def json_words)

theorem json_parse_text:
  assumes "json_ok v"
  shows "json_parse (json_text v) = Some v"
proof -
  have "json_value (Suc (2 * length (json_text v))) (json_text v @ []) = Some (v, [])"
    using json_value_text [OF assms] unfolding reads_back_def by (metis json_stop_chars(1) lessI)
  then show ?thesis by (simp add: json_parse_def skip_space_def)
qed

text \<open>White space around the text does not matter.\<close>

lemma skip_spaces: "list_all json_space a \<Longrightarrow> skip_space (a @ s) = skip_space s"
  by (simp add: skip_space_def list_all_iff dropWhile_append2)

lemma json_value_spaces: "list_all json_space a \<Longrightarrow> json_value n (a @ s) = json_value n s"
  by (cases n) (simp_all add: skip_spaces)

lemma json_parse_padded:
  assumes "json_ok v" "list_all json_space a" "list_all json_space b"
  shows "json_parse (a @ json_text v @ b) = Some v"
proof -
  have "json_stop b" using assms(3) by (cases b) (auto simp: json_stop_def)
  then have "json_value (Suc (2 * length (a @ json_text v @ b))) (json_text v @ b) = Some (v, b)"
    using json_value_text [OF assms(1)] unfolding reads_back_def by (simp del: json_value.simps)
  moreover have "skip_space b = []" using assms(3) skip_spaces [of b "[]"] by (simp add: skip_space_def)
  ultimately show ?thesis by (simp only: json_parse_def json_value_spaces [OF assms(2)] option.case prod.case if_True simp_thms)
qed

end
