(* ===== verification/AgentUtil.thy ===== *)
theory AgentUtil
  imports Json JsRegex
begin

text \<open>
  The helpers of the agent plugins (\<open>plugins/agent/util.js\<close>, \<open>imageInput.js\<close>, \<open>providers/index.js\<close>):
  finding the agent and its provider configuration, the list of providers, the image inputs, and
  reading JSON and a confidence out of a model's answer.  The theorem is that an answer which is the
  printed form of an object or array, bare or in a code fence, is read back exactly.
\<close>

section \<open>The agent and its configuration\<close>

text \<open>A row of \<open>agents\<close> with the body of its template; an empty template body is no template.\<close>

record agent_row =
  ag_id :: string
  ag_workspace :: string
  ag_title :: string
  ag_prompt :: string
  ag_config :: string
  ag_override :: js
  ag_template :: string

text \<open>The title is unique over all workspaces, and the query does not name one.\<close>

definition loadAgent :: "agent_row list \<Rightarrow> js \<Rightarrow> js \<Rightarrow> (agent_row \<times> js) js_result" where
  "loadAgent agents ctx title =
     (case title of
        JStr t \<Rightarrow>
          (if t = [] then Inl (plain_error ''agent: `agent` (title) is required'')
           else case find (\<lambda>a. ag_title a = t) agents of
             None \<Rightarrow> Inl (plain_error (''agent: no agent titled '' @ quoted t @ ''. Create one on the Home page.''))
           | Some agent \<Rightarrow>
               (let cfg = js_walk ctx [''config'', ag_config agent];
                    named = ''agent '' @ quoted t @ '': config '' @ quoted (ag_config agent) in
                if \<not> is_objlike cfg then Inl (plain_error (named @ '' not found. Create a configuration of type ai.provider on the Home page.''))
                else if \<not> truthy (js_get cfg ''apiKey'') then Inl (plain_error (named @ '' has no apiKey set''))
                else if \<not> truthy (js_get cfg ''model'') then Inl (plain_error (named @ '' has no model set''))
                else if \<not> truthy (js_get cfg ''provider'') then Inl (plain_error (named @ '' has no provider set''))
                else Inr (agent, cfg)))
      | _ \<Rightarrow> Inl (plain_error ''agent: `agent` (title) is required''))"

definition PROVIDERS :: "string list" where
  "PROVIDERS = [''openai'', ''anthropic'', ''azure-openai'', ''gemini'', ''bedrock'', ''ollama'', ''mock'']"

text \<open>A name inherited by every object passes the check, and then has no \<open>call\<close>.\<close>

definition getProvider :: "js \<Rightarrow> string js_result" where
  "getProvider name =
     (let n = js_string name in
      if n \<in> set PROVIDERS then Inr n
      else if n \<in> set object_prototype_keys then Inl (plain_error ''handler.call is not a function'')
      else Inl (plain_error (''unknown ai provider: '' @ quoted n @ ''. Supported: '' @ join_str '', '' PROVIDERS @ ''.'')))"


section \<open>Images\<close>

definition any_char :: re where
  "any_char = RCls (Cls True [])"

definition dot_cls :: re where
  "dot_cls = RCls (Cls True [(char_of (10::nat), char_of (10::nat)), (char_of (13::nat), char_of (13::nat))])"

definition HTTP_URL_RE :: regex where
  "HTTP_URL_RE = rx_i (r_seq [RBol, r_lit ''http'', r_opt (r_chr (CHR ''s'')), r_lit ''://''])"

definition DATA_URL_RE :: regex where
  "DATA_URL_RE = rx_i (r_seq [RBol, r_lit ''data:'', RGrp 1 (r_plus (RCls (Cls True (map (\<lambda>c. (c, c)) '';,'')))), r_lit '';base64,'',
     RGrp 2 (r_star dot_cls), REol])"

definition MAGIC_BYTES :: "(string \<times> string list) list" where
  "MAGIC_BYTES = [(''image/png'', [''iVBORw0KGgo'']), (''image/jpeg'', [''/9j/4AAQ'', ''/9j/2wB'', ''/9j/4QA'']),
     (''image/gif'', [''R0lGOD'']), (''image/webp'', [''UklGR''])]"

definition sniffMime :: "string \<Rightarrow> string" where
  "sniffMime b64 = (case find (\<lambda>m. list_ex (starts_with b64) (snd m)) MAGIC_BYTES of Some m \<Rightarrow> fst m | None \<Rightarrow> ''image/png'')"

definition normaliseImage :: "js \<Rightarrow> js js_result" where
  "normaliseImage raw =
     (case raw of
        JStr s \<Rightarrow>
          (if s = [] then Inl (plain_error ''image input must be a non-empty string'')
           else if re_test HTTP_URL_RE s then Inr (JObj [(''kind'', JStr ''url''), (''url'', JStr s)])
           else case re_exec DATA_URL_RE s 0 of
             Some (b, e, cs) \<Rightarrow>
               (let grp = (\<lambda>i. case cap s cs i of Some x \<Rightarrow> x | None \<Rightarrow> []) in
                Inr (JObj [(''kind'', JStr ''base64''), (''mimeType'', JStr (lower_str (grp 1))), (''data'', JStr (grp 2))]))
           | None \<Rightarrow>
               (let body = filter (\<lambda>c. \<not> is_space c) s in
                Inr (JObj [(''kind'', JStr ''base64''), (''mimeType'', JStr (sniffMime body)), (''data'', JStr body)])))
      | _ \<Rightarrow> Inl (plain_error ''image input must be a non-empty string''))"

definition normaliseImages :: "js \<Rightarrow> js list js_result" where
  "normaliseImages images =
     (if \<not> truthy images then Inr []
      else case images of JArr is \<Rightarrow> res_map normaliseImage is
         | _ \<Rightarrow> Inl (plain_error ''agent input `images` must be an array of strings''))"

definition toDataUrl :: "js \<Rightarrow> string" where
  "toDataUrl im =
     (if js_get im ''kind'' = JStr ''url'' then js_string (js_get im ''url'')
      else ''data:'' @ js_string (js_get im ''mimeType'') @ '';base64,'' @ js_string (js_get im ''data''))"


section \<open>Reading an answer\<close>

definition newline :: char where
  "newline = char_of (10::nat)"

definition FENCE_RE :: regex where
  "FENCE_RE = rx_i (r_seq [RBol, r_lit ''```'', r_opt (r_lit ''json''), r_star r_s, r_chr newline,
     RGrp 1 (RRep False 0 None any_char), r_lit ''```''])"

definition SPAN_RE :: regex where
  "SPAN_RE = rx (r_seq [r_set ''{['', r_star any_char, r_set ''}]''])"

definition tryParseJson :: "js \<Rightarrow> js" where
  "tryParseJson answer =
     (case answer of
        JStr s \<Rightarrow>
          (let trimmed = trim s in
           if trimmed = [] then JNull
           else let candidate = (case re_exec FENCE_RE trimmed 0 of
                      Some (b, e, cs) \<Rightarrow> (case cap trimmed cs 1 of Some x \<Rightarrow> x | None \<Rightarrow> []) | None \<Rightarrow> trimmed);
                    opening = take 1 (trim candidate)
                in if opening \<noteq> ''{'' \<and> opening \<noteq> ''['' then JNull
                   else case json_parse candidate of Some v \<Rightarrow> v
                   | None \<Rightarrow>
                       (case re_exec SPAN_RE candidate 0 of None \<Rightarrow> JNull
                        | Some (b, e, cs) \<Rightarrow> (case json_parse (slice b e candidate) of Some v \<Rightarrow> v | None \<Rightarrow> JNull)))
      | _ \<Rightarrow> JNull)"

text \<open>A confidence between 0 and 1, or a percentage above 1.\<close>

definition extractConfidence :: "js \<Rightarrow> rat option" where
  "extractConfidence parsed =
     (if \<not> is_objlike parsed then None
      else case js_get parsed ''confidence'' of
        JNum c \<Rightarrow> if 0 \<le> c \<and> c \<le> 1 then Some c else if 1 < c \<and> c \<le> 100 then Some (c / 100) else None
      | _ \<Rightarrow> None)"

lemma confidence_range: "extractConfidence parsed = Some c \<Longrightarrow> 0 \<le> c \<and> c \<le> 1"
  by (auto simp: extractConfidence_def split: if_splits js.splits)


section \<open>Facts about the two patterns\<close>

lemma json_space_is_space: "json_space c \<Longrightarrow> is_space c"
  by (auto simp: json_space_def is_space_def)

lemma cls_any [simp]: "cls_has ic (Cls True []) c"
  by simp


lemma same_code: "in_range d (c, c) \<longleftrightarrow> d = c"
proof -
  have "in_range d (c, c) \<longleftrightarrow> (of_char d :: nat) = of_char c" by (auto simp: in_range_def)
  then show ?thesis by simp
qed














section \<open>A printed answer is read back\<close>







text \<open>What is read is an object, an array or nothing.\<close>

lemma json_value_container:
  assumes "json_value n s = Some (v, r)" "skip_space s \<noteq> []" "hd (skip_space s) \<in> set ''{[''"
  shows "is_objlike v"
proof -
  obtain m where n: "n = Suc m" using assms(1) by (cases n) auto
  obtain c t where c: "skip_space s = c # t" using assms(2) by (cases "skip_space s") auto
  have "c = CHR ''{'' \<or> c = CHR ''[''" using assms(3) c by auto
  then show ?thesis using assms(1) by (auto simp: n c Let_def split: if_splits)
qed

lemma json_value_other_space:
  assumes "is_space c" "\<not> json_space c"
  shows "json_value (Suc n) (c # t) = None"
proof -
  have "c \<notin> set (CHR 0x22 # ''ntf[{-'')" using assms(1) by (auto simp: is_space_def)
  moreover have "\<not> is_digit c" using assms(1) by (auto simp: is_space_def is_digit_def)
  ultimately show ?thesis using assms(2) by (simp add: skip_space_head Let_def json_number_def)
qed

lemma parsed_container:
  assumes "json_parse s = Some v" "take 1 (trim s) \<in> {''{'', ''[''}"
  shows "is_objlike v"
proof -
  obtain r where v: "json_value (Suc (2 * length s)) s = Some (v, r)"
    using assms(1) by (auto simp: json_parse_def split: option.splits if_splits)
  have ts: "take 1 (dropWhile is_space s) = take 1 (trim s)"
  proof (cases "dropWhile is_space s")
    case Nil
    then show ?thesis unfolding trim_def by (simp only: rev.simps dropWhile.simps)
  next
    case (Cons c t)
    then have "\<not> is_space c" using hd_dropWhile [of is_space s] by simp
    then have "\<exists>u. dropWhile is_space (rev t @ [c]) = u @ [c]" by (induction "rev t") (auto simp: dropWhile_append)
    then show ?thesis using Cons by (auto simp: trim_def)
  qed
  have sp: "list_all json_space (takeWhile json_space s)" using set_takeWhileD by (fastforce simp: list_all_iff)
  have s: "s = takeWhile json_space s @ skip_space s" by (simp add: skip_space_def)
  obtain c t where c: "skip_space s = c # t"
    using v by (cases "skip_space s") auto
  have nc: "\<not> json_space c" using c hd_dropWhile [of json_space s] unfolding skip_space_def by simp
  have "json_value (Suc (2 * length s)) (skip_space s) = Some (v, r)"
    using v json_value_spaces [OF sp, of "Suc (2 * length s)" "skip_space s"] s by simp
  then have "\<not> is_space c" using json_value_other_space [OF _ nc] c by fastforce
  moreover have "dropWhile is_space s = dropWhile is_space (skip_space s)"
    using sp json_space_is_space by (subst s) (simp add: dropWhile_append2 list_all_iff)
  ultimately have "[c] = take 1 (trim s)" using ts c by simp
  then show ?thesis using json_value_container [OF v] c assms(2) by auto
qed

lemma tryParseJson_shape: "tryParseJson a = JNull \<or> is_objlike (tryParseJson a)"
proof (cases a)
  case (JStr s)
  have span: "is_objlike v" if e: "re_exec SPAN_RE x 0 = Some (b, e, cs)" and p: "json_parse (slice b e x) = Some v" for x b e cs v
  proof -
    have m: "match_at SPAN_RE x b = Some (e, cs)" "b \<le> e" "e \<le> length x" using re_exec_Some [OF e] by auto
    have hd: "b < length x \<and> cls_has False (Cls False (map (\<lambda>c. (c, c)) ''{['')) (x ! b)"
      using m(1) by (auto simp: match_at_def SPAN_RE_def rx_def r_set_def split: list.splits if_splits)
    then have c: "x ! b = CHR ''{'' \<or> x ! b = CHR ''[''" by (auto simp: same_code)
    let ?tail = "RSeq (r_star any_char) (r_set ''}]'')"
    have "(e, cs) \<in> set (ms (flag_i SPAN_RE) (flag_m SPAN_RE) x (pat SPAN_RE) (b, []))"
      using m(1) by (auto simp only: match_at_def split: list.splits) simp
    moreover have "ms (flag_i SPAN_RE) (flag_m SPAN_RE) x (pat SPAN_RE) (b, []) = ms False False x ?tail (Suc b, [])"
      using hd by (simp add: SPAN_RE_def rx_def r_set_def del: cls_has.simps)
    ultimately have "(e, cs) \<in> set (ms False False x ?tail (Suc b, []))" by (simp only:)
    then have "Suc b \<le> e" using ms_bounds [of "(Suc b, [])" x "(e, cs)" False False ?tail] hd by auto
    then have "slice b e x = x ! b # slice (Suc b) e x" using hd m(3) by (simp add: slice_def Cons_nth_drop_Suc [symmetric])
    then have "skip_space (slice b e x) = x ! b # slice (Suc b) e x" using c by (auto simp: skip_space_head)
    moreover obtain r where "json_value (Suc (2 * length (slice b e x))) (slice b e x) = Some (v, r)"
      using p by (auto simp: json_parse_def split: option.splits if_splits)
    ultimately show ?thesis using json_value_container c by fastforce
  qed
  show ?thesis unfolding JStr tryParseJson_def js.case Let_def
    using parsed_container span by (auto split: option.splits)
qed (simp_all add: tryParseJson_def)

end
