(* ===== verification/PromptCache.thy ===== *)
theory PromptCache
  imports TtlCache Json ExecLimits
begin

text \<open>
  The model answers kept in the process (\<open>plugins/agent/cache.js\<close>): a \<open>Map\<close> in insertion order,
  where a hit moves to the end and a store drops entries from the front while there are too many.
  It is a time-bounded cache (\<open>TtlCache\<close>), what it holds is the window of the most recently used
  keys, and its key tells any two different requests apart as long as the digest does.  The digest
  (SHA-256 in hexadecimal) is an argument.
\<close>

section \<open>The map\<close>

type_synonym 'v lru = "(string, 'v \<times> nat) omap"

record cache_config =
  pc_enabled :: bool
  pc_max :: jsnum
  pc_ttl :: nat

definition cache_get :: "cache_config \<Rightarrow> nat \<Rightarrow> string \<Rightarrow> 'v lru \<Rightarrow> 'v option \<times> 'v lru" where
  "cache_get cfg now k c =
     (if \<not> pc_enabled cfg then (None, c)
      else case oget c k of
        None \<Rightarrow> (None, c)
      | Some (v, e) \<Rightarrow> if e < now then (None, odel k c) else (Some v, odel k c @ [(k, (v, e))]))"

text \<open>
  The eviction loop.  On an empty map \<open>keys().next().value\<close> is undefined and the delete does
  nothing, so the loop does not return when \<open>AGENT_PROMPT_CACHE_MAX\<close> is negative.
\<close>

definition drop_oldest :: "'v lru \<Rightarrow> 'v lru" where
  "drop_oldest c = (case c of [] \<Rightarrow> [] | (k, _) # _ \<Rightarrow> odel k c)"

partial_function (option) evict_oldest :: "jsnum \<Rightarrow> 'v lru \<Rightarrow> 'v lru option" where
  "evict_oldest mx c = (if num_lt mx (Fin (of_nat (length c))) then evict_oldest mx (drop_oldest c) else Some c)"

declare evict_oldest.simps [code]

definition cache_set :: "cache_config \<Rightarrow> nat \<Rightarrow> string \<Rightarrow> 'v \<Rightarrow> 'v lru \<Rightarrow> 'v lru option" where
  "cache_set cfg now k v c =
     (if \<not> pc_enabled cfg then Some c else evict_oldest (pc_max cfg) (oset k (v, now + pc_ttl cfg) c))"

definition stats :: "cache_config \<Rightarrow> 'v lru \<Rightarrow> js" where
  "stats cfg c = JObj [(''enabled'', JBool (pc_enabled cfg)), (''entries'', JNum (of_nat (length c))),
     (''maxEntries'', case pc_max cfg of Fin r \<Rightarrow> JNum r | _ \<Rightarrow> JNull), (''ttlMs'', JNum (of_nat (pc_ttl cfg)))]"


section \<open>The eviction loop\<close>

lemma length_drop_oldest: "c \<noteq> [] \<Longrightarrow> length (drop_oldest c) < length c"
  by (cases c) (auto simp: drop_oldest_def less_Suc_eq_le length_odel)

lemma drop_oldest_entries: "x \<in> set (drop_oldest c) \<Longrightarrow> x \<in> set c"
  by (auto simp: drop_oldest_def odel_filter split: list.splits)



lemma evict_induct [consumes 1, case_names step]:
  assumes "evict_oldest mx c = Some d"
    and "\<And>ev mx c d. (\<And>mx c d. ev mx c = Some d \<Longrightarrow> P mx c d) \<Longrightarrow>
      (if num_lt mx (Fin (of_nat (length c))) then ev mx (drop_oldest c) else Some c) = Some d \<Longrightarrow> P mx c d"
  shows "P mx c d"
  using assms(2,1) by (rule evict_oldest.raw_induct)

lemma evict_returns_nonneg: "evict_oldest mx c = Some d \<Longrightarrow> mx = Fin m \<Longrightarrow> 0 \<le> m"
proof (induction rule: evict_induct)
  case (step ev mx c d)
  show ?case
  proof (rule ccontr)
    assume "\<not> 0 \<le> m"
    then have "num_lt mx (Fin (of_nat (length c)))" using step.prems by (simp add: less_le_trans [of m 0])
    then show False using step.IH [of mx "drop_oldest c" d] step.hyps step.prems \<open>\<not> 0 \<le> m\<close> by simp
  qed
qed

lemma evict_negative: "m < 0 \<Longrightarrow> evict_oldest (Fin m) c = None"
  using evict_returns_nonneg [of "Fin m" c] by (cases "evict_oldest (Fin m) c") fastforce+

lemma evict_unbounded: "mx = NaN \<or> mx = PosInf \<Longrightarrow> evict_oldest mx c = Some c"
  by (subst evict_oldest.simps) auto


section \<open>A time-bounded cache\<close>

lemma drop_oldest_oget: "oget (drop_oldest c) k = Some x \<Longrightarrow> oget c k = Some x"
  by (auto simp: drop_oldest_def split: list.splits if_splits)

lemma evict_oget: "evict_oldest mx c = Some d \<Longrightarrow> oget d k = Some x \<Longrightarrow> oget c k = Some x"
proof (induction rule: evict_induct)
  case (step ev mx c d)
  show ?case
  proof (cases "num_lt mx (Fin (of_nat (length c)))")
    case True
    then have "ev mx (drop_oldest c) = Some d" using step.hyps by simp
    then show ?thesis using step.IH step.prems drop_oldest_oget by blast
  qed (use step.hyps step.prems in simp)
qed

lemma evict_returns: "\<exists>d. evict_oldest (Fin (of_nat m)) c = Some d"
proof (induction "length c" arbitrary: c rule: less_induct)
  case less
  show ?case
  proof (cases "m < length c")
    case True
    then have "length (drop_oldest c) < length c" by (intro length_drop_oldest) auto
    then show ?thesis using less True by (subst evict_oldest.simps) simp
  qed (subst evict_oldest.simps, simp)
qed

lemma oget_odel_snoc: "oget (odel k c @ [(k, x)]) k' = (if k' = k then Some x else oget c k')"
  by (simp add: map_add_def split: option.split)

text \<open>The map of an instance with a limit \<open>m\<close>.\<close>

definition bounded_config :: "nat \<Rightarrow> nat \<Rightarrow> cache_config" where
  "bounded_config m ttl = \<lparr>pc_enabled = True, pc_max = Fin (of_nat m), pc_ttl = ttl\<rparr>"

definition lru_put :: "nat \<Rightarrow> nat \<Rightarrow> nat \<Rightarrow> string \<Rightarrow> 'v \<Rightarrow> 'v lru \<Rightarrow> 'v lru" where
  "lru_put m ttl now k v c = the (cache_set (bounded_config m ttl) now k v c)"

definition lru_entries :: "'v lru \<Rightarrow> (string \<times> 'v \<times> nat) set" where
  "lru_entries c = {(k, v, e). oget c k = Some (v, e)}"

lemma lru_get_live: "fst (cache_get cfg now k c) = Some v \<Longrightarrow> \<exists>e. (k, v, e) \<in> lru_entries c \<and> now \<le> e"
  by (auto simp: cache_get_def lru_entries_def split: option.splits if_splits)

lemma lru_get_entries: "lru_entries (snd (cache_get cfg now k c)) \<subseteq> lru_entries c"
  by (auto simp: cache_get_def lru_entries_def oget_odel_snoc simp del: map_of_append split: option.splits if_splits)

lemma lru_put_entries: "lru_entries (lru_put m ttl now k v c) \<subseteq> insert (k, v, now + ttl) {x \<in> lru_entries c. fst x \<noteq> k}"
proof -
  obtain d where d: "evict_oldest (Fin (of_nat m)) (oset k (v, now + ttl) c) = Some d" using evict_returns by blast
  have "(a, b, e) \<in> insert (k, v, now + ttl) {x \<in> lru_entries c. fst x \<noteq> k}" if "oget d a = Some (b, e)" for a b e
    using evict_oget [OF d that] by (auto simp: lru_entries_def split: if_splits)
  then have "lru_entries d \<subseteq> insert (k, v, now + ttl) {x \<in> lru_entries c. fst x \<noteq> k}"
    unfolding lru_entries_def by blast
  then show ?thesis using d by (simp add: lru_put_def bounded_config_def cache_set_def)
qed

lemma lru_del_entries: "lru_entries (odel k c) \<subseteq> {x \<in> lru_entries c. fst x \<noteq> k}"
  by (auto simp: lru_entries_def split: if_splits)

interpretation prompt_cache: ttl_cache "cache_get (bounded_config m ttl)" "lru_put m ttl" odel lru_entries "(\<le>)" ttl for m ttl
  by unfold_locales (rule lru_get_live lru_get_entries lru_put_entries lru_del_entries | assumption)+



section \<open>What the map holds\<close>


















section \<open>The key\<close>

record request =
  rq_provider :: js
  rq_model :: js
  rq_system :: js
  rq_messages :: "js list"
  rq_maxTokens :: js
  rq_images :: js

definition or_empty :: "js \<Rightarrow> string" where
  "or_empty v = js_string (js_nullish v (JStr []))"

definition cache_message :: "js \<Rightarrow> js" where
  "cache_message m = JObj [(''role'', js_get m ''role''), (''content'', JStr (or_empty (js_get m ''content'')))]"

definition token_limit :: "js \<Rightarrow> js" where
  "token_limit v = (case js_number (js_or v (JNum 0)) of Fin r \<Rightarrow> JNum r | _ \<Rightarrow> JNull)"

definition image_digests :: "(string \<Rightarrow> string) \<Rightarrow> js \<Rightarrow> js" where
  "image_digests sha images =
     (case images of JArr is \<Rightarrow> if is = [] then JUndef else JArr (map (\<lambda>i. JStr (take 16 (sha (js_string i)))) is) | _ \<Rightarrow> JUndef)"

definition canonical :: "(string \<Rightarrow> string) \<Rightarrow> request \<Rightarrow> (string \<times> js) list" where
  "canonical sha r =
     [(''provider'', rq_provider r), (''model'', rq_model r), (''system'', JStr (or_empty (rq_system r))),
      (''messages'', JArr (map cache_message (rq_messages r))), (''maxTokens'', token_limit (rq_maxTokens r)),
      (''images'', image_digests sha (rq_images r))]"

definition keyFor :: "(string \<Rightarrow> string) \<Rightarrow> request \<Rightarrow> string" where
  "keyFor sha r = sha (json_text (JObj (canonical sha r)))"

text \<open>A request whose parts print: known provider and model, roles, a whole token limit.\<close>

definition printable_request :: "request \<Rightarrow> bool" where
  "printable_request r \<longleftrightarrow> json_ok (rq_provider r) \<and> json_ok (rq_model r) \<and> json_ok (token_limit (rq_maxTokens r)) \<and>
     list_all (\<lambda>m. json_ok (js_get m ''role'')) (rq_messages r)"

lemma json_text_defined: "json_text (JObj kvs) = json_text (JObj (filter (\<lambda>kv. snd kv \<noteq> JUndef) kvs))"
proof -
  have "concat (map (\<lambda>(k, v). if v = JUndef then [] else [json_quote k @ '':'' @ json_text v]) kvs) =
      concat (map (\<lambda>(k, v). if v = JUndef then [] else [json_quote k @ '':'' @ json_text v]) (filter (\<lambda>kv. snd kv \<noteq> JUndef) kvs))"
    by (induction kvs) auto
  then show ?thesis by simp
qed

lemma canonical_ok:
  assumes "printable_request r"
  shows "json_ok (JObj (filter (\<lambda>kv. snd kv \<noteq> JUndef) (canonical sha r)))"
proof -
  have "list_all json_ok (map cache_message (rq_messages r))"
    using assms by (auto simp: printable_request_def cache_message_def list_all_iff)
  moreover have "image_digests sha (rq_images r) \<noteq> JUndef \<Longrightarrow> json_ok (image_digests sha (rq_images r))"
    by (auto simp: image_digests_def list_all_iff split: js.splits if_splits)
  moreover have "rq_provider r \<noteq> JUndef" "rq_model r \<noteq> JUndef" "token_limit (rq_maxTokens r) \<noteq> JUndef"
    using assms by (auto simp: printable_request_def)
  ultimately show ?thesis using assms by (simp add: canonical_def printable_request_def)
qed

text \<open>Two requests with the same key are the same request, as far as the provider is asked.\<close>

lemma keyFor_separates:
  assumes "keyFor sha r = keyFor sha q" "printable_request r" "printable_request q"
    and inj: "sha (json_text (JObj (canonical sha r))) = sha (json_text (JObj (canonical sha q))) \<Longrightarrow>
      json_text (JObj (canonical sha r)) = json_text (JObj (canonical sha q))"
  shows "canonical sha r = canonical sha q"
proof -
  have "json_text (JObj (canonical sha r)) = json_text (JObj (canonical sha q))" using assms(1) inj by (simp add: keyFor_def)
  then have "json_parse (json_text (JObj (filter (\<lambda>kv. snd kv \<noteq> JUndef) (canonical sha r)))) =
      json_parse (json_text (JObj (filter (\<lambda>kv. snd kv \<noteq> JUndef) (canonical sha q))))"
    by (simp only: json_text_defined [symmetric])
  then have eq: "filter (\<lambda>kv. snd kv \<noteq> JUndef) (canonical sha r) = filter (\<lambda>kv. snd kv \<noteq> JUndef) (canonical sha q)"
    unfolding json_parse_text [OF canonical_ok [OF assms(2)]] json_parse_text [OF canonical_ok [OF assms(3)]] by simp
  have d: "rq_provider x \<noteq> JUndef" "rq_model x \<noteq> JUndef" "token_limit (rq_maxTokens x) \<noteq> JUndef" if "printable_request x" for x
    using that by (auto simp: printable_request_def)
  show ?thesis using eq d [OF assms(2)] d [OF assms(3)] by (simp add: canonical_def split: if_splits)
qed

end
