(* ===== verification/Pricing.thy ===== *)
theory Pricing
  imports Json JsRegex ExecLimits
begin

text \<open>
  What a model call costs (\<open>plugins/agent/pricing.js\<close>) and the row that records it
  (\<open>plugins/agent/usage.js\<close>).  Rates are dollars per million tokens, costs whole micro-dollars;
  the arithmetic is exact here.  A cost is \<open>NaN\<close> when a rate of the environment's overrides is not
  a finite number.
\<close>

section \<open>Rates\<close>

definition RATES :: "(string \<times> rat \<times> rat) list" where
  "RATES =
     [(''claude-sonnet-4-6'', 3, 15),
      (''claude-sonnet-4-6-20260507'', 3, 15),
      (''claude-sonnet-4-5'', 3, 15),
      (''claude-sonnet-4-5-20250929'', 3, 15),
      (''claude-sonnet-4'', 3, 15),
      (''claude-opus-4-6'', 15, 75),
      (''claude-opus-4-1'', 15, 75),
      (''claude-haiku-4-5'', 1, 5),
      (''claude-haiku-4-5-20251001'', 1, 5),
      (''claude-3-5-sonnet-20241022'', 3, 15),
      (''claude-3-5-sonnet-latest'', 3, 15),
      (''claude-3-5-haiku-20241022'', 4/5, 4),
      (''claude-3-opus-20240229'', 15, 75),
      (''gpt-4o'', 5/2, 10),
      (''gpt-4o-2024-11-20'', 5/2, 10),
      (''gpt-4o-mini'', 3/20, 3/5),
      (''gpt-4o-mini-2024-07-18'', 3/20, 3/5),
      (''o1'', 15, 60),
      (''o1-mini'', 3, 12),
      (''o1-preview'', 15, 60),
      (''gpt-4-turbo'', 10, 30),
      (''gpt-3.5-turbo'', 1/2, 3/2),
      (''gemini-2.0-flash'', 3/40, 3/10),
      (''gemini-2.0-flash-001'', 3/40, 3/10),
      (''gemini-1.5-pro'', 5/4, 5),
      (''gemini-1.5-flash'', 3/40, 3/10),
      (''anthropic.claude-3-5-sonnet-20241022-v2:0'', 3, 15),
      (''anthropic.claude-3-5-haiku-20241022-v1:0'', 4/5, 4),
      (''anthropic.claude-3-opus-20240229-v1:0'', 15, 75),
      (''meta.llama3-1-70b-instruct-v1:0'', 99/100, 99/100),
      (''meta.llama3-1-8b-instruct-v1:0'', 11/50, 11/50)]"

definition IMAGE_RATES :: "(string \<times> rat) list" where
  "IMAGE_RATES = [(''dall-e-3'', 80000), (''dall-e-3-hd'', 120000), (''dall-e-2'', 20000), (''gpt-image-1'', 40000), (''imagen-3.0-generate-001'', 40000), (''imagen-3.0-fast-generate-001'', 20000)]"

text \<open>The overrides of the environment; text that is not JSON counts as none.\<close>

definition envOverrides :: "environ \<Rightarrow> js" where
  "envOverrides env =
     (case json_parse (case env ''AGENT_PRICING_OVERRIDES'' of Some s \<Rightarrow> if s = [] then ''{}'' else s | None \<Rightarrow> ''{}'') of
        Some v \<Rightarrow> v | None \<Rightarrow> JObj [])"

definition rate_value :: "rat \<times> rat \<Rightarrow> js" where
  "rate_value r = JObj [(''input'', JNum (fst r)), (''output'', JNum (snd r))]"

text \<open>A read of a property of null or undefined throws.\<close>

definition override_of :: "environ \<Rightarrow> string \<Rightarrow> js js_result" where
  "override_of env model =
     (if nullish (envOverrides env) then Inl (plain_error ''Cannot read properties of null'') else Inr (js_get (envOverrides env) model))"

definition getRate :: "environ \<Rightarrow> string \<Rightarrow> string \<Rightarrow> js js_result" where
  "getRate env provider model =
     (if provider = ''ollama'' then Inr (rate_value (0, 0))
      else res_bind (override_of env model) (\<lambda>o1.
        if truthy o1 then Inr o1
        else Inr (rate_value (case map_of RATES model of Some r \<Rightarrow> r | None \<Rightarrow> (0, 0)))))"

text \<open>\<open>Math.round\<close>: halves go up.\<close>

definition math_round :: "rat \<Rightarrow> rat" where
  "math_round r = of_int \<lfloor>r + 1/2\<rfloor>"

definition num_times :: "jsnum \<Rightarrow> jsnum \<Rightarrow> jsnum" where
  "num_times a b = (case (a, b) of (Fin x, Fin y) \<Rightarrow> Fin (x * y) | _ \<Rightarrow> NaN)"

definition num_plus :: "jsnum \<Rightarrow> jsnum \<Rightarrow> jsnum" where
  "num_plus a b = (case (a, b) of (Fin x, Fin y) \<Rightarrow> Fin (x + y) | _ \<Rightarrow> NaN)"

definition num_round :: "jsnum \<Rightarrow> jsnum" where
  "num_round a = (case a of Fin x \<Rightarrow> Fin (math_round x) | _ \<Rightarrow> a)"

definition costMicros :: "environ \<Rightarrow> string \<Rightarrow> string \<Rightarrow> js \<Rightarrow> js \<Rightarrow> js \<Rightarrow> jsnum js_result" where
  "costMicros env provider model inputTokens outputTokens images =
     (if num_lt (Fin 0) (js_number images) then
        res_bind (override_of env model) (\<lambda>o1.
          let perImage = (case js_get o1 ''perImage'' of JNum r \<Rightarrow> r
                          | _ \<Rightarrow> (case map_of IMAGE_RATES model of Some r \<Rightarrow> r | None \<Rightarrow> 0))
          in Inr (num_round (num_times (Fin perImage) (js_number images))))
      else res_bind (getRate env provider model) (\<lambda>r.
        Inr (num_round (num_plus (num_times (number_or inputTokens (Fin 0)) (js_number (js_get r ''input'')))
                                 (num_times (number_or outputTokens (Fin 0)) (js_number (js_get r ''output'')))))))"

definition microsToDollars :: "js \<Rightarrow> jsnum" where
  "microsToDollars micros = num_times (number_or micros (Fin 0)) (Fin (1 / 1000000))"


section \<open>Floating names\<close>

definition whole :: "re list \<Rightarrow> regex" where
  "whole rs = rx_i (r_seq (RBol # rs @ [REol]))"

definition dot_char :: re where
  "dot_char = RCls (Cls True [(char_of (10::nat), char_of (10::nat)), (char_of (13::nat), char_of (13::nat))])"

definition FLOATING_PATTERNS :: "regex list" where
  "FLOATING_PATTERNS =
     [rx_i (r_seq [r_lit ''-latest'', REol]), whole [r_lit ''claude-3-5-sonnet''], whole [r_lit ''claude-3-5-haiku''],
      whole [r_lit ''claude-sonnet-'', r_d], whole [r_lit ''claude-opus-'', r_d], whole [r_lit ''claude-haiku-'', r_d],
      whole [r_lit ''gpt-4o''], whole [r_lit ''gpt-4o-mini''], whole [r_lit ''gpt-4-turbo''],
      whole [r_lit ''gpt-3'', dot_char, r_lit ''5-turbo''],
      whole [r_lit ''gemini-'', r_d, r_chr (CHR ''.''), r_d, r_chr (CHR ''-''), RGrp 1 (r_alt [r_lit ''flash'', r_lit ''pro''])]]"

definition pinningWarning :: "string \<Rightarrow> string option" where
  "pinningWarning model =
     (if model = [] \<or> \<not> list_ex (\<lambda>r. re_test r model) FLOATING_PATTERNS then None
      else Some (''model '' @ quoted model @ '' is a floating alias -- pin a dated version (e.g. '' @ quoted ''claude-sonnet-4-5-20250929''
             @ '') to keep workflow behaviour stable when the provider rolls a new default.''))"


section \<open>Recording\<close>

record token_event =
  te_workspace :: string
  te_project :: string
  te_execution :: string
  te_agent :: string
  te_agent_title :: string
  te_provider :: string
  te_model :: string
  te_input :: int
  te_output :: int
  te_cost :: int
  te_cache_hit :: bool

text \<open>The call to be recorded, with the token counts as the caller has them.\<close>

record usage_event =
  ue_workspace :: string
  ue_project :: string
  ue_execution :: string
  ue_agent :: string
  ue_agent_title :: string
  ue_provider :: string
  ue_model :: string
  ue_input :: js
  ue_output :: js
  ue_cache_hit :: bool

text \<open>
  A count column is a 32-bit integer and the cost a 64-bit one: a value that is not whole or does
  not fit makes the insert fail, and every failure is swallowed.
\<close>

definition whole_in :: "int \<Rightarrow> jsnum \<Rightarrow> int option" where
  "whole_in bound x = (case x of Fin r \<Rightarrow> if of_int \<lfloor>r\<rfloor> = r \<and> - bound \<le> \<lfloor>r\<rfloor> \<and> \<lfloor>r\<rfloor> < bound then Some \<lfloor>r\<rfloor> else None | _ \<Rightarrow> None)"

definition event_cost :: "environ \<Rightarrow> usage_event \<Rightarrow> jsnum js_result" where
  "event_cost env ev =
     (if ue_cache_hit ev then Inr (Fin 0) else costMicros env (ue_provider ev) (ue_model ev) (ue_input ev) (ue_output ev) JUndef)"

definition event_row :: "environ \<Rightarrow> usage_event \<Rightarrow> token_event option" where
  "event_row env ev =
     (case event_cost env ev of Inl _ \<Rightarrow> None
      | Inr cost \<Rightarrow>
          (case (whole_in (2 ^ 31) (number_or (ue_input ev) (Fin 0)), whole_in (2 ^ 31) (number_or (ue_output ev) (Fin 0)), whole_in (2 ^ 63) cost) of
             (Some i, Some out, Some c) \<Rightarrow>
               Some \<lparr>te_workspace = ue_workspace ev, te_project = ue_project ev, te_execution = ue_execution ev,
                 te_agent = ue_agent ev, te_agent_title = ue_agent_title ev, te_provider = ue_provider ev, te_model = ue_model ev,
                 te_input = i, te_output = out, te_cost = c, te_cache_hit = ue_cache_hit ev\<rparr>
           | _ \<Rightarrow> None))"

definition recordAgentTokenEvent :: "environ \<Rightarrow> usage_event \<Rightarrow> token_event list \<Rightarrow> token_event list" where
  "recordAgentTokenEvent env ev rows =
     (if ue_workspace ev = [] \<or> ue_project ev = [] then rows
      else case event_row env ev of Some row \<Rightarrow> rows @ [row] | None \<Rightarrow> rows)"


section \<open>Facts\<close>

text \<open>A cached answer and a model without a price cost nothing.\<close>

lemma cached_costs_nothing: "ue_cache_hit ev \<Longrightarrow> event_row env ev = Some row \<Longrightarrow> te_cost row = 0"
  by (auto simp: event_row_def event_cost_def whole_in_def split: option.splits if_splits sum.splits)

lemma unpriced_costs_nothing:
  assumes "map_of RATES model = None" "env ''AGENT_PRICING_OVERRIDES'' = None"
  shows "costMicros env provider model (JNum i) (JNum out) JUndef = Inr (Fin 0)"
proof -
  have "json_parse ''{}'' = Some (JObj [])" by code_simp
  moreover have "\<lfloor>1 / 2 :: rat\<rfloor> = 0" by (simp add: floor_eq_iff)
  ultimately show ?thesis using assms
    by (auto simp: costMicros_def getRate_def override_of_def envOverrides_def rate_value_def num_times_def num_plus_def num_round_def
        math_round_def number_or_def js_number_def)
qed

text \<open>The cost of a priced call, to half a micro-dollar.\<close>

lemma math_round_near: "\<bar>math_round r - r\<bar> \<le> 1 / 2"
proof -
  have "of_int \<lfloor>r + 1/2\<rfloor> \<le> r + 1/2" "r + 1/2 < of_int \<lfloor>r + 1/2\<rfloor> + 1" by linarith+
  then show ?thesis unfolding math_round_def by linarith
qed

text \<open>Undated aliases of the rate table that no pattern catches.\<close>

lemma undated_aliases_not_flagged:
  "list_all (\<lambda>m. pinningWarning m = None) [''claude-haiku-4-5'', ''o1'']"
  by code_simp

end
