(* ===== verification/Prompts.thy ===== *)
theory Prompts
  imports Json JsRegex
begin

text \<open>
  Prompt templates (\<open>prompts/render.js\<close>): placeholders, defaults, paths, the strict mode and the list
  of the variables a template names.
\<close>

section \<open>Templates\<close>

definition PLACEHOLDER_RE :: regex where
  "PLACEHOLDER_RE = rx (r_seq [r_lit ''${'', RGrp 1 (r_plus (RCls (Cls True (map (\<lambda>c. (c, c)) ''${}'')))), r_chr (CHR ''}'')])"

text \<open>\<open>"name:default"\<close> gives the reference and the default.\<close>

definition splitDefault :: "string \<Rightarrow> string \<times> string option" where
  "splitDefault expr = (case index_of expr '':'' of None \<Rightarrow> (expr, None) | Some i \<Rightarrow> (trim (slice 0 i expr), Some (drop (i + 1) expr)))"

definition resolvePath :: "js \<Rightarrow> string \<Rightarrow> js" where
  "resolvePath obj path = (if path = [] then JUndef else js_walk obj (split_str ''.'' path))"

definition template_expr :: "string \<Rightarrow> nat \<times> nat \<times> caps \<Rightarrow> string" where
  "template_expr body m = trim (case cap body (snd (snd m)) 1 of Some s \<Rightarrow> s | None \<Rightarrow> [])"

text \<open>The replacement of one placeholder, and the reference when it is missing.\<close>

definition fill :: "js \<Rightarrow> bool \<Rightarrow> string \<Rightarrow> string \<times> string option" where
  "fill vars strict expr =
     (let (ref, def) = splitDefault expr; v = resolvePath vars ref in
      if nullish v then (case def of Some d \<Rightarrow> (d, None) | None \<Rightarrow> (if strict then '' '' else [], Some ref))
      else (case v of JStr s \<Rightarrow> (s, None) | _ \<Rightarrow> (json_text v, None)))"

definition missing_refs :: "js \<Rightarrow> bool \<Rightarrow> string \<Rightarrow> string list" where
  "missing_refs vars strict body =
     concat (map (\<lambda>m. case snd (fill vars strict (template_expr body m)) of Some r \<Rightarrow> [r] | None \<Rightarrow> []) (match_all PLACEHOLDER_RE body))"

definition render :: "string \<Rightarrow> js \<Rightarrow> bool \<Rightarrow> string js_result" where
  "render body vars strict =
     (if body = [] then Inr []
      else let out = replace_all PLACEHOLDER_RE body (\<lambda>m. fst (fill vars strict (template_expr body m)));
               missing = missing_refs vars strict body
           in if strict \<and> missing \<noteq> [] then Inl (plain_error (''prompt render: missing variables: '' @ join_str '', '' missing))
              else Inr out)"

definition variable_of :: "string \<Rightarrow> string" where
  "variable_of expr = hd (split_str ''.'' (fst (splitDefault expr)))"

definition extractVariables :: "string \<Rightarrow> string list" where
  "extractVariables body =
     (if body = [] then []
      else foldl (\<lambda>out m. let name = variable_of (template_expr body m) in if name \<in> set out then out else out @ [name]) []
        (match_all PLACEHOLDER_RE body))"


section \<open>The listed variables are the ones that matter\<close>

lemma set_foldl_new: "set (foldl (\<lambda>out m. if f m \<in> set out then out else out @ [f m]) out ms') = set out \<union> f ` set ms'"
  by (induction ms' arbitrary: out) auto

lemma extract_mem: "body \<noteq> [] \<Longrightarrow> set (extractVariables body) = (\<lambda>m. variable_of (template_expr body m)) ` set (match_all PLACEHOLDER_RE body)"
  unfolding extractVariables_def Let_def using set_foldl_new [of "\<lambda>m. variable_of (template_expr body m)" "[]"] by simp

lemma resolve_agrees:
  assumes "js_get (JObj a) (hd (split_str ''.'' path)) = js_get (JObj b) (hd (split_str ''.'' path))"
  shows "resolvePath (JObj a) path = resolvePath (JObj b) path"
  using assms by (cases "split_str ''.'' path") (simp_all add: resolvePath_def)

lemma fill_agrees:
  assumes "js_get (JObj a) (variable_of expr) = js_get (JObj b) (variable_of expr)"
  shows "fill (JObj a) strict expr = fill (JObj b) strict expr"
proof -
  have r: "resolvePath (JObj a) (fst (splitDefault expr)) = resolvePath (JObj b) (fst (splitDefault expr))"
    using assms unfolding variable_of_def by (rule resolve_agrees)
  show ?thesis unfolding fill_def case_prod_beta Let_def r ..
qed

text \<open>A rendered prompt depends on the listed variables only (\<open>render\<close>, \<open>extractVariables\<close>): two
  bags of variables that agree on every name the template lists give the same text, the same
  missing variables and the same error, in both modes.\<close>

theorem render_depends_on_listed_variables:
  assumes "list_all (\<lambda>x. js_get (JObj a) x = js_get (JObj b) x) (extractVariables body)"
  shows "render body (JObj a) strict = render body (JObj b) strict"
proof (cases "body = []")
  case False
  have f: "fill (JObj a) strict (template_expr body m) = fill (JObj b) strict (template_expr body m)"
    if "m \<in> set (match_all PLACEHOLDER_RE body)" for m
  proof (rule fill_agrees)
    have "variable_of (template_expr body m) \<in> set (extractVariables body)" using extract_mem [OF False] that by blast
    then show "js_get (JObj a) (variable_of (template_expr body m)) = js_get (JObj b) (variable_of (template_expr body m))"
      using assms unfolding list_all_iff by blast
  qed
  then have "missing_refs (JObj a) strict body = missing_refs (JObj b) strict body"
    unfolding missing_refs_def by (intro arg_cong [of _ _ concat] map_cong) simp_all
  moreover have "replace_all PLACEHOLDER_RE body (\<lambda>m. fst (fill (JObj a) strict (template_expr body m)))
      = replace_all PLACEHOLDER_RE body (\<lambda>m. fst (fill (JObj b) strict (template_expr body m)))"
    unfolding replace_all_def using f by (intro arg_cong [of _ _ "splice body 0"] map_cong) simp_all
  ultimately show ?thesis by (simp add: render_def Let_def)
qed (simp add: render_def)

theorem render_depends_on_listed_variables_witness:
  "render ''Hi ${user.name}!'' (JObj [(''user'', JObj [(''name'', JStr ''Ada'')])]) True
     = render ''Hi ${user.name}!'' (JObj [(''x'', JNull), (''user'', JObj [(''name'', JStr ''Ada'')])]) True
   \<and> render ''Hi ${user.name}!'' (JObj [(''user'', JObj [(''name'', JStr ''Ada'')])]) True = Inr ''Hi Ada!''
   \<and> extractVariables ''Hi ${user.name}!'' = [''user'']"
proof (intro conjI)
  show "render ''Hi ${user.name}!'' (JObj [(''user'', JObj [(''name'', JStr ''Ada'')])]) True
     = render ''Hi ${user.name}!'' (JObj [(''x'', JNull), (''user'', JObj [(''name'', JStr ''Ada'')])]) True"
    by (rule render_depends_on_listed_variables) code_simp
  show "render ''Hi ${user.name}!'' (JObj [(''user'', JObj [(''name'', JStr ''Ada'')])]) True = Inr ''Hi Ada!''" by code_simp
  show "extractVariables ''Hi ${user.name}!'' = [''user'']" by code_simp
qed

text \<open>Strict rendering succeeds exactly when every placeholder resolves or has a default.\<close>

lemma fill_complete:
  "snd (fill vars strict expr) = None \<longleftrightarrow> \<not> nullish (resolvePath vars (fst (splitDefault expr))) \<or> snd (splitDefault expr) \<noteq> None"
  by (simp add: fill_def case_prod_beta Let_def split: option.splits js.splits)

lemma strict_succeeds_iff:
  assumes "body \<noteq> []"
  shows "(\<exists>out. render body vars True = Inr out) \<longleftrightarrow>
     list_all (\<lambda>m. \<not> nullish (resolvePath vars (fst (splitDefault (template_expr body m)))) \<or> snd (splitDefault (template_expr body m)) \<noteq> None)
       (match_all PLACEHOLDER_RE body)"
proof -
  have "missing_refs vars True body = [] \<longleftrightarrow> list_all (\<lambda>m. snd (fill vars True (template_expr body m)) = None) (match_all PLACEHOLDER_RE body)"
    unfolding missing_refs_def list_all_iff by (auto split: option.splits)
  then show ?thesis using assms by (simp add: render_def Let_def fill_complete)
qed

end
