(* ===== verification/AgentCall.thy ===== *)
theory AgentCall
  imports AgentUtil PromptCache Pricing Prompts Guardrails MemoryStore Quotas
begin

text \<open>
  One call of a stored agent, with everything it touches: the \<open>agent\<close> action
  (\<open>plugins/builtin/agent.js\<close>) and the single-turn call of the structured actions
  (\<open>plugins/agent/structured.js\<close>).  Both guard the input, check the monthly quota, ask the provider,
  charge the run's budget, meter, and guard the output; the \<open>agent\<close> action also replays and stores
  the conversation and keeps answers in the prompt cache.  The provider is an argument; the calls
  made to it are recorded in the state.  Lines of the live output are left out, and metering, which
  the code does not wait for, takes effect where it is started.  A provider that reports an infinite
  token count is taken to report none.
\<close>

section \<open>Surroundings and state\<close>

record provider_call =
  pv_provider :: string
  pv_cfg :: js
  pv_system :: string
  pv_messages :: "js list"
  pv_max :: js
  pv_images :: "js list"

record agent_env =
  av_env :: environ
  av_guard :: guard_env
  av_policies :: policy_db
  av_agents :: "agent_row list"
  av_now :: nat                        \<comment> \<open>the moment of the lookups\<close>
  av_done :: nat                       \<comment> \<open>the moment the provider has answered\<close>
  av_clock :: clock
  av_sha :: "string \<Rightarrow> string"
  av_streaming :: bool                 \<comment> \<open>the run has an \<open>onText\<close> hook\<close>
  av_cache_on :: bool
  av_cache_max :: nat
  av_cache_ttl :: nat
  av_defaults :: "string \<Rightarrow> string option"
  av_provider :: "provider_call \<Rightarrow> (string \<times> js) js_result"   \<comment> \<open>the text and the usage\<close>

record agent_world =
  aw_ctx :: "(string \<times> js) list"
  aw_quota :: quota_db
  aw_mem :: memories
  aw_policy :: policy_cache
  aw_cache :: "(string \<times> js) lru"
  aw_events :: "token_event list"
  aw_violations :: "violation_row list"
  aw_calls :: "provider_call list"

definition cache_cfg :: "agent_env \<Rightarrow> cache_config" where
  "cache_cfg env = \<lparr>pc_enabled = av_cache_on env, pc_max = Fin (of_nat (av_cache_max env)), pc_ttl = av_cache_ttl env\<rparr>"

text \<open>An id as the code tests it: absent, null and empty are the same.\<close>

definition id_str :: "js \<Rightarrow> string" where
  "id_str v = (if truthy v then js_string v else [])"

definition exec_id :: "agent_world \<Rightarrow> string \<Rightarrow> string" where
  "exec_id w name = id_str (js_walk (JObj (aw_ctx w)) [''execution'', name])"

definition guard_ctx_of :: "agent_world \<Rightarrow> agent_row \<Rightarrow> guard_ctx" where
  "guard_ctx_of w agent =
     \<lparr>gc_workspace = exec_id w ''workspaceId'', gc_project = exec_id w ''projectId'', gc_execution = exec_id w ''id'',
      gc_node = id_str (js_walk (JObj (aw_ctx w)) [''node'', ''name'']), gc_agent = ag_id agent, gc_agent_title = ag_title agent\<rparr>"


section \<open>The steps of a call\<close>

definition load_policy :: "agent_env \<Rightarrow> agent_row \<Rightarrow> agent_world \<Rightarrow> js \<times> agent_world" where
  "load_policy env agent w =
     (let (p, c) = loadProjectPolicy (av_policies env) (av_now env) (exec_id w ''projectId'') (aw_policy w)
      in (mergePolicy p (ag_override agent), w\<lparr>aw_policy := c\<rparr>))"

definition guard_text :: "agent_env \<Rightarrow> js \<Rightarrow> agent_row \<Rightarrow> string \<Rightarrow> string \<Rightarrow> agent_world \<Rightarrow> string js_result \<times> agent_world" where
  "guard_text env p agent side t w =
     (let (r, rows) = applyGuardrails (av_guard env) t side p (guard_ctx_of w agent)
      in (res_bind r (\<lambda>x. Inr (fst x)), w\<lparr>aw_violations := aw_violations w @ rows\<rparr>))"

text \<open>Only an exhausted quota stops the call; any other failure of the check is passed over.\<close>

definition check_quota :: "agent_env \<Rightarrow> agent_world \<Rightarrow> unit js_result" where
  "check_quota env w =
     (if exec_id w ''projectId'' = [] then Inr ()
      else case assertQuota (av_clock env) (exec_id w ''projectId'') ''tokens_per_month'' (aw_quota w) of
        Inl e \<Rightarrow> if e_code e = Some ''QUOTA_EXCEEDED'' then Inl e else Inr ()
      | Inr _ \<Rightarrow> Inr ())"

definition user_message :: "string \<Rightarrow> js" where
  "user_message t = JObj [(''role'', JStr ''user''), (''content'', JStr t)]"

definition callProvider ::
  "agent_env \<Rightarrow> js \<Rightarrow> string \<Rightarrow> js list \<Rightarrow> js \<Rightarrow> js \<Rightarrow> agent_world \<Rightarrow> (string \<times> js) js_result \<times> agent_world" where
  "callProvider env cfg system messages maxTokens images w =
     (case res_bind (normaliseImages images) (\<lambda>ims. res_bind (getProvider (js_get cfg ''provider'')) (\<lambda>p.
             Inr \<lparr>pv_provider = p, pv_cfg = cfg, pv_system = system,
               pv_messages = (if messages = [] then [user_message []] else messages), pv_max = maxTokens, pv_images = ims\<rparr>)) of
        Inl e \<Rightarrow> (Inl e, w)
      | Inr call \<Rightarrow> (av_provider env call, w\<lparr>aw_calls := aw_calls w @ [call]\<rparr>))"

text \<open>\<open>Number(n) || 0\<close> of a count of the usage block.\<close>

definition token_count :: "js \<Rightarrow> string \<Rightarrow> rat" where
  "token_count usage name = (case js_number (js_walk usage [name]) of Fin r \<Rightarrow> r | _ \<Rightarrow> 0)"

definition charge_budget :: "agent_env \<Rightarrow> js \<Rightarrow> agent_world \<Rightarrow> unit js_result \<times> agent_world" where
  "charge_budget env usage w =
     (let (r, ctx) = chargeTokens (av_env env) (aw_ctx w) (js_walk (JObj (aw_ctx w)) [''_parsed'', ''maxTokens''])
                       (token_count usage ''inputTokens'' + token_count usage ''outputTokens'')
      in (res_bind r (\<lambda>_. Inr ()), w\<lparr>aw_ctx := ctx\<rparr>))"

text \<open>A delta that is not whole does not convert to the column's type and the write is lost.\<close>

definition add_tokens :: "agent_env \<Rightarrow> string \<Rightarrow> rat \<Rightarrow> quota_db \<Rightarrow> quota_db" where
  "add_tokens env proj n db =
     (if of_int \<lfloor>n\<rfloor> = n then snd (incrementUsage (av_clock env) proj ''tokens_per_month'' \<lfloor>n\<rfloor> db) else db)"

definition meter :: "agent_env \<Rightarrow> agent_row \<Rightarrow> js \<Rightarrow> js \<Rightarrow> bool \<Rightarrow> agent_world \<Rightarrow> agent_world" where
  "meter env agent cfg usage hit w =
     (let proj = exec_id w ''projectId''; i = token_count usage ''inputTokens''; out = token_count usage ''outputTokens'' in
      if proj = [] then w
      else w\<lparr>aw_quota := (if hit then aw_quota w else add_tokens env proj (i + out) (aw_quota w)),
             aw_events := recordAgentTokenEvent (av_env env)
               \<lparr>ue_workspace = exec_id w ''workspaceId'', ue_project = proj, ue_execution = exec_id w ''id'', ue_agent = ag_id agent,
                ue_agent_title = ag_title agent, ue_provider = js_string (js_get cfg ''provider''), ue_model = js_string (js_get cfg ''model''),
                ue_input = JNum i, ue_output = JNum out, ue_cache_hit = hit\<rparr> (aw_events w)\<rparr>)"


section \<open>The single-turn call\<close>

record shot =
  sh_text :: string
  sh_usage :: js
  sh_redacted_input :: bool
  sh_redacted_output :: bool

definition ask_once :: "agent_env \<Rightarrow> agent_row \<Rightarrow> js \<Rightarrow> string \<Rightarrow> string \<Rightarrow> js \<Rightarrow> agent_world \<Rightarrow> (string \<times> js) js_result \<times> agent_world" where
  "ask_once env agent cfg system guarded maxTokens w =
     (case check_quota env w of
        Inl e \<Rightarrow> (Inl e, w)
      | Inr _ \<Rightarrow>
          (case callProvider env cfg system [user_message guarded] maxTokens JUndef w of
             (Inl e, w1) \<Rightarrow> (Inl e, w1)
           | (Inr (answer, usage), w1) \<Rightarrow>
               (case charge_budget env usage w1 of
                  (Inl e, w2) \<Rightarrow> (Inl e, w2)
                | (Inr _, w2) \<Rightarrow> (Inr (answer, usage), meter env agent cfg usage False w2))))"

definition runOneShot ::
  "agent_env \<Rightarrow> agent_row \<Rightarrow> js \<Rightarrow> string \<Rightarrow> js \<Rightarrow> js \<Rightarrow> agent_world \<Rightarrow> shot js_result \<times> agent_world" where
  "runOneShot env agent cfg systemPrompt userText maxTokens w =
     (let (p, w0) = load_policy env agent w; t = or_empty userText in
      case guard_text env p agent ''input'' t w0 of
        (Inl e, w1) \<Rightarrow> (Inl e, w1)
      | (Inr guarded, w1) \<Rightarrow>
          (case ask_once env agent cfg systemPrompt guarded maxTokens w1 of
             (Inl e, w2) \<Rightarrow> (Inl e, w2)
           | (Inr (answer, usage), w2) \<Rightarrow>
               (case guard_text env p agent ''output'' answer w2 of
                  (Inl e, w3) \<Rightarrow> (Inl e, w3)
                | (Inr final, w3) \<Rightarrow>
                    (Inr \<lparr>sh_text = final, sh_usage = usage, sh_redacted_input = (guarded \<noteq> t), sh_redacted_output = (final \<noteq> answer)\<rparr>, w3))))"


section \<open>The agent action\<close>

definition system_prompt :: "agent_row \<Rightarrow> js \<Rightarrow> string js_result" where
  "system_prompt agent input =
     (if ag_template agent = [] then Inr (ag_prompt agent)
      else render (ag_template agent)
             (spread (js_or (js_get input ''vars'') (JObj [])) (JObj [(''input'', js_get input ''input''), (''agent'', JStr (ag_title agent))])) False)"

definition conv_id :: "js \<Rightarrow> string" where
  "conv_id input = id_str (js_get input ''conversationId'')"

definition past_turns :: "js \<Rightarrow> agent_world \<Rightarrow> js list js_result" where
  "past_turns input w =
     (let limit = js_nullish (js_get input ''historyLimit'') (JNum 20); ws = exec_id w ''workspaceId'' in
      if conv_id input \<noteq> [] \<and> num_lt (Fin 0) (js_number limit) \<and> ws \<noteq> []
      then loadHistory ws ''workflow'' (exec_id w ''graphId'') (conv_id input) limit (aw_mem w) else Inr [])"

definition answer_key :: "agent_env \<Rightarrow> js \<Rightarrow> string \<Rightarrow> js list \<Rightarrow> js \<Rightarrow> js \<Rightarrow> string option" where
  "answer_key env cfg system messages maxTokens images =
     (if av_streaming env then None
      else Some (keyFor (av_sha env) \<lparr>rq_provider = js_get cfg ''provider'', rq_model = js_get cfg ''model'', rq_system = JStr system,
             rq_messages = messages, rq_maxTokens = maxTokens, rq_images = images\<rparr>))"

text \<open>The answer, and whether it came from the cache.\<close>

definition ask_cached ::
  "agent_env \<Rightarrow> js \<Rightarrow> string \<Rightarrow> js list \<Rightarrow> js \<Rightarrow> js \<Rightarrow> agent_world \<Rightarrow> ((string \<times> js) \<times> bool) js_result \<times> agent_world" where
  "ask_cached env cfg system messages maxTokens images w =
     (case answer_key env cfg system messages maxTokens images of
        None \<Rightarrow> (let (r, w1) = callProvider env cfg system messages maxTokens images w in (res_bind r (\<lambda>out. Inr (out, False)), w1))
      | Some k \<Rightarrow>
          (case cache_get (cache_cfg env) (av_now env) k (aw_cache w) of
             (Some out, c) \<Rightarrow> (Inr (out, True), w\<lparr>aw_cache := c\<rparr>)
           | (None, c) \<Rightarrow>
               (case callProvider env cfg system messages maxTokens images (w\<lparr>aw_cache := c\<rparr>) of
                  (Inl e, w1) \<Rightarrow> (Inl e, w1)
                | (Inr out, w1) \<Rightarrow>
                    (Inr (out, False), w1\<lparr>aw_cache := the (cache_set (cache_cfg env) (av_done env) k out (aw_cache w1))\<rparr>))))"

definition agent_turn :: "agent_env \<Rightarrow> agent_row \<Rightarrow> js \<Rightarrow> string \<Rightarrow> string \<Rightarrow> js \<Rightarrow> agent_world \<Rightarrow> (string \<times> js) js_result \<times> agent_world" where
  "agent_turn env agent cfg system guarded input w =
     (case res_bind (past_turns input w) (\<lambda>history. res_bind (check_quota env w) (\<lambda>_. Inr history)) of
        Inl e \<Rightarrow> (Inl e, w)
      | Inr history \<Rightarrow>
          (case ask_cached env cfg system (history @ [user_message guarded]) (js_or (js_get input ''maxTokens'') (JNum 2048)) (js_get input ''images'') w of
             (Inl e, w1) \<Rightarrow> (Inl e, w1)
           | (Inr ((answer, usage), hit), w1) \<Rightarrow>
               (case charge_budget env usage w1 of
                  (Inl e, w2) \<Rightarrow> (Inl e, w2)
                | (Inr _, w2) \<Rightarrow> (Inr (answer, usage), meter env agent cfg usage hit w2))))"

text \<open>The two turns are stored under the workspace's default project; a failure of the first leaves the
  second out, and neither fails the call.\<close>

definition remember :: "agent_env \<Rightarrow> js \<Rightarrow> string \<Rightarrow> string \<Rightarrow> agent_world \<Rightarrow> agent_world" where
  "remember env input guarded final w =
     (let ws = exec_id w ''workspaceId''; conv = conv_id input; scopeId = exec_id w ''graphId'' in
      if conv = [] \<or> js_get input ''storeConversation'' = JBool False \<or> ws = [] then w
      else case appendHistory (av_defaults env) ws [] ''workflow'' scopeId conv ''user'' (JStr guarded) (aw_mem w) of
        (Inl _, m) \<Rightarrow> w\<lparr>aw_mem := m\<rparr>
      | (Inr _, m) \<Rightarrow> w\<lparr>aw_mem := snd (appendHistory (av_defaults env) ws [] ''workflow'' scopeId conv ''assistant'' (JStr final) m)\<rparr>)"

definition agent_output :: "string \<Rightarrow> js \<Rightarrow> js" where
  "agent_output final usage =
     (let parsed = tryParseJson (JStr final) in
      JObj [(''result'', parsed), (''confidence'', case extractConfidence parsed of Some c \<Rightarrow> JNum c | None \<Rightarrow> JNull),
            (''raw'', JStr final), (''usage'', usage)])"

definition agent_execute :: "agent_env \<Rightarrow> js \<Rightarrow> agent_world \<Rightarrow> js js_result \<times> agent_world" where
  "agent_execute env input w =
     (case res_bind (loadAgent (av_agents env) (JObj (aw_ctx w)) (js_get input ''agent'')) (\<lambda>(agent, cfg).
             res_bind (system_prompt agent input) (\<lambda>system. Inr (agent, cfg, system))) of
        Inl e \<Rightarrow> (Inl e, w)
      | Inr (agent, cfg, system) \<Rightarrow>
          (let (p, w0) = load_policy env agent w in
           case guard_text env p agent ''input'' (or_empty (js_get input ''input'')) w0 of
             (Inl e, w1) \<Rightarrow> (Inl e, w1)
           | (Inr guarded, w1) \<Rightarrow>
               (case agent_turn env agent cfg system guarded input w1 of
                  (Inl e, w2) \<Rightarrow> (Inl e, w2)
                | (Inr (answer, usage), w2) \<Rightarrow>
                    (case guard_text env p agent ''output'' answer w2 of
                       (Inl e, w3) \<Rightarrow> (Inl e, w3)
                     | (Inr final, w3) \<Rightarrow> (Inr (agent_output final usage), remember env input guarded final w3)))))"



section \<open>What each step leaves alone\<close>

definition agent_policy :: "agent_env \<Rightarrow> agent_row \<Rightarrow> agent_world \<Rightarrow> js" where
  "agent_policy env agent w = fst (load_policy env agent w)"

lemma exec_id_frame:
  "exec_id (w\<lparr>aw_policy := a\<rparr>) n = exec_id w n" "exec_id (w\<lparr>aw_violations := b\<rparr>) n = exec_id w n"
  "exec_id (w\<lparr>aw_calls := c\<rparr>) n = exec_id w n" "exec_id (w\<lparr>aw_cache := d\<rparr>) n = exec_id w n"
  "exec_id (w\<lparr>aw_quota := q, aw_events := e\<rparr>) n = exec_id w n" "exec_id (w\<lparr>aw_mem := m\<rparr>) n = exec_id w n"
  by (simp_all add: exec_id_def)

lemma load_policy_frame:
  "load_policy env agent w = (p, w') \<Longrightarrow> p = agent_policy env agent w \<and> (\<exists>c. w' = w\<lparr>aw_policy := c\<rparr>)"
  by (auto simp: load_policy_def agent_policy_def Let_def split: prod.splits)

lemma guard_text_frame:
  "guard_text env p agent side t w = (r, w') \<Longrightarrow> (\<exists>rows. w' = w\<lparr>aw_violations := rows\<rparr>)
    \<and> r = res_bind (fst (applyGuardrails (av_guard env) t side p (guard_ctx_of w agent))) (\<lambda>x. Inr (fst x))"
  by (auto simp: guard_text_def Let_def split: prod.splits)

definition call_of :: "js \<Rightarrow> string \<Rightarrow> js list \<Rightarrow> js \<Rightarrow> js \<Rightarrow> provider_call js_result" where
  "call_of cfg system messages maxTokens images =
     res_bind (normaliseImages images) (\<lambda>ims. res_bind (getProvider (js_get cfg ''provider'')) (\<lambda>p.
       Inr \<lparr>pv_provider = p, pv_cfg = cfg, pv_system = system,
         pv_messages = (if messages = [] then [user_message []] else messages), pv_max = maxTokens, pv_images = ims\<rparr>))"

lemma callProvider_unfold:
  "callProvider env cfg system messages maxTokens images w =
     (case call_of cfg system messages maxTokens images of Inl e \<Rightarrow> (Inl e, w)
      | Inr call \<Rightarrow> (av_provider env call, w\<lparr>aw_calls := aw_calls w @ [call]\<rparr>))"
  by (simp add: callProvider_def call_of_def)

lemma call_of_messages: "call_of cfg system messages maxTokens images = Inr call \<Longrightarrow> messages \<noteq> [] \<Longrightarrow> pv_messages call = messages"
  by (auto simp: call_of_def res_bind_eq_Inr)

text \<open>An answer came from the cache without a call, or from the one call that was made.\<close>

lemma ask_cached_cases:
  assumes "ask_cached env cfg system messages maxTokens images w = (r, w')"
  shows "\<exists>c calls. w' = w\<lparr>aw_cache := c, aw_calls := aw_calls w @ calls\<rparr> \<and>
    (case calls of
       [] \<Rightarrow> (case r of Inl _ \<Rightarrow> True | Inr (_, hit) \<Rightarrow> hit)
     | call # others \<Rightarrow> others = [] \<and> call_of cfg system messages maxTokens images = Inr call
         \<and> r = res_bind (av_provider env call) (\<lambda>out. Inr (out, False)))"
proof (cases "answer_key env cfg system messages maxTokens images")
  case None
  show ?thesis
  proof (cases "call_of cfg system messages maxTokens images")
    case (Inl e)
    then show ?thesis using assms None
      by (auto simp: ask_cached_def callProvider_unfold intro!: exI [of _ "aw_cache w"] exI [of _ "[] :: provider_call list"])
  next
    case (Inr call)
    then show ?thesis using assms None
      by (auto simp: ask_cached_def callProvider_unfold intro!: exI [of _ "aw_cache w"] exI [of _ "[call]"])
  qed
next
  case (Some k)
  obtain hit c where g: "cache_get (cache_cfg env) (av_now env) k (aw_cache w) = (hit, c)" by fastforce
  show ?thesis
  proof (cases hit)
    case (Some out)
    then show ?thesis using assms g \<open>answer_key _ _ _ _ _ _ = Some k\<close>
      by (auto simp: ask_cached_def intro!: exI [of _ c] exI [of _ "[] :: provider_call list"])
  next
    case None
    show ?thesis
    proof (cases "call_of cfg system messages maxTokens images")
      case (Inl e)
      then show ?thesis using assms g None \<open>answer_key _ _ _ _ _ _ = Some k\<close>
        by (auto simp: ask_cached_def callProvider_unfold intro!: exI [of _ c] exI [of _ "[] :: provider_call list"])
    next
      case (Inr call)
      show ?thesis
      proof (cases "av_provider env call")
        case (Inl e)
        then show ?thesis using assms g None Inr \<open>answer_key _ _ _ _ _ _ = Some k\<close>
          by (auto simp: ask_cached_def callProvider_unfold intro!: exI [of _ c] exI [of _ "[call]"])
      next
        case ans: (Inr out)
        have "r = Inr (out, False)" "w' = w\<lparr>aw_cache := the (cache_set (cache_cfg env) (av_done env) k out c), aw_calls := aw_calls w @ [call]\<rparr>"
          using assms g None Inr ans \<open>answer_key _ _ _ _ _ _ = Some k\<close> by (auto simp: ask_cached_def callProvider_unfold)
        then show ?thesis using Inr ans by (intro exI [of _ "the (cache_set (cache_cfg env) (av_done env) k out c)"] exI [of _ "[call]"]) simp
      qed
    qed
  qed
qed


text \<open>A turn, given its history: what it asks for and what it returns.\<close>

definition budget_allows :: "agent_env \<Rightarrow> agent_world \<Rightarrow> js \<Rightarrow> bool" where
  "budget_allows env w usage \<longleftrightarrow>
     (case fst (chargeTokens (av_env env) (aw_ctx w) (js_walk (JObj (aw_ctx w)) [''_parsed'', ''maxTokens''])
                  (token_count usage ''inputTokens'' + token_count usage ''outputTokens'')) of Inr _ \<Rightarrow> True | Inl _ \<Rightarrow> False)"

lemma charge_budget_frame:
  assumes "charge_budget env usage w = (r, w')"
  shows "\<exists>ctx. w' = w\<lparr>aw_ctx := ctx\<rparr>"
    and "case r of Inr _ \<Rightarrow> budget_allows env w usage | Inl e \<Rightarrow> \<not> budget_allows env w usage \<and> e_code e = Some ''BUDGET_EXHAUSTED''"
proof -
  show "\<exists>ctx. w' = w\<lparr>aw_ctx := ctx\<rparr>" using assms by (auto simp: charge_budget_def Let_def simp del: js_walk.simps split: prod.splits)
  show "case r of Inr _ \<Rightarrow> budget_allows env w usage | Inl e \<Rightarrow> \<not> budget_allows env w usage \<and> e_code e = Some ''BUDGET_EXHAUSTED''"
    using assms by (auto simp: charge_budget_def budget_allows_def chargeTokens_def budget_exhausted_error_def Let_def split: prod.splits if_splits)
qed

text \<open>The run's ids stay as they are: charging writes one key of the context.\<close>

definition same_ids :: "agent_world \<Rightarrow> agent_world \<Rightarrow> bool" where
  "same_ids w w' \<longleftrightarrow> (\<forall>k. k \<noteq> ''_tokens'' \<longrightarrow> js_get (JObj (aw_ctx w')) k = js_get (JObj (aw_ctx w)) k)"

lemma same_idsD:
  assumes "same_ids w w'"
  shows "exec_id w' n = exec_id w n" "guard_ctx_of w' agent = guard_ctx_of w agent"
proof -
  have walk: "js_walk (JObj (aw_ctx w')) (k # ps) = js_walk (JObj (aw_ctx w)) (k # ps)" if "k \<noteq> ''_tokens''" for k ps
    using assms that by (simp add: same_ids_def)
  show e: "exec_id w' n = exec_id w n" for n unfolding exec_id_def by (subst walk) simp_all
  have "js_walk (JObj (aw_ctx w')) [''node'', ''name''] = js_walk (JObj (aw_ctx w)) [''node'', ''name'']" by (rule walk) simp
  then show "guard_ctx_of w' agent = guard_ctx_of w agent" by (simp only: guard_ctx_of_def e)
qed

lemma same_ids_refl: "aw_ctx w' = aw_ctx w \<Longrightarrow> same_ids w w'"
  by (simp add: same_ids_def)

lemma same_ids_trans: "same_ids u v \<Longrightarrow> same_ids v w \<Longrightarrow> same_ids u w"
  by (simp add: same_ids_def)

lemma charge_keeps_ids: "charge_budget env usage w = (r, w') \<Longrightarrow> same_ids w w'"
  by (auto simp: charge_budget_def chargeTokens_def same_ids_def Let_def split: prod.splits if_splits)

definition tokens_of :: "js \<Rightarrow> rat" where
  "tokens_of usage = token_count usage ''inputTokens'' + token_count usage ''outputTokens''"

text \<open>What one turn does to the calls and to the quota.\<close>

definition turn_effect ::
  "agent_env \<Rightarrow> agent_world \<Rightarrow> js list \<Rightarrow> provider_call list \<Rightarrow> (string \<times> js) js_result \<Rightarrow> quota_db \<Rightarrow> bool" where
  "turn_effect env w messages calls r q \<longleftrightarrow>
     (case calls of [] \<Rightarrow> q = aw_quota w
      | call # others \<Rightarrow> others = [] \<and> pv_messages call = messages \<and>
          (case av_provider env call of
             Inl e \<Rightarrow> r = Inl e \<and> q = aw_quota w
           | Inr (answer, usage) \<Rightarrow>
               if budget_allows env w usage
               then r = Inr (answer, usage) \<and>
                 q = (if exec_id w ''projectId'' = [] then aw_quota w else add_tokens env (exec_id w ''projectId'') (tokens_of usage) (aw_quota w))
               else (\<exists>e. r = Inl e \<and> e_code e = Some ''BUDGET_EXHAUSTED'') \<and> q = aw_quota w))"

lemma meter_frame:
  "\<exists>ev. meter env agent cfg usage hit w =
     w\<lparr>aw_quota := (if exec_id w ''projectId'' = [] \<or> hit then aw_quota w
        else add_tokens env (exec_id w ''projectId'') (tokens_of usage) (aw_quota w)), aw_events := ev\<rparr>"
proof (cases "exec_id w ''projectId'' = []")
  case True
  then show ?thesis by (intro exI [of _ "aw_events w"]) (simp add: meter_def)
next
  case False
  then show ?thesis by (auto simp: meter_def tokens_of_def Let_def)
qed

lemma budget_frame:
  "budget_allows env (w\<lparr>aw_cache := c, aw_calls := d\<rparr>) usage = budget_allows env w usage"
  by (simp add: budget_allows_def)

lemma agent_turn_effect:
  assumes "agent_turn env agent cfg system guarded input w = (r, w')"
  shows "\<exists>c calls ctx q ev history. w' = w\<lparr>aw_cache := c, aw_calls := aw_calls w @ calls, aw_ctx := ctx, aw_quota := q, aw_events := ev\<rparr>
    \<and> same_ids w w' \<and> (calls \<noteq> [] \<longrightarrow> past_turns input w = Inr history)
    \<and> turn_effect env w (history @ [user_message guarded]) calls r q"
proof (cases "res_bind (past_turns input w) (\<lambda>history. res_bind (check_quota env w) (\<lambda>_. Inr history))")
  case (Inl e)
  then have "w' = w" "r = Inl e" using assms by (simp_all add: agent_turn_def)
  then show ?thesis
    by (intro exI [of _ "aw_cache w"] exI [of _ "[] :: provider_call list"] exI [of _ "aw_ctx w"] exI [of _ "aw_quota w"] exI [of _ "aw_events w"])
       (simp add: turn_effect_def same_ids_refl)
next
  case (Inr history)
  then have past: "past_turns input w = Inr history" by (auto simp: res_bind_eq_Inr)
  let ?msgs = "history @ [user_message guarded]"
  obtain a w1 where a: "ask_cached env cfg system ?msgs (js_or (js_get input ''maxTokens'') (JNum 2048)) (js_get input ''images'') w = (a, w1)" by fastforce
  from ask_cached_cases [OF a] obtain c calls where w1: "w1 = w\<lparr>aw_cache := c, aw_calls := aw_calls w @ calls\<rparr>"
    and calls: "case calls of [] \<Rightarrow> (case a of Inl _ \<Rightarrow> True | Inr (_, hit) \<Rightarrow> hit)
       | call # others \<Rightarrow> others = [] \<and> call_of cfg system ?msgs (js_or (js_get input ''maxTokens'') (JNum 2048)) (js_get input ''images'') = Inr call
         \<and> a = res_bind (av_provider env call) (\<lambda>out. Inr (out, False))" by blast
  have ids1: "same_ids w w1" by (simp add: w1 same_ids_refl)
  show ?thesis
  proof (cases a)
    case (Inl e)
    then have "w' = w1" "r = Inl e" using assms a Inr by (simp_all add: agent_turn_def)
    then show ?thesis using calls Inl past ids1 w1
      by (intro exI [of _ c] exI [of _ calls] exI [of _ "aw_ctx w"] exI [of _ "aw_quota w"] exI [of _ "aw_events w"] exI [of _ history])
         (auto simp: turn_effect_def dest!: call_of_messages split: list.splits sum.splits)
  next
    case out: (Inr o1)
    obtain answer usage hit where o1: "o1 = ((answer, usage), hit)" by (cases o1) auto
    obtain b w2 where b: "charge_budget env usage w1 = (b, w2)" by fastforce
    obtain ctx where w2: "w2 = w1\<lparr>aw_ctx := ctx\<rparr>" using charge_budget_frame(1) [OF b] by blast
    have ids2: "same_ids w w2" using same_ids_trans [OF ids1 charge_keeps_ids [OF b]] .
    have allow: "case b of Inr _ \<Rightarrow> budget_allows env w usage | Inl e \<Rightarrow> \<not> budget_allows env w usage \<and> e_code e = Some ''BUDGET_EXHAUSTED''"
    proof -
      have "budget_allows env w1 usage = budget_allows env w usage" by (simp add: w1 budget_frame)
      then show ?thesis using charge_budget_frame(2) [OF b] by (simp only:)
    qed
    show ?thesis
    proof (cases b)
      case (Inl e)
      then have "w' = w2" "r = Inl e" using assms a b out o1 Inr by (simp_all add: agent_turn_def)
      then show ?thesis using calls out o1 past ids2 w1 w2 allow Inl
        by (intro exI [of _ c] exI [of _ calls] exI [of _ ctx] exI [of _ "aw_quota w"] exI [of _ "aw_events w"] exI [of _ history])
           (auto simp: turn_effect_def dest!: call_of_messages split: list.splits sum.splits)
    next
      case ok: (Inr u)
      then have w': "w' = meter env agent cfg usage hit w2" "r = Inr (answer, usage)" using assms a b out o1 Inr by (simp_all add: agent_turn_def)
      obtain ev where m: "w' = w2\<lparr>aw_quota := (if exec_id w2 ''projectId'' = [] \<or> hit then aw_quota w2
          else add_tokens env (exec_id w2 ''projectId'') (tokens_of usage) (aw_quota w2)), aw_events := ev\<rparr>"
        unfolding w'(1) using meter_frame by blast
      have ids3: "same_ids w w'" using same_ids_trans [OF ids2 same_ids_refl] by (simp add: m)
      have proj: "exec_id w2 ''projectId'' = exec_id w ''projectId''" using same_idsD(1) [OF ids2] .
      show ?thesis using calls out o1 past ids3 proj w1 w2 allow ok m w'(2)
        by (intro exI [of _ c] exI [of _ calls] exI [of _ ctx] exI [of _ "aw_quota w'"] exI [of _ ev] exI [of _ history])
           (auto simp: turn_effect_def dest!: call_of_messages split: list.splits sum.splits)
    qed
  qed
qed



section \<open>What leaves the run\<close>





text \<open>\<open>t'\<close> is what the guardrails make of \<open>t\<close> on one side of this agent's policy.\<close>

definition passes :: "agent_env \<Rightarrow> agent_row \<Rightarrow> agent_world \<Rightarrow> string \<Rightarrow> string \<Rightarrow> string \<Rightarrow> bool" where
  "passes env agent w side t t' \<longleftrightarrow>
     (case fst (applyGuardrails (av_guard env) t side (agent_policy env agent w) (guard_ctx_of w agent)) of
        Inr (x, _) \<Rightarrow> x = t' | Inl _ \<Rightarrow> False)"



lemma guard_text_passes:
  assumes "guard_text env (agent_policy env agent w) agent side t u = (r, u')" "guard_ctx_of u agent = guard_ctx_of w agent"
  shows "\<exists>rows. u' = u\<lparr>aw_violations := rows\<rparr>" and "r = Inr t' \<Longrightarrow> passes env agent w side t t'"
  using assms by (auto simp: guard_text_def passes_def Let_def res_bind_eq_Inr split: prod.splits)

text \<open>The stages of a call whose agent was found.\<close>

definition after_turn :: "agent_env \<Rightarrow> agent_row \<Rightarrow> js \<Rightarrow> agent_world \<Rightarrow> string \<Rightarrow> (string \<times> js) js_result \<Rightarrow> agent_world \<Rightarrow> js js_result \<Rightarrow> agent_world \<Rightarrow> bool" where
  "after_turn env agent input w guarded a w2 r w' \<longleftrightarrow>
     (case a of Inl e \<Rightarrow> r = Inl e \<and> w' = w2
      | Inr (answer, usage) \<Rightarrow>
          (\<exists>rows. (\<exists>e. r = Inl e \<and> w' = w2\<lparr>aw_violations := rows\<rparr>)
             \<or> (\<exists>final. passes env agent w ''output'' answer final \<and> r = Inr (agent_output final usage)
                 \<and> w' = remember env input guarded final (w2\<lparr>aw_violations := rows\<rparr>))))"

lemma agent_execute_stages:
  assumes ex: "agent_execute env input w = (r, w')"
    and ag: "loadAgent (av_agents env) (JObj (aw_ctx w)) (js_get input ''agent'') = Inr (agent, cfg)"
  shows "\<exists>w1. (w1 = w \<or> (\<exists>c rows. w1 = w\<lparr>aw_policy := c, aw_violations := rows\<rparr>)) \<and>
    ((\<exists>e. r = Inl e \<and> w' = w1)
     \<or> (\<exists>guarded a w2 system. passes env agent w ''input'' (or_empty (js_get input ''input'')) guarded
          \<and> agent_turn env agent cfg system guarded input w1 = (a, w2) \<and> after_turn env agent input w guarded a w2 r w'))"
proof (cases "system_prompt agent input")
  case (Inl e)
  then have "r = Inl e" "w' = w" using ex ag by (auto simp: agent_execute_def)
  then show ?thesis by blast
next
  case system: (Inr system)
  obtain p w0 where p: "load_policy env agent w = (p, w0)" by fastforce
  obtain c where pc: "p = agent_policy env agent w" "w0 = w\<lparr>aw_policy := c\<rparr>" using load_policy_frame [OF p] by blast
  obtain g w1 where g: "guard_text env p agent ''input'' (or_empty (js_get input ''input'')) w0 = (g, w1)" by fastforce
  have same0: "guard_ctx_of w0 agent = guard_ctx_of w agent" by (rule same_idsD(2)) (simp add: pc(2) same_ids_refl)
  note gp = guard_text_passes [OF g [unfolded pc(1)] same0]
  obtain rows where w1: "w1 = w\<lparr>aw_policy := c, aw_violations := rows\<rparr>" using gp(1) by (auto simp: pc(2))
  show ?thesis
  proof (cases g)
    case (Inl e)
    then have "r = Inl e" "w' = w1" using ex ag system p g by (simp_all add: agent_execute_def)
    then show ?thesis using w1 by blast
  next
    case guarded: (Inr guarded)
    obtain a w2 where a: "agent_turn env agent cfg system guarded input w1 = (a, w2)" by fastforce
    have "after_turn env agent input w guarded a w2 r w'"
    proof (cases a)
      case (Inl e)
      then show ?thesis using ex ag system p g guarded a by (simp add: agent_execute_def after_turn_def)
    next
      case (Inr au)
      obtain answer usage where au: "au = (answer, usage)" by (cases au)
      obtain o3 w3 where o3: "guard_text env p agent ''output'' answer w2 = (o3, w3)" by fastforce
      have s12: "same_ids w1 w2" using agent_turn_effect [OF a] by blast
      have "same_ids w w1" by (rule same_ids_refl) (simp add: w1)
      then have "guard_ctx_of w2 agent = guard_ctx_of w agent" using same_idsD(2) same_ids_trans s12 by blast
      note op = guard_text_passes [OF o3 [unfolded pc(1)] this]
      obtain rows' where w3: "w3 = w2\<lparr>aw_violations := rows'\<rparr>" using op(1) by blast
      show ?thesis
      proof (cases o3)
        case (Inl e)
        then have "r = Inl e" "w' = w3" using ex ag system p g guarded a Inr au o3 by (simp_all add: agent_execute_def)
        then show ?thesis using Inr au w3 by (auto simp: after_turn_def)
      next
        case final: (Inr final)
        then have "r = Inr (agent_output final usage)" "w' = remember env input guarded final w3"
          using ex ag system p g guarded a \<open>a = Inr au\<close> au o3 by (simp_all add: agent_execute_def)
        then show ?thesis using \<open>a = Inr au\<close> au w3 op(2) [OF final] by (auto simp: after_turn_def)
      qed
    qed
    then show ?thesis using w1 a gp(2) [OF guarded] by blast
  qed
qed


lemma remember_frame: "aw_calls (remember env input guarded final w) = aw_calls w" "aw_quota (remember env input guarded final w) = aw_quota w"
  by (simp_all add: remember_def Let_def split: sum.splits prod.splits)




text \<open>C26.  Calls are metered exactly when the run's budget allows them (\<open>agent.execute\<close>): without a request
  to the provider the monthly usage does not change; a request that fails ends the call with its
  error and counts nothing; an answered request adds its input and output tokens once when the
  run's token budget still covers them, and when it does not, the call ends with BUDGET_EXHAUSTED
  and the tokens the provider has spent are not counted at all.\<close>

theorem calls_are_metered:
  assumes "agent_execute env input w = (r, w')"
    and "loadAgent (av_agents env) (JObj (aw_ctx w)) (js_get input ''agent'') = Inr (agent, cfg)"
  shows "case drop (length (aw_calls w)) (aw_calls w') of
      [] \<Rightarrow> aw_quota w' = aw_quota w
    | call # others \<Rightarrow> others = [] \<and>
        (case av_provider env call of
           Inl e \<Rightarrow> r = Inl e \<and> aw_quota w' = aw_quota w
         | Inr (answer, usage) \<Rightarrow>
             if budget_allows env w usage
             then aw_quota w' = (if exec_id w ''projectId'' = [] then aw_quota w
                    else add_tokens env (exec_id w ''projectId'') (tokens_of usage) (aw_quota w))
             else aw_quota w' = aw_quota w \<and> (case r of Inl e \<Rightarrow> e_code e = Some ''BUDGET_EXHAUSTED'' | Inr _ \<Rightarrow> False))"
proof -
  from agent_execute_stages [OF assms] obtain w1 where w1: "w1 = w \<or> (\<exists>c rows. w1 = w\<lparr>aw_policy := c, aw_violations := rows\<rparr>)"
    and c: "(\<exists>e. r = Inl e \<and> w' = w1) \<or> (\<exists>guarded a w2 system. passes env agent w ''input'' (or_empty (js_get input ''input'')) guarded
          \<and> agent_turn env agent cfg system guarded input w1 = (a, w2) \<and> after_turn env agent input w guarded a w2 r w')" by blast
  have f1: "aw_calls w1 = aw_calls w" "aw_quota w1 = aw_quota w" "same_ids w w1" "aw_ctx w1 = aw_ctx w"
    using w1 by (auto simp: same_ids_refl)
  have b1: "budget_allows env w1 u = budget_allows env w u" for u by (simp only: budget_allows_def f1(4))
  from c show ?thesis
  proof
    assume "\<exists>e. r = Inl e \<and> w' = w1"
    then show ?thesis using f1 by auto
  next
    assume "\<exists>guarded a w2 system. passes env agent w ''input'' (or_empty (js_get input ''input'')) guarded
          \<and> agent_turn env agent cfg system guarded input w1 = (a, w2) \<and> after_turn env agent input w guarded a w2 r w'"
    then obtain guarded a w2 system where t: "agent_turn env agent cfg system guarded input w1 = (a, w2)"
      and f: "after_turn env agent input w guarded a w2 r w'" by blast
    from agent_turn_effect [OF t] obtain cc calls ctx q ev history where
      w2: "w2 = w1\<lparr>aw_cache := cc, aw_calls := aw_calls w1 @ calls, aw_ctx := ctx, aw_quota := q, aw_events := ev\<rparr>"
      and ef: "turn_effect env w1 (history @ [user_message guarded]) calls a q" by blast
    have w': "aw_calls w' = aw_calls w @ calls" "aw_quota w' = q"
      using f f1 by (auto simp: after_turn_def remember_frame w2 split: sum.splits)
    have inl: "a = Inl e \<Longrightarrow> r = Inl e" for e using f by (simp add: after_turn_def)
    show ?thesis using ef inl f1(2) same_idsD(1) [OF f1(3), of "''projectId''"]
      by (auto simp: w' turn_effect_def b1 split: list.splits sum.splits if_splits)
  qed
qed


section \<open>A run\<close>

definition sample_agent :: agent_row where
  "sample_agent = \<lparr>ag_id = ''a1'', ag_workspace = ''ws'', ag_title = ''helper'', ag_prompt = ''Be brief.'', ag_config = ''llm'',
     ag_override = JNull, ag_template = []\<rparr>"

definition sample_ctx :: "string \<Rightarrow> (string \<times> js) list" where
  "sample_ctx budget =
     [(''config'', JObj [(''llm'', JObj [(''provider'', JStr ''openai''), (''model'', JStr ''gpt-4o''), (''apiKey'', JStr ''k'')])]),
      (''execution'', JObj [(''id'', JStr ''e''), (''workspaceId'', JStr ''ws''), (''projectId'', JStr ''p''), (''graphId'', JStr ''g'')]),
      (''_parsed'', JObj [(''maxTokens'', JStr budget)])]"

definition sample_agent_env :: agent_env where
  "sample_agent_env = \<lparr>av_env = (\<lambda>_. None), av_guard = \<lparr>g_key = False, g_moderate = (\<lambda>_ _. MFailed [])\<rparr>,
     av_policies = (\<lambda>_. Inr (Some (ssn_policy ''redact''))), av_agents = [sample_agent], av_now = 0, av_done = 1,
     av_clock = \<lparr>ck_month = 1, ck_day = 1\<rparr>, av_sha = (\<lambda>s. s), av_streaming = True, av_cache_on = False, av_cache_max = 0, av_cache_ttl = 0,
     av_defaults = (\<lambda>_. Some ''d''), av_provider = (\<lambda>c. Inr (''ok'', JObj [(''inputTokens'', JNum 10), (''outputTokens'', JNum 5)]))\<rparr>"

definition sample_world :: "string \<Rightarrow> agent_world" where
  "sample_world budget = \<lparr>aw_ctx = sample_ctx budget, aw_quota = \<lparr>qd_quotas = [], qd_usage = []\<rparr>,
     aw_mem = \<lparr>mem_kv = [], mem_turns = []\<rparr>, aw_policy = [], aw_cache = [], aw_events = [], aw_violations = [], aw_calls = []\<rparr>"

definition sample_input :: js where
  "sample_input = JObj [(''agent'', JStr ''helper''), (''input'', JStr ''I am 123-45-6789.''), (''conversationId'', JStr ''c'')]"

lemma sample_loads: "loadAgent (av_agents sample_agent_env) (JObj (aw_ctx (sample_world b))) (js_get sample_input ''agent'') =
    Inr (sample_agent, JObj [(''provider'', JStr ''openai''), (''model'', JStr ''gpt-4o''), (''apiKey'', JStr ''k'')])"
  by (simp add: sample_agent_env_def sample_world_def sample_ctx_def sample_input_def sample_agent_def loadAgent_def Let_def)

definition sample_request :: provider_call where
  "sample_request = \<lparr>pv_provider = ''openai'', pv_cfg = JObj [(''provider'', JStr ''openai''), (''model'', JStr ''gpt-4o''), (''apiKey'', JStr ''k'')],
     pv_system = ''Be brief.'', pv_messages = [user_message ''I am [SSN].''], pv_max = JNum 2048, pv_images = []\<rparr>"

lemma sample_call_made: "aw_calls (snd (agent_execute sample_agent_env sample_input (sample_world ''10''))) = [sample_request]"
  by code_simp

theorem calls_are_metered_witness:
  "aw_quota (snd (agent_execute sample_agent_env sample_input (sample_world ''10''))) = aw_quota (sample_world ''10'')
   \<and> (case fst (agent_execute sample_agent_env sample_input (sample_world ''10'')) of
        Inl e \<Rightarrow> e_code e = Some ''BUDGET_EXHAUSTED'' | Inr _ \<Rightarrow> False)"
proof -
  let ?x = "agent_execute sample_agent_env sample_input (sample_world ''10'')" and ?usage = "JObj [(''inputTokens'', JNum 10), (''outputTokens'', JNum 5)]"
  have new: "drop (length (aw_calls (sample_world ''10''))) (aw_calls (snd ?x)) = [sample_request]"
    by (simp add: sample_call_made) (simp add: sample_world_def)
  have answer: "av_provider sample_agent_env sample_request = Inr (''ok'', ?usage)" by (simp add: sample_agent_env_def)
  have broke: "\<not> budget_allows sample_agent_env (sample_world ''10'') ?usage" by code_simp
  show ?thesis using calls_are_metered [of sample_agent_env sample_input "sample_world ''10''", OF prod.collapse [symmetric] sample_loads]
    unfolding new list.case answer sum.case prod.case using broke by simp
qed



section \<open>The shape of a result\<close>

lemma agent_output_shape:
  "(js_get (agent_output final usage) ''result'' = JNull \<or> is_objlike (js_get (agent_output final usage) ''result''))
    \<and> (case js_get (agent_output final usage) ''confidence'' of JNull \<Rightarrow> True | JNum c \<Rightarrow> 0 \<le> c \<and> c \<le> 1 | _ \<Rightarrow> False)
    \<and> js_get (agent_output final usage) ''raw'' = JStr final"
  using tryParseJson_shape [of "JStr final"] confidence_range [of "tryParseJson (JStr final)"]
  by (auto simp: agent_output_def Let_def split: option.splits)

lemma agent_execute_output:
  "agent_execute env input w = (Inr out, w') \<Longrightarrow> \<exists>final usage. out = agent_output final usage"
  by (auto simp: agent_execute_def Let_def split: sum.splits prod.splits)

text \<open>C32.  The shape of an agent's result (\<open>agent.execute\<close>, its \<open>outputSchema\<close>): whatever the model answers,
  a call that succeeds returns a \<open>result\<close> that is an object, an array or null, a \<open>confidence\<close> that is null
  or a number from 0 to 1, and a \<open>raw\<close> that is a string.\<close>

theorem agent_result_shape:
  "case fst (agent_execute env input w) of Inl _ \<Rightarrow> True
    | Inr out \<Rightarrow> (js_get out ''result'' = JNull \<or> is_objlike (js_get out ''result''))
        \<and> (case js_get out ''confidence'' of JNull \<Rightarrow> True | JNum c \<Rightarrow> 0 \<le> c \<and> c \<le> 1 | _ \<Rightarrow> False)
        \<and> js_typeof (js_get out ''raw'') = ''string''"
proof (cases "fst (agent_execute env input w)")
  case (Inr out)
  then obtain final usage where "out = agent_output final usage"
    using agent_execute_output [of env input w out] by (metis prod.collapse)
  then show ?thesis using agent_output_shape [of final usage] Inr by simp
qed simp

end
