(* ===== verification/ToolDispatch.thy ===== *)
theory ToolDispatch
  imports AgentUtil
begin

text \<open>
  One turn of a tool-using conversation (\<open>plugins/agent/toolDispatch.js\<close>): the neutral conversation is
  translated into the messages of the OpenAI family, of Anthropic or of Gemini, posted, and the reply
  is read back as a step.  The HTTP exchange is an argument.  Token counts in a reply are numbers, as
  the three interfaces document them; anything else counts as none.
\<close>

section \<open>The neutral conversation\<close>

record tool_spec =
  sp_name :: string
  sp_description :: js
  sp_schema :: js

record tool_call =
  tc_id :: js
  tc_name :: js
  tc_args :: js

record tool_result =
  rs_id :: js
  rs_name :: js
  rs_output :: js
  rs_error :: string          \<comment> \<open>empty: none\<close>

datatype turn = UserTurn string | AssistantTurn string "tool_call list" | ToolTurn "tool_result list"

record model_step =
  ms_text :: string
  ms_calls :: "tool_call list"
  ms_input :: rat
  ms_output :: rat
  ms_stop :: string

datatype http_reply = Unreachable string | HttpStatus nat string | HttpJson js

type_synonym http = "string \<Rightarrow> js \<Rightarrow> js \<Rightarrow> http_reply"   \<comment> \<open>url, headers, body\<close>

definition count_of :: "js \<Rightarrow> rat" where
  "count_of v = (case v of JNum r \<Rightarrow> r | _ \<Rightarrow> 0)"

definition obj :: "(string \<times> js) list \<Rightarrow> js" where
  "obj kvs = JObj (filter (\<lambda>kv. snd kv \<noteq> JUndef) kvs)"

definition schema_of :: "tool_spec \<Rightarrow> js" where
  "schema_of t = js_or (sp_schema t) (JObj [(''type'', JStr ''object'')])"

definition args_of :: "tool_call \<Rightarrow> js" where
  "args_of tc = js_or (tc_args tc) (JObj [])"

text \<open>A result as text: a string as it is, anything else printed.\<close>

definition output_text :: "js \<Rightarrow> string" where
  "output_text v = (case v of JStr s \<Rightarrow> s | _ \<Rightarrow> json_text (js_nullish v JNull))"

definition post :: "http \<Rightarrow> string \<Rightarrow> string \<Rightarrow> js \<Rightarrow> js \<Rightarrow> js js_result" where
  "post h who url headers body =
     (case h url headers body of
        Unreachable m \<Rightarrow> Inl (plain_error m)
      | HttpStatus n t \<Rightarrow> Inl (plain_error (''agent.tools ('' @ who @ ''): '' @ show_nat n @ '' '' @ take 500 t))
      | HttpJson v \<Rightarrow> Inr v)"

definition strip_slash :: "string \<Rightarrow> string" where
  "strip_slash s = (if s \<noteq> [] \<and> last s = CHR ''/'' then butlast s else s)"

definition base_url :: "js \<Rightarrow> string \<Rightarrow> string" where
  "base_url cfg dflt = strip_slash (js_string (js_or (js_get cfg ''baseUrl'') (JStr dflt)))"


section \<open>OpenAI, Azure and Ollama\<close>

fun openai_turn :: "turn \<Rightarrow> js list" where
  "openai_turn (UserTurn t) = [JObj [(''role'', JStr ''user''), (''content'', JStr t)]]"
| "openai_turn (AssistantTurn t calls) =
     [JObj ([(''role'', JStr ''assistant''), (''content'', if t = [] then JNull else JStr t)]
        @ (if calls = [] then []
           else [(''tool_calls'', JArr (map (\<lambda>tc. obj [(''id'', tc_id tc), (''type'', JStr ''function''),
                   (''function'', obj [(''name'', tc_name tc), (''arguments'', JStr (json_text (args_of tc)))])]) calls))]))]"
| "openai_turn (ToolTurn results) =
     map (\<lambda>r. obj [(''role'', JStr ''tool''), (''tool_call_id'', rs_id r),
       (''content'', JStr (if rs_error r \<noteq> [] then json_text (JObj [(''error'', JStr (rs_error r))]) else output_text (rs_output r)))]) results"

definition openaiMessagesFromConvo :: "turn list \<Rightarrow> js list" where
  "openaiMessagesFromConvo convo = concat (map openai_turn convo)"

definition safeJsonParse :: "js \<Rightarrow> js" where
  "safeJsonParse v = (case v of JStr s \<Rightarrow> (case json_parse s of Some x \<Rightarrow> x | None \<Rightarrow> JNull) | _ \<Rightarrow> JNull)"

definition elements_of :: "js \<Rightarrow> js list" where
  "elements_of v = (case v of JArr vs \<Rightarrow> vs | _ \<Rightarrow> [])"

definition openai_call :: "js \<Rightarrow> tool_call" where
  "openai_call tc = \<lparr>tc_id = js_get tc ''id'', tc_name = js_or (js_walk tc [''function'', ''name'']) (JStr []),
     tc_args = js_or (safeJsonParse (js_walk tc [''function'', ''arguments''])) (JObj [])\<rparr>"

definition openai_step :: "js \<Rightarrow> model_step" where
  "openai_step reply =
     (let choice = js_walk reply [''choices'', ''0'']; msg = js_or (js_walk choice [''message'']) (JObj []) in
      \<lparr>ms_text = js_string (js_or (js_get msg ''content'') (JStr [])),
       ms_calls = map openai_call (elements_of (js_or (js_get msg ''tool_calls'') (JArr []))),
       ms_input = count_of (js_walk reply [''usage'', ''prompt_tokens'']), ms_output = count_of (js_walk reply [''usage'', ''completion_tokens'']),
       ms_stop = js_string (js_or (js_walk choice [''finish_reason'']) (JStr ''stop''))\<rparr>)"

definition openai_tool :: "tool_spec \<Rightarrow> js" where
  "openai_tool t = JObj [(''type'', JStr ''function''),
     (''function'', JObj [(''name'', JStr (sp_name t)), (''description'', sp_description t), (''parameters'', schema_of t)])]"

definition openai_url :: "js \<Rightarrow> string" where
  "openai_url cfg =
     (if js_get cfg ''provider'' = JStr ''azure-openai''
      then base_url cfg [] @ ''/openai/deployments/'' @ js_string (js_get cfg ''azureDeployment'') @ ''/chat/completions?api-version=''
             @ js_string (js_or (js_get cfg ''azureApiVersion'') (JStr ''2024-08-01-preview''))
      else base_url cfg ''https://api.openai.com/v1'' @ ''/chat/completions'')"

definition openai_headers :: "js \<Rightarrow> js" where
  "openai_headers cfg = JObj [(''content-type'', JStr ''application/json''),
     (if js_get cfg ''provider'' = JStr ''azure-openai'' then (''api-key'', js_get cfg ''apiKey'')
      else (''authorization'', JStr (''Bearer '' @ js_string (js_get cfg ''apiKey''))))]"

definition openaiTurn :: "http \<Rightarrow> js \<Rightarrow> string \<Rightarrow> turn list \<Rightarrow> tool_spec list \<Rightarrow> js \<Rightarrow> model_step js_result" where
  "openaiTurn h cfg system convo tools maxTokens =
     (if js_get cfg ''provider'' = JStr ''azure-openai'' \<and> js_typeof (js_get cfg ''baseUrl'') \<noteq> ''string''
      then Inl (plain_error ''cfg.baseUrl.replace is not a function'')
      else res_bind (post h (js_string (js_get cfg ''provider'')) (openai_url cfg) (openai_headers cfg)
             (obj [(''model'', js_get cfg ''model''), (''max_tokens'', maxTokens), (''temperature'', JNum (3 / 10)),
               (''messages'', JArr (JObj [(''role'', JStr ''system''), (''content'', JStr system)] # openaiMessagesFromConvo convo)),
               (''tools'', JArr (map openai_tool tools)), (''tool_choice'', JStr ''auto'')]))
           (\<lambda>reply. Inr (openai_step reply)))"


section \<open>Anthropic\<close>

fun anthropic_turn :: "turn \<Rightarrow> js" where
  "anthropic_turn (UserTurn t) = JObj [(''role'', JStr ''user''), (''content'', JStr t)]"
| "anthropic_turn (AssistantTurn t calls) =
     (let blocks = (if t = [] then [] else [JObj [(''type'', JStr ''text''), (''text'', JStr t)]])
            @ map (\<lambda>tc. obj [(''type'', JStr ''tool_use''), (''id'', tc_id tc), (''name'', tc_name tc), (''input'', args_of tc)]) calls
      in JObj [(''role'', JStr ''assistant''), (''content'', if blocks = [] then JStr [] else JArr blocks)])"
| "anthropic_turn (ToolTurn results) =
     JObj [(''role'', JStr ''user''), (''content'', JArr (map (\<lambda>r. obj [(''type'', JStr ''tool_result''), (''tool_use_id'', rs_id r),
       (''is_error'', JBool (rs_error r \<noteq> [])), (''content'', JStr (if rs_error r \<noteq> [] then rs_error r else output_text (rs_output r)))]) results))]"

definition anthropicMessagesFromConvo :: "turn list \<Rightarrow> js list" where
  "anthropicMessagesFromConvo convo = map anthropic_turn convo"

definition block_texts :: "js list \<Rightarrow> string" where
  "block_texts vs = concat (map (\<lambda>v. if nullish (js_get v ''text'') then [] else js_string (js_get v ''text'')) vs)"

definition anthropic_step :: "js \<Rightarrow> model_step" where
  "anthropic_step reply =
     (let blocks = elements_of (js_walk reply [''content'']) in
      \<lparr>ms_text = block_texts (filter (\<lambda>b. js_get b ''type'' = JStr ''text'') blocks),
       ms_calls = map (\<lambda>b. \<lparr>tc_id = js_get b ''id'', tc_name = js_get b ''name'', tc_args = js_or (js_get b ''input'') (JObj [])\<rparr>)
         (filter (\<lambda>b. js_get b ''type'' = JStr ''tool_use'') blocks),
       ms_input = count_of (js_walk reply [''usage'', ''input_tokens'']), ms_output = count_of (js_walk reply [''usage'', ''output_tokens'']),
       ms_stop = js_string (js_or (js_walk reply [''stop_reason'']) (JStr ''stop''))\<rparr>)"

definition anthropicTurn :: "http \<Rightarrow> js \<Rightarrow> string \<Rightarrow> turn list \<Rightarrow> tool_spec list \<Rightarrow> js \<Rightarrow> model_step js_result" where
  "anthropicTurn h cfg system convo tools maxTokens =
     res_bind (post h ''anthropic'' (base_url cfg ''https://api.anthropic.com/v1'' @ ''/messages'')
         (obj [(''content-type'', JStr ''application/json''), (''x-api-key'', js_get cfg ''apiKey''), (''anthropic-version'', JStr ''2023-06-01'')])
         (obj [(''model'', js_get cfg ''model''), (''max_tokens'', maxTokens), (''system'', JStr system), (''messages'', JArr (anthropicMessagesFromConvo convo)),
           (''tools'', JArr (map (\<lambda>t. JObj [(''name'', JStr (sp_name t)), (''description'', sp_description t), (''input_schema'', schema_of t)]) tools))]))
       (\<lambda>reply. Inr (anthropic_step reply))"


section \<open>Gemini\<close>

fun gemini_turn :: "turn \<Rightarrow> js" where
  "gemini_turn (UserTurn t) = JObj [(''role'', JStr ''user''), (''parts'', JArr [JObj [(''text'', JStr t)]])]"
| "gemini_turn (AssistantTurn t calls) =
     JObj [(''role'', JStr ''model''), (''parts'', JArr ((if t = [] then [] else [JObj [(''text'', JStr t)]])
       @ map (\<lambda>tc. JObj [(''functionCall'', obj [(''name'', tc_name tc), (''args'', args_of tc)])]) calls))]"
| "gemini_turn (ToolTurn results) =
     JObj [(''role'', JStr ''user''), (''parts'', JArr (map (\<lambda>r. JObj [(''functionResponse'', obj [(''name'', rs_name r),
       (''response'', if rs_error r \<noteq> [] then JObj [(''error'', JStr (rs_error r))] else obj [(''result'', rs_output r)])])]) results))]"

definition geminiContentsFromConvo :: "turn list \<Rightarrow> js list" where
  "geminiContentsFromConvo convo = map gemini_turn convo"

text \<open>The two keywords are dropped at every depth.\<close>

fun geminiCleanSchema :: "js \<Rightarrow> js" where
  "geminiCleanSchema (JArr vs) = JArr (map geminiCleanSchema vs)"
| "geminiCleanSchema (JObj kvs) =
     JObj (map (\<lambda>(k, v). (k, geminiCleanSchema v)) (filter (\<lambda>kv. fst kv \<notin> {''additionalProperties'', ''$schema''}) kvs))"
| "geminiCleanSchema s = s"

definition gemini_step :: "js \<Rightarrow> model_step" where
  "gemini_step reply =
     (let cand = js_walk reply [''candidates'', ''0'']; parts = elements_of (js_or (js_walk cand [''content'', ''parts'']) (JArr [])) in
      \<lparr>ms_text = block_texts (filter (\<lambda>p. truthy (js_get p ''text'')) parts),
       ms_calls = map (\<lambda>(i, p). \<lparr>tc_id = JStr (''gemini-tc-'' @ show_nat i), tc_name = js_walk p [''functionCall'', ''name''],
           tc_args = js_or (js_walk p [''functionCall'', ''args'']) (JObj [])\<rparr>) (enumerate 0 (filter (\<lambda>p. truthy (js_get p ''functionCall'')) parts)),
       ms_input = count_of (js_walk reply [''usageMetadata'', ''promptTokenCount'']), ms_output = count_of (js_walk reply [''usageMetadata'', ''candidatesTokenCount'']),
       ms_stop = js_string (js_or (js_walk cand [''finishReason'']) (JStr ''STOP''))\<rparr>)"

definition geminiTurn :: "http \<Rightarrow> js \<Rightarrow> string \<Rightarrow> turn list \<Rightarrow> tool_spec list \<Rightarrow> js \<Rightarrow> model_step js_result" where
  "geminiTurn h cfg system convo tools maxTokens =
     res_bind (post h ''gemini''
         (base_url cfg ''https://generativelanguage.googleapis.com/v1beta'' @ ''/models/'' @ js_string (js_get cfg ''model'') @ '':generateContent?key=''
            @ js_string (js_get cfg ''apiKey''))
         (JObj [(''content-type'', JStr ''application/json'')])
         (JObj [(''systemInstruction'', JObj [(''role'', JStr ''user''), (''parts'', JArr [JObj [(''text'', JStr system)]])]),
           (''contents'', JArr (geminiContentsFromConvo convo)),
           (''tools'', JArr [JObj [(''functionDeclarations'', JArr (map (\<lambda>t. JObj [(''name'', JStr (sp_name t)), (''description'', sp_description t),
              (''parameters'', geminiCleanSchema (schema_of t))]) tools))]]),
           (''generationConfig'', obj [(''maxOutputTokens'', maxTokens), (''temperature'', JNum (3 / 10))])]))
       (\<lambda>reply. Inr (gemini_step reply))"


section \<open>Dispatch\<close>

definition OPENAI_FAMILY :: "js list" where
  "OPENAI_FAMILY = [JStr ''openai'', JStr ''azure-openai'', JStr ''ollama'']"

definition callWithTools :: "http \<Rightarrow> js \<Rightarrow> string \<Rightarrow> turn list \<Rightarrow> tool_spec list \<Rightarrow> js \<Rightarrow> model_step js_result" where
  "callWithTools h cfg system convo tools maxTokens =
     (let provider = js_get cfg ''provider'' in
      if provider \<in> set OPENAI_FAMILY then openaiTurn h cfg system convo tools maxTokens
      else if provider = JStr ''anthropic'' then anthropicTurn h cfg system convo tools maxTokens
      else if provider = JStr ''gemini'' then geminiTurn h cfg system convo tools maxTokens
      else Inl (plain_error (''agent.tools: provider '' @ quoted (js_string provider) @ '' does not (yet) support tool use. ''
             @ ''Switch to openai, anthropic, azure-openai, ollama, or gemini, or use the plain agent plugin.'')))"

end
