(* ===== verification/Registry.thy ===== *)
theory Registry
  imports Json
begin

text \<open>
  The plugin registry (\<open>plugins/registry.js\<close>): the cache of installed plugins built from the enabled
  rows of the \<open>plugins\<close> table, the resolution of an action with or without a pinned version, and the
  dispatch of a call to a module of the worker or to a plugin's HTTP endpoint.  Ajv, the modules on
  disk and the network are arguments.  Rows are taken as the query returns them (one per name and
  version, ordered by both); the fallbacks for databases before migrations 019 and 032 are left
  out, as are the trace spans.
\<close>

section \<open>Entries\<close>

record registry_row =
  rr_name :: string
  rr_version :: string
  rr_manifest :: js
  rr_transport :: string
  rr_endpoint :: string
  rr_source :: string
  rr_default :: bool
  rr_category :: js
  rr_deprecated :: bool

datatype transport = InProcess string | OverHttp string bool

record plugin_entry =
  en_name :: string
  en_version :: string
  en_default :: bool
  en_source :: string
  en_description :: js
  en_category :: js
  en_deprecated :: bool
  en_input :: js
  en_output :: js
  en_primary :: js
  en_refs :: "js list"
  en_transport :: transport

record registry =
  reg_nv :: "(string, plugin_entry) omap"
  reg_name :: "(string, plugin_entry) omap"

text \<open>
  What a plugin's endpoint answers: no connection, a failure status with its text, or a body, None
  when it is not JSON.
\<close>

datatype plugin_reply = NoReply string | FailedReply nat string | BodyReply "js option"

text \<open>
  The surroundings: whether Ajv compiles a schema, what it says of a value and what it makes of it
  (it fills in defaults and converts types), whether a module file loads and exports a plugin, what the
  module's \<open>execute\<close> does, and the endpoints.
\<close>

record 'w registry_env =
  rv_compiles :: "js \<Rightarrow> bool"
  rv_ajv :: "js \<Rightarrow> js \<Rightarrow> string list \<times> js"
  rv_module :: "string \<Rightarrow> bool"
  rv_execute :: "string \<Rightarrow> js \<Rightarrow> 'w \<Rightarrow> js js_result \<times> 'w"
  rv_http :: "string \<Rightarrow> js \<Rightarrow> plugin_reply"


section \<open>Loading\<close>

definition schema_compiles :: "'w registry_env \<Rightarrow> js \<Rightarrow> bool" where
  "schema_compiles env s \<longleftrightarrow> (truthy s \<longrightarrow> rv_compiles env s)"

definition refs_of :: "js \<Rightarrow> js list" where
  "refs_of v = (case v of JArr vs \<Rightarrow> vs | _ \<Rightarrow> [])"

definition build_entry :: "registry_row \<Rightarrow> transport \<Rightarrow> plugin_entry" where
  "build_entry row t =
     \<lparr>en_name = rr_name row, en_version = rr_version row, en_default = rr_default row, en_source = rr_source row,
      en_description = js_get (rr_manifest row) ''description'',
      en_category = js_nullish (rr_category row) (js_nullish (js_get (rr_manifest row) ''category'') JNull),
      en_deprecated = rr_deprecated row,
      en_input = js_get (rr_manifest row) ''inputSchema'', en_output = js_get (rr_manifest row) ''outputSchema'',
      en_primary = js_get (rr_manifest row) ''primaryOutput'', en_refs = refs_of (js_get (rr_manifest row) ''configRefs''),
      en_transport = t\<rparr>"

text \<open>None where the row is skipped: without a module path, or when building the entry throws.\<close>

definition load_row :: "'w registry_env \<Rightarrow> registry_row \<Rightarrow> plugin_entry option" where
  "load_row env row =
     (let path = js_walk (rr_manifest row) [''__manifest'', ''modulePath'']; m = rr_manifest row;
          compiled = (\<not> nullish m \<and> schema_compiles env (js_get m ''inputSchema'') \<and> schema_compiles env (js_get m ''outputSchema'')) in
      if rr_transport row = ''in-process''
      then (if truthy path \<and> rv_module env (js_string path) \<and> compiled
            then Some (build_entry row (InProcess (js_string path))) else None)
      else if rr_transport row = ''http''
      then (if compiled then Some (build_entry row (OverHttp (rr_endpoint row) (js_walk m [''transport'', ''streaming''] = JBool True))) else None)
      else None)"

definition nv_key :: "string \<Rightarrow> string \<Rightarrow> string" where
  "nv_key name version = name @ ''@'' @ version"

definition add_entry :: "plugin_entry \<Rightarrow> registry \<Rightarrow> registry" where
  "add_entry e reg =
     \<lparr>reg_nv = oset (nv_key (en_name e) (en_version e)) e (reg_nv reg),
      reg_name = (if en_default e \<or> en_name e \<notin> set (okeys (reg_name reg)) then oset (en_name e) e (reg_name reg) else reg_name reg)\<rparr>"

definition loaded_entries :: "'w registry_env \<Rightarrow> registry_row list \<Rightarrow> plugin_entry list" where
  "loaded_entries env rows = List.map_filter (load_row env) rows"

definition loadAll :: "'w registry_env \<Rightarrow> registry_row list \<Rightarrow> registry" where
  "loadAll env rows = fold add_entry (loaded_entries env rows) \<lparr>reg_nv = [], reg_name = []\<rparr>"


section \<open>Resolution\<close>

text \<open>The text before the first \<open>@\<close> and, unless it is empty, the text after it.\<close>

definition parsePluginRef :: "js \<Rightarrow> (string \<times> string option) js_result" where
  "parsePluginRef actionId =
     (case actionId of
        JStr a \<Rightarrow>
          if a = [] then Inl (plain_error ''plugin action must be a non-empty string'')
          else (let s = trim a; name = takeWhile (\<lambda>c. c \<noteq> CHR ''@'') s; rest = drop (Suc (length name)) s
                in Inr (name, if rest = [] then None else Some rest))
      | _ \<Rightarrow> Inl (plain_error ''plugin action must be a non-empty string''))"

definition registry_get :: "registry \<Rightarrow> js \<Rightarrow> plugin_entry js_result" where
  "registry_get reg actionId =
     res_bind (parsePluginRef actionId) (\<lambda>(name, version).
       let unknown = Inl (plain_error (''Unknown action '' @ quoted (js_string actionId))) in
       case version of
         None \<Rightarrow> (case oget (reg_name reg) name of None \<Rightarrow> unknown | Some e \<Rightarrow> Inr e)
       | Some v \<Rightarrow>
           (case oget (reg_nv reg) (nv_key name v) of
              Some e \<Rightarrow> Inr e
            | None \<Rightarrow>
                (case oget (reg_name reg) name of
                   Some e \<Rightarrow> Inl (plain_error (''plugin '' @ quoted (nv_key name v) @ '' not installed (default version is '' @ en_version e @ '')''))
                 | None \<Rightarrow> unknown)))"


section \<open>Dispatch\<close>

text \<open>The declared configurations that the workspace has; a required one that is missing fails the call.\<close>

fun resolve_refs :: "string \<Rightarrow> js \<Rightarrow> js list \<Rightarrow> (string, js) omap \<Rightarrow> (string, js) omap js_result" where
  "resolve_refs plugin ctx [] acc = Inr acc"
| "resolve_refs plugin ctx (ref # refs) acc =
     (let name = js_string (js_get ref ''name''); v = js_walk ctx [''config'', name] in
      if \<not> nullish v then resolve_refs plugin ctx refs (oset name v acc)
      else if truthy (js_get ref ''required'')
      then Inl (plain_error (''plugin '' @ quoted plugin @ '': required config '' @ quoted name @ '' (''
             @ js_string (js_or (js_get ref ''type'') (JStr ''any'')) @ '') not configured in this workspace''))
      else resolve_refs plugin ctx refs acc)"

text \<open>A member that is undefined is not in the printed body.\<close>

definition http_body :: "(string, js) omap \<Rightarrow> js \<Rightarrow> js \<Rightarrow> js \<Rightarrow> js" where
  "http_body config ctx input deadline =
     JObj (filter (\<lambda>kv. snd kv \<noteq> JUndef)
       [(''input'', input), (''executionId'', js_walk ctx [''execution'', ''id'']), (''workspaceId'', js_walk ctx [''execution'', ''workspaceId'']),
        (''nodeName'', js_or (js_get ctx ''_currentNode'') JNull), (''config'', JObj config),
        (''deadlineMs'', case deadline of JNum r \<Rightarrow> JNum r | _ \<Rightarrow> JNull)])"

definition endpoint_url :: "string \<Rightarrow> string" where
  "endpoint_url endpoint = (if endpoint \<noteq> [] \<and> last endpoint = CHR ''/'' then butlast endpoint else endpoint) @ ''/execute''"

definition reply_output :: "string \<Rightarrow> plugin_reply \<Rightarrow> js js_result" where
  "reply_output plugin reply =
     (case reply of
        NoReply m \<Rightarrow> Inl (plain_error m)
      | FailedReply n t \<Rightarrow> Inl (plain_error (''plugin '' @ quoted plugin @ '' returned HTTP '' @ show_nat n @ '': '' @ take 1000 t))
      | BodyReply None \<Rightarrow> Inl (plain_error (''plugin '' @ quoted plugin @ '' returned non-JSON response''))
      | BodyReply (Some v) \<Rightarrow>
          (case v of
             JObj kvs \<Rightarrow> Inr (case oget kvs ''output'' of Some out \<Rightarrow> out | None \<Rightarrow> v)
           | JArr _ \<Rightarrow> Inr v
           | _ \<Rightarrow> Inl (plain_error (''plugin '' @ quoted plugin @ '' returned non-JSON response''))))"

definition invokeOverHttp :: "'w registry_env \<Rightarrow> plugin_entry \<Rightarrow> string \<Rightarrow> js \<Rightarrow> js \<Rightarrow> js \<Rightarrow> js js_result" where
  "invokeOverHttp env p endpoint input ctx deadline =
     res_bind (resolve_refs (en_name p) ctx (en_refs p) [])
       (\<lambda>config. reply_output (en_name p) (rv_http env (endpoint_url endpoint) (http_body config ctx input deadline)))"

definition ajv_check :: "'w registry_env \<Rightarrow> js \<Rightarrow> js \<Rightarrow> string list \<times> js" where
  "ajv_check env s v = (if truthy s then rv_ajv env s v else ([], v))"

definition invalid_error :: "js \<Rightarrow> string \<Rightarrow> string list \<Rightarrow> js_error" where
  "invalid_error name side errs = plain_error (''Plugin '' @ quoted (js_string name) @ '' '' @ side @ '' invalid: '' @ join_str ''; '' errs)"

definition run_plugin :: "'w registry_env \<Rightarrow> plugin_entry \<Rightarrow> js \<Rightarrow> js \<Rightarrow> js \<Rightarrow> 'w \<Rightarrow> js js_result \<times> 'w" where
  "run_plugin env p input ctx deadline w =
     (case en_transport p of
        OverHttp endpoint streaming \<Rightarrow> (invokeOverHttp env p endpoint input ctx deadline, w)
      | InProcess path \<Rightarrow> rv_execute env path input w)"

text \<open>The output or the error, and the input as the validator left it.\<close>

definition invoke :: "'w registry_env \<Rightarrow> registry \<Rightarrow> js \<Rightarrow> js \<Rightarrow> js \<Rightarrow> js \<Rightarrow> 'w \<Rightarrow> (js js_result \<times> js) \<times> 'w" where
  "invoke env reg name input ctx deadline w =
     (case registry_get reg name of
        Inl e \<Rightarrow> ((Inl e, input), w)
      | Inr p \<Rightarrow>
          (let (errs, input') = ajv_check env (en_input p) input in
           if errs \<noteq> [] then ((Inl (invalid_error name ''input'' errs), input'), w)
           else case run_plugin env p input' ctx deadline w of
             (Inl e, w') \<Rightarrow> ((Inl e, input'), w')
           | (Inr output, w') \<Rightarrow>
               (let (errs', output') = ajv_check env (en_output p) output in
                if errs' \<noteq> [] then ((Inl (invalid_error name ''output'' errs'), input'), w') else ((Inr output', input'), w'))))"



section \<open>What resolution means\<close>

text \<open>The entry of a name: the last default, or the first one where none is a default.\<close>

definition default_of :: "plugin_entry list \<Rightarrow> string \<Rightarrow> plugin_entry option" where
  "default_of es name =
     (let same = filter (\<lambda>e. en_name e = name) es; ds = filter en_default same in
      if ds \<noteq> [] then Some (last ds) else case same of [] \<Rightarrow> None | e # _ \<Rightarrow> Some e)"

definition version_of :: "plugin_entry list \<Rightarrow> string \<Rightarrow> string \<Rightarrow> plugin_entry option" where
  "version_of es name v = find (\<lambda>e. en_name e = name \<and> en_version e = v) es"

text \<open>The abstract registry: a list of entries, looked up by name or by name and version.\<close>

definition resolve_entry :: "plugin_entry list \<Rightarrow> js \<Rightarrow> plugin_entry js_result" where
  "resolve_entry es actionId =
     (let unknown = plain_error (''Unknown action '' @ quoted (js_string actionId)) in
      case parsePluginRef actionId of
        Inl e \<Rightarrow> Inl e
      | Inr (name, None) \<Rightarrow> (case default_of es name of Some e \<Rightarrow> Inr e | None \<Rightarrow> Inl unknown)
      | Inr (name, Some v) \<Rightarrow>
          (case version_of es name v of
             Some e \<Rightarrow> Inr e
           | None \<Rightarrow> Inl (case default_of es name of
               Some e \<Rightarrow> plain_error (''plugin '' @ quoted (nv_key name v) @ '' not installed (default version is '' @ en_version e @ '')'')
             | None \<Rightarrow> unknown)))"

lemma default_of_Nil [simp]: "default_of [] name = None"
  by (simp add: default_of_def)

lemma default_of_snoc:
  "default_of (es @ [e]) name =
     (if en_name e \<noteq> name then default_of es name
      else if en_default e then Some e else case default_of es name of None \<Rightarrow> Some e | Some d \<Rightarrow> Some d)"
  by (auto simp: default_of_def Let_def split: list.splits)

definition build_registry :: "plugin_entry list \<Rightarrow> registry" where
  "build_registry es = fold add_entry es \<lparr>reg_nv = [], reg_name = []\<rparr>"

lemma build_registry_snoc [simp]: "build_registry (es @ [e]) = add_entry e (build_registry es)"
  by (simp add: build_registry_def)

lemma built_default: "oget (reg_name (build_registry es)) name = default_of es name"
proof (induction es rule: rev_induct)
  case Nil
  then show ?case by (simp add: build_registry_def)
next
  case (snoc e es)
  then show ?case
    using oget_None_iff [of "reg_name (build_registry es)" "en_name e"]
    by (auto simp: add_entry_def default_of_snoc split: option.splits)
qed

text \<open>Names hold no \<open>@\<close>, so that the key of a name and a version tells both.\<close>

definition plain_name :: "string \<Rightarrow> bool" where
  "plain_name s \<longleftrightarrow> CHR ''@'' \<notin> set s"

lemma nv_key_inj:
  assumes "plain_name a" and "plain_name b" and "nv_key a v = nv_key b u"
  shows "a = b \<and> v = u"
proof -
  have before: "takeWhile (\<lambda>c. c \<noteq> CHR ''@'') (nv_key x y) = x" if "plain_name x" for x y
  proof -
    have "takeWhile (\<lambda>c. c \<noteq> CHR ''@'') (x @ ''@'' @ y) = x @ takeWhile (\<lambda>c. c \<noteq> CHR ''@'') (''@'' @ y)"
      by (rule takeWhile_append2) (use that in \<open>auto simp: plain_name_def\<close>)
    then show ?thesis by (simp add: nv_key_def)
  qed
  have "a = b" using before [OF assms(1), of v] before [OF assms(2), of u] assms(3) by simp
  then show ?thesis using assms(3) by (simp add: nv_key_def)
qed

lemma find_snoc: "find P (xs @ [x]) = (case find P xs of Some y \<Rightarrow> Some y | None \<Rightarrow> if P x then Some x else None)"
  by (induction xs) auto

lemma built_version:
  assumes "\<And>e. e \<in> set es \<Longrightarrow> plain_name (en_name e)" and "distinct (map (\<lambda>e. (en_name e, en_version e)) es)" and "plain_name name"
  shows "oget (reg_nv (build_registry es)) (nv_key name v) = version_of es name v"
  using assms(1,2)
proof (induction es rule: rev_induct)
  case Nil
  then show ?case by (simp add: build_registry_def version_of_def)
next
  case (snoc e es)
  have key: "nv_key name v = nv_key (en_name e) (en_version e) \<longleftrightarrow> en_name e = name \<and> en_version e = v"
    using nv_key_inj [of "en_name e" name "en_version e" v] snoc.prems(1) [of e] assms(3) by auto
  have new: "version_of es name v = None" if "en_name e = name \<and> en_version e = v"
  proof -
    have "(name, v) \<notin> (\<lambda>e. (en_name e, en_version e)) ` set es" using that snoc.prems(2) by auto
    then show ?thesis by (auto simp: version_of_def find_None_iff)
  qed
  have IH: "oget (reg_nv (build_registry es)) (nv_key name v) = version_of es name v" using snoc by simp
  have "version_of (es @ [e]) name v = (if en_name e = name \<and> en_version e = v then Some e else version_of es name v)"
    using new by (auto simp: version_of_def find_snoc split: option.splits)
  then show ?case by (simp add: add_entry_def key IH)
qed

lemma parse_plain: "parsePluginRef actionId = Inr (name, version) \<Longrightarrow> plain_name name"
  by (auto simp: parsePluginRef_def Let_def plain_name_def split: js.splits if_splits dest: set_takeWhileD)

lemma build_entry_fields [simp]: "en_name (build_entry row t) = rr_name row" "en_version (build_entry row t) = rr_version row"
  by (simp_all add: build_entry_def)

lemma load_row_fields:
  "load_row env row = Some e \<Longrightarrow> en_name e = rr_name row \<and> en_version e = rr_version row"
  by (auto simp: load_row_def Let_def split: if_splits)

lemma loaded_mem:
  "e \<in> set (loaded_entries env rows) \<Longrightarrow> \<exists>r \<in> set rows. en_name e = rr_name r \<and> en_version e = rr_version r"
  by (induction rows) (auto simp: loaded_entries_def List.map_filter_simps dest!: load_row_fields split: option.splits)

lemma loaded_distinct:
  "distinct (map (\<lambda>r. (rr_name r, rr_version r)) rows) \<Longrightarrow> distinct (map (\<lambda>e. (en_name e, en_version e)) (loaded_entries env rows))"
proof (induction rows)
  case Nil
  then show ?case by (simp add: loaded_entries_def List.map_filter_simps)
next
  case (Cons r rows)
  have tail: "loaded_entries env (r # rows) = (case load_row env r of None \<Rightarrow> loaded_entries env rows | Some e \<Rightarrow> e # loaded_entries env rows)"
    by (simp add: loaded_entries_def List.map_filter_simps split: option.splits)
  show ?case
  proof (cases "load_row env r")
    case None
    then show ?thesis using Cons tail by simp
  next
    case (Some e)
    have "(en_name e, en_version e) \<noteq> (en_name e', en_version e')" if "e' \<in> set (loaded_entries env rows)" for e'
    proof
      assume eq: "(en_name e, en_version e) = (en_name e', en_version e')"
      obtain r' where r': "r' \<in> set rows" "en_name e' = rr_name r'" "en_version e' = rr_version r'"
        using loaded_mem [OF \<open>e' \<in> set (loaded_entries env rows)\<close>] by blast
      have "(rr_name r, rr_version r) = (rr_name r', rr_version r')" using eq r' load_row_fields [OF Some] by simp
      then have "(rr_name r, rr_version r) \<in> set (map (\<lambda>r. (rr_name r, rr_version r)) rows)" using r'(1) by auto
      then show False using Cons.prems by simp
    qed
    then show ?thesis using Cons tail Some by auto
  qed
qed

lemma get_resolves:
  assumes "\<And>e. e \<in> set es \<Longrightarrow> plain_name (en_name e)" and "distinct (map (\<lambda>e. (en_name e, en_version e)) es)"
  shows "registry_get (build_registry es) actionId = resolve_entry es actionId"
proof (cases "parsePluginRef actionId")
  case (Inr nv)
  obtain name version where nv: "nv = (name, version)" by (cases nv)
  have "plain_name name" using Inr nv parse_plain by blast
  from built_version [OF assms this] show ?thesis
    by (auto simp: registry_get_def resolve_entry_def Inr nv built_default Let_def split: option.splits)
qed (simp add: registry_get_def resolve_entry_def Let_def)

text \<open>C29.  Resolution of an action (\<open>registry.loadAll\<close> and \<open>registry.get\<close>): after the registry has been built from
  rows with plain names, one per name and version, an action without a version resolves to the
  default of the entries that loaded, or the first where none is a default; a pinned one resolves to
  that very version and never to another; anything else is an error that says what is installed.\<close>

theorem registry_resolves:
  assumes "\<And>r. r \<in> set rows \<Longrightarrow> plain_name (rr_name r)" and "distinct (map (\<lambda>r. (rr_name r, rr_version r)) rows)"
  shows "registry_get (loadAll env rows) actionId = resolve_entry (loaded_entries env rows) actionId"
  unfolding loadAll_def build_registry_def [symmetric]
proof (rule get_resolves)
  fix e
  assume "e \<in> set (loaded_entries env rows)"
  then obtain r where "r \<in> set rows" "en_name e = rr_name r" using loaded_mem by blast
  then show "plain_name (en_name e)" using assms(1) by simp
qed (rule loaded_distinct [OF assms(2)])

definition sample_row :: "string \<Rightarrow> bool \<Rightarrow> registry_row" where
  "sample_row v d = \<lparr>rr_name = ''crm'', rr_version = v, rr_manifest = JObj [(''inputSchema'', JNull)], rr_transport = ''http'',
     rr_endpoint = ''http://crm/'', rr_source = ''local'', rr_default = d, rr_category = JNull, rr_deprecated = False\<rparr>"

definition sample_registry_env :: "unit registry_env" where
  "sample_registry_env = \<lparr>rv_compiles = (\<lambda>_. True), rv_ajv = (\<lambda>_ v. ([], v)), rv_module = (\<lambda>_. True),
     rv_execute = (\<lambda>_ i w. (Inr i, w)), rv_http = (\<lambda>_ b. BodyReply (Some b))\<rparr>"

theorem registry_resolves_witness:
  "map (\<lambda>a. case registry_get (loadAll sample_registry_env [sample_row ''1.0'' True, sample_row ''2.0'' False]) (JStr a) of
       Inl _ \<Rightarrow> [] | Inr e \<Rightarrow> en_version e) ['' crm '', ''crm@2.0'', ''crm@3.0''] = [''1.0'', ''2.0'', []]"
proof -
  let ?rows = "[sample_row ''1.0'' True, sample_row ''2.0'' False]"
  have "registry_get (loadAll sample_registry_env ?rows) a = resolve_entry (loaded_entries sample_registry_env ?rows) a" for a
    by (rule registry_resolves) (auto simp: sample_row_def plain_name_def)
  then show ?thesis by simp code_simp
qed


section \<open>What an endpoint learns\<close>

text \<open>Two contexts that agree on what a plugin declared and on who is running.\<close>

definition same_for :: "plugin_entry \<Rightarrow> js \<Rightarrow> js \<Rightarrow> bool" where
  "same_for p ctx ctx' \<longleftrightarrow>
     list_all (\<lambda>ref. js_walk ctx [''config'', js_string (js_get ref ''name'')] = js_walk ctx' [''config'', js_string (js_get ref ''name'')]) (en_refs p)
     \<and> js_walk ctx [''execution'', ''id''] = js_walk ctx' [''execution'', ''id'']
     \<and> js_walk ctx [''execution'', ''workspaceId''] = js_walk ctx' [''execution'', ''workspaceId'']
     \<and> js_get ctx ''_currentNode'' = js_get ctx' ''_currentNode''"

lemma resolve_refs_same:
  "list_all (\<lambda>ref. js_walk ctx [''config'', js_string (js_get ref ''name'')] = js_walk ctx' [''config'', js_string (js_get ref ''name'')]) refs \<Longrightarrow>
   resolve_refs plugin ctx refs acc = resolve_refs plugin ctx' refs acc"
  by (induction refs arbitrary: acc) (auto simp: Let_def)

text \<open>An HTTP plugin learns only what it declared (\<open>invokeOverHttp\<close>): two runs whose contexts agree on the
  configurations the plugin's manifest names, on the execution and on the workspace send the same request
  and get the same answer, whatever other secrets and outputs the contexts hold.\<close>

theorem http_plugin_sees_declared_configs:
  assumes "same_for p ctx ctx'"
  shows "invokeOverHttp env p endpoint input ctx deadline = invokeOverHttp env p endpoint input ctx' deadline"
  using assms resolve_refs_same [of ctx ctx' "en_refs p" "en_name p" "[]"]
  by (auto simp: same_for_def invokeOverHttp_def http_body_def)

definition sample_entry :: plugin_entry where
  "sample_entry = build_entry (sample_row ''1.0'' True) (OverHttp ''http://crm/'' False) \<lparr>en_refs := [JObj [(''name'', JStr ''crm'')]]\<rparr>"

definition ctx_with :: "js \<Rightarrow> js" where
  "ctx_with v = JObj [(''config'', JObj [(''crm'', JStr ''k1''), (''bank'', v)]), (''execution'', JObj [(''id'', JStr ''e'')])]"

theorem http_plugin_sees_declared_configs_witness:
  "invokeOverHttp sample_registry_env sample_entry ''http://crm/'' (JNum 1) (ctx_with (JStr ''secret'')) JUndef =
   invokeOverHttp sample_registry_env sample_entry ''http://crm/'' (JNum 1) (ctx_with JNull) JUndef
   \<and> invokeOverHttp sample_registry_env sample_entry ''http://crm/'' (JNum 1) (ctx_with (JStr ''secret'')) JUndef =
     Inr (JObj [(''input'', JNum 1), (''executionId'', JStr ''e''), (''nodeName'', JNull), (''config'', JObj [(''crm'', JStr ''k1'')]), (''deadlineMs'', JNull)])"
proof
  show "invokeOverHttp sample_registry_env sample_entry ''http://crm/'' (JNum 1) (ctx_with (JStr ''secret'')) JUndef =
     invokeOverHttp sample_registry_env sample_entry ''http://crm/'' (JNum 1) (ctx_with JNull) JUndef"
    by (rule http_plugin_sees_declared_configs) code_simp
qed code_simp

end
