(* ===== verification/AgentTools.thy ===== *)
theory AgentTools
  imports AgentCall ToolDispatch Registry
begin

text \<open>
  The \<open>agent.tools\<close> action (\<open>plugins/builtin/agent.tools.js\<close>): a model that may call plugins.  Each turn
  asks the model with the whole conversation, charges the run's budget, runs the calls the model asks
  for through the plugin registry, and goes on with their results, until the model answers, every call
  of a turn fails, or the turns are used up.  The registry's surroundings and the HTTP exchange with
  the model are arguments; lines of the live output are left out, and a plugin is taken to leave the
  ids in the context alone, which the code reads once at the start.
\<close>

section \<open>The list of tools\<close>

definition DEFAULT_MAX_ITERATIONS :: nat where "DEFAULT_MAX_ITERATIONS = 6"

definition HARD_MAX_ITERATIONS :: nat where "HARD_MAX_ITERATIONS = 20"

definition resolve_tool :: "registry \<Rightarrow> js \<Rightarrow> tool_spec js_result" where
  "resolve_tool reg t =
     (let ref = (case t of JStr s \<Rightarrow> JObj [(''name'', t)] | _ \<Rightarrow> js_or t (JObj [])); name = js_get ref ''name'' in
      if \<not> truthy name then Inl (plain_error ''agent.tools: each tool entry needs a `name`'')
      else case registry_get reg name of
        Inl e \<Rightarrow> Inl (plain_error (''agent.tools: tool '' @ quoted (js_string name) @ '' - '' @ e_message e))
      | Inr p \<Rightarrow> Inr \<lparr>sp_name = en_name p,
          sp_description = js_or (js_get ref ''description'') (js_or (en_description p) (JStr (''Call '' @ en_name p))),
          sp_schema = js_or (js_get ref ''schema'') (js_or (en_input p) (JObj [(''type'', JStr ''object'')]))\<rparr>)"

definition resolveTools :: "registry \<Rightarrow> js \<Rightarrow> tool_spec list js_result" where
  "resolveTools reg rawTools =
     (case rawTools of
        JArr (t # ts) \<Rightarrow> res_map (resolve_tool reg) (t # ts)
      | _ \<Rightarrow> Inl (plain_error (''agent.tools: `tools` must be a non-empty array of plugin names or {name, description, schema} objects'')))"

definition tools_prompt :: "string \<Rightarrow> tool_spec list \<Rightarrow> string" where
  "tools_prompt base tools =
     trim (join_str [CHR 10] [base, [],
       ''Tools you may call (pick at most one per turn; prefer not calling a tool when the answer is clear):'',
       join_str [CHR 10] (map (\<lambda>t. ''- '' @ sp_name t @ '': '' @ js_string (sp_description t)) tools)])"

text \<open>\<open>Math.min(20, Math.max(1, maxIterations ?? 6))\<close>, and the number of rounds of a loop up to it.\<close>

definition max_iterations :: "js \<Rightarrow> jsnum" where
  "max_iterations v =
     (case js_number (js_nullish v (JNum (of_nat DEFAULT_MAX_ITERATIONS))) of
        NaN \<Rightarrow> NaN | PosInf \<Rightarrow> Fin (of_nat HARD_MAX_ITERATIONS) | NegInf \<Rightarrow> Fin 1
      | Fin r \<Rightarrow> Fin (min (of_nat HARD_MAX_ITERATIONS) (max 1 r)))"

definition rounds_of :: "jsnum \<Rightarrow> nat" where
  "rounds_of n = (case n of Fin r \<Rightarrow> nat \<lfloor>r\<rfloor> | _ \<Rightarrow> 0)"


section \<open>One round\<close>

record trail_entry =
  te_iter :: nat
  te_name :: js
  te_args :: js
  te_output :: js
  te_error :: string           \<comment> \<open>empty: none\<close>

record tool_env =
  tv_agent :: agent_env
  tv_reg :: registry
  tv_plugins :: "agent_world registry_env"
  tv_http :: http

text \<open>The text of a caught error: \<open>e.message || String(e)\<close>.\<close>

definition err_text :: "js_error \<Rightarrow> string" where
  "err_text e = (if e_message e = [] then ''Error'' else e_message e)"

text \<open>A call whose name is not on the list is answered with an error; the others go to the registry.\<close>

definition run_tool :: "tool_env \<Rightarrow> tool_spec list \<Rightarrow> tool_call \<Rightarrow> agent_world \<Rightarrow> tool_result \<times> js \<times> agent_world" where
  "run_tool env tools tc w =
     (if \<not> list_ex (\<lambda>t. tc_name tc = JStr (sp_name t)) tools
      then (\<lparr>rs_id = tc_id tc, rs_name = tc_name tc, rs_output = JNull,
             rs_error = ''Tool '' @ quoted (js_string (tc_name tc)) @ '' is not in the allowed list for this call.''\<rparr>, tc_args tc, w)
      else (let ((r, args), w') = invoke (tv_plugins env) (tv_reg env) (tc_name tc) (args_of tc) (JObj (aw_ctx w)) JUndef w in
        (case r of
           Inl e \<Rightarrow> \<lparr>rs_id = tc_id tc, rs_name = tc_name tc, rs_output = JNull, rs_error = err_text e\<rparr>
         | Inr out \<Rightarrow> \<lparr>rs_id = tc_id tc, rs_name = tc_name tc, rs_output = out, rs_error = []\<rparr>, args, w')))"

fun run_tools :: "tool_env \<Rightarrow> tool_spec list \<Rightarrow> nat \<Rightarrow> tool_call list \<Rightarrow> agent_world \<Rightarrow> tool_result list \<times> trail_entry list \<times> agent_world" where
  "run_tools env tools iter [] w = ([], [], w)"
| "run_tools env tools iter (tc # tcs) w =
     (let (r, args, w1) = run_tool env tools tc w; (rs, trail, w2) = run_tools env tools iter tcs w1
      in (r # rs, \<lparr>te_iter = iter, te_name = rs_name r, te_args = args, te_output = rs_output r, te_error = rs_error r\<rparr> # trail, w2))"

record tool_loop =
  tl_convo :: "turn list"
  tl_trail :: "trail_entry list"
  tl_input :: rat
  tl_output :: rat
  tl_text :: string
  tl_stop :: string
  tl_turns :: nat              \<comment> \<open>the turns asked for; the code keeps no such count\<close>

definition loop_start :: "string \<Rightarrow> tool_loop" where
  "loop_start t = \<lparr>tl_convo = [UserTurn t], tl_trail = [], tl_input = 0, tl_output = 0, tl_text = [], tl_stop = ''max_iterations'', tl_turns = 0\<rparr>"

definition usage_block :: "rat \<Rightarrow> rat \<Rightarrow> js" where
  "usage_block i out = JObj [(''inputTokens'', JNum i), (''outputTokens'', JNum out)]"

text \<open>The loop from round \<open>iter\<close> with \<open>n\<close> rounds left.\<close>

fun tool_rounds ::
  "tool_env \<Rightarrow> js \<Rightarrow> string \<Rightarrow> tool_spec list \<Rightarrow> js \<Rightarrow> nat \<Rightarrow> nat \<Rightarrow> tool_loop \<Rightarrow> agent_world \<Rightarrow> tool_loop js_result \<times> agent_world" where
  "tool_rounds env cfg system tools maxTokens iter 0 l w = (Inr l, w)"
| "tool_rounds env cfg system tools maxTokens iter (Suc n) l w =
     (case callWithTools (tv_http env) cfg system (tl_convo l) tools maxTokens of
        Inl e \<Rightarrow> (Inl e, w)
      | Inr step \<Rightarrow>
          (let l1 = l\<lparr>tl_input := tl_input l + ms_input step, tl_output := tl_output l + ms_output step, tl_turns := Suc (tl_turns l)\<rparr> in
           case charge_budget (tv_agent env) (usage_block (ms_input step) (ms_output step)) w of
             (Inl e, w1) \<Rightarrow> (Inl e, w1)
           | (Inr _, w1) \<Rightarrow>
               if ms_calls step = []
               then (Inr (l1\<lparr>tl_text := ms_text step, tl_stop := if ms_stop step = ''length'' then ''max_tokens'' else ''stop''\<rparr>), w1)
               else (let (results, trail, w2) = run_tools env tools iter (ms_calls step) w1;
                         l2 = l1\<lparr>tl_convo := tl_convo l @ [AssistantTurn (ms_text step) (ms_calls step), ToolTurn results], tl_trail := tl_trail l @ trail\<rparr>
                     in if list_all (\<lambda>r. rs_error r \<noteq> []) results
                        then (Inr (l2\<lparr>tl_text := ms_text step, tl_stop := ''tool_error_stop''\<rparr>), w2)
                        else tool_rounds env cfg system tools maxTokens (Suc iter) n l2 w2)))"


section \<open>The action\<close>

record tools_output =
  to_text :: string
  to_trail :: "trail_entry list"
  to_iterations :: jsnum
  to_stop :: string
  to_input :: rat
  to_output :: rat
  to_turns :: nat              \<comment> \<open>not in the object the code returns\<close>

definition reported_iterations :: "trail_entry list \<Rightarrow> jsnum \<Rightarrow> jsnum" where
  "reported_iterations trail n =
     (case n of Fin r \<Rightarrow> Fin (min (if trail = [] then 1 else of_nat (te_iter (last trail))) r) | _ \<Rightarrow> NaN)"

definition tools_finish :: "tool_env \<Rightarrow> agent_row \<Rightarrow> js \<Rightarrow> js \<Rightarrow> jsnum \<Rightarrow> tool_loop \<Rightarrow> agent_world \<Rightarrow> tools_output js_result \<times> agent_world" where
  "tools_finish env agent cfg p n l w =
     (let w1 = meter (tv_agent env) agent cfg (usage_block (tl_input l) (tl_output l)) False w in
      case guard_text (tv_agent env) p agent ''output'' (tl_text l) w1 of
        (Inl e, w2) \<Rightarrow> (Inl e, w2)
      | (Inr final, w2) \<Rightarrow>
          (Inr \<lparr>to_text = final, to_trail = tl_trail l, to_iterations = reported_iterations (tl_trail l) n, to_stop = tl_stop l,
                to_input = tl_input l, to_output = tl_output l, to_turns = tl_turns l\<rparr>, w2))"

definition tools_run ::
  "tool_env \<Rightarrow> agent_row \<Rightarrow> js \<Rightarrow> string \<Rightarrow> tool_spec list \<Rightarrow> js \<Rightarrow> agent_world \<Rightarrow> tools_output js_result \<times> agent_world" where
  "tools_run env agent cfg system tools input w =
     (let n = max_iterations (js_get input ''maxIterations''); (p, w0) = load_policy (tv_agent env) agent w in
      case guard_text (tv_agent env) p agent ''input'' (or_empty (js_get input ''input'')) w0 of
        (Inl e, w1) \<Rightarrow> (Inl e, w1)
      | (Inr guarded, w1) \<Rightarrow>
          (case check_quota (tv_agent env) w1 of
             Inl e \<Rightarrow> (Inl e, w1)
           | Inr _ \<Rightarrow>
               (case tool_rounds env cfg system tools (js_nullish (js_get input ''maxTokens'') (JNum 2048)) 1 (rounds_of n) (loop_start guarded) w1 of
                  (Inl e, w2) \<Rightarrow> (Inl e, w2)
                | (Inr l, w2) \<Rightarrow> tools_finish env agent cfg p n l w2)))"

definition agent_tools_execute :: "tool_env \<Rightarrow> js \<Rightarrow> agent_world \<Rightarrow> tools_output js_result \<times> agent_world" where
  "agent_tools_execute env input w =
     (case res_bind (loadAgent (av_agents (tv_agent env)) (JObj (aw_ctx w)) (js_get input ''agent'')) (\<lambda>(agent, cfg).
             res_bind (system_prompt agent input) (\<lambda>base. res_bind (resolveTools (tv_reg env) (js_get input ''tools'')) (\<lambda>tools.
               Inr (agent, cfg, tools_prompt base tools, tools)))) of
        Inl e \<Rightarrow> (Inl e, w)
      | Inr (agent, cfg, system, tools) \<Rightarrow> tools_run env agent cfg system tools input w)"


section \<open>Only the listed tools run\<close>

text \<open>Two surroundings in which one plugin does the same.\<close>

definition same_plugin :: "'w registry_env \<Rightarrow> 'w registry_env \<Rightarrow> plugin_entry \<Rightarrow> bool" where
  "same_plugin a b e = (case en_transport e of
     InProcess path \<Rightarrow> rv_execute b path = rv_execute a path
   | OverHttp endpoint streaming \<Rightarrow> rv_http b (endpoint_url endpoint) = rv_http a (endpoint_url endpoint))"

lemma run_plugin_same: "same_plugin a b p \<Longrightarrow> run_plugin b p input ctx deadline w = run_plugin a p input ctx deadline w"
  by (auto simp: same_plugin_def run_plugin_def invokeOverHttp_def split: transport.splits)

lemma invoke_same:
  assumes "\<And>e. registry_get reg name = Inr e \<Longrightarrow> same_plugin a b e" and "rv_ajv b = rv_ajv a"
  shows "invoke b reg name input ctx deadline w = invoke a reg name input ctx deadline w"
proof (cases "registry_get reg name")
  case (Inr p)
  have ajv: "ajv_check b = ajv_check a" by (simp add: fun_eq_iff ajv_check_def assms(2))
  show ?thesis unfolding invoke_def Inr ajv sum.case run_plugin_same [OF assms(1) [OF Inr]] ..
qed (simp add: invoke_def)

text \<open>The plugins behind a list of tools are the same in two surroundings.\<close>

definition same_tools :: "registry \<Rightarrow> 'w registry_env \<Rightarrow> 'w registry_env \<Rightarrow> tool_spec list \<Rightarrow> bool" where
  "same_tools reg a b tools \<longleftrightarrow> rv_ajv b = rv_ajv a \<and>
     list_all (\<lambda>t. case registry_get reg (JStr (sp_name t)) of Inl _ \<Rightarrow> True | Inr e \<Rightarrow> same_plugin a b e) tools"

lemma other_fields:
  "tv_agent (env\<lparr>tv_plugins := other\<rparr>) = tv_agent env" "tv_reg (env\<lparr>tv_plugins := other\<rparr>) = tv_reg env"
  "tv_http (env\<lparr>tv_plugins := other\<rparr>) = tv_http env"
  by simp_all

lemma run_tool_same:
  assumes "same_tools (tv_reg env) (tv_plugins env) other tools"
  shows "run_tool (env\<lparr>tv_plugins := other\<rparr>) tools tc w = run_tool env tools tc w"
proof (cases "list_ex (\<lambda>t. tc_name tc = JStr (sp_name t)) tools")
  case True
  have "invoke other (tv_reg env) (tc_name tc) (args_of tc) (JObj (aw_ctx w)) JUndef w
      = invoke (tv_plugins env) (tv_reg env) (tc_name tc) (args_of tc) (JObj (aw_ctx w)) JUndef w"
  proof (rule invoke_same)
    fix e
    assume e: "registry_get (tv_reg env) (tc_name tc) = Inr e"
    obtain t where "t \<in> set tools" "tc_name tc = JStr (sp_name t)" using True by (auto simp: list_ex_iff)
    then show "same_plugin (tv_plugins env) other e" using assms e by (force simp: same_tools_def list_all_iff)
  qed (use assms in \<open>simp add: same_tools_def\<close>)
  then show ?thesis by (simp add: run_tool_def)
qed (simp add: run_tool_def)

lemma run_tools_same:
  assumes "same_tools (tv_reg env) (tv_plugins env) other tools"
  shows "run_tools (env\<lparr>tv_plugins := other\<rparr>) tools iter tcs w = run_tools env tools iter tcs w"
  by (induction tcs arbitrary: w) (simp_all add: run_tool_same [OF assms])

lemma tool_rounds_same:
  assumes "same_tools (tv_reg env) (tv_plugins env) other tools"
  shows "tool_rounds (env\<lparr>tv_plugins := other\<rparr>) cfg system tools mt iter n l w = tool_rounds env cfg system tools mt iter n l w"
proof (induction n arbitrary: iter l w)
  case (Suc n)
  show ?case unfolding tool_rounds.simps run_tools_same [OF assms] Suc.IH other_fields ..
qed simp

text \<open>C27.  A model reaches no plugin but the ones it was given (\<open>agent.tools\<close>): put any other code behind every
  plugin that is not on the resolved list, and the call ends with the same result, the same trail and
  the same state, whatever names and arguments the model asks for.\<close>

theorem tools_are_confined:
  assumes "resolveTools (tv_reg env) (js_get input ''tools'') = Inr tools"
    and "same_tools (tv_reg env) (tv_plugins env) other tools"
  shows "agent_tools_execute (env\<lparr>tv_plugins := other\<rparr>) input w = agent_tools_execute env input w"
proof -
  let ?e = "env\<lparr>tv_plugins := other\<rparr>"
  have finish: "tools_finish ?e agent cfg p n l w = tools_finish env agent cfg p n l w" for agent cfg p n l w
    by (simp add: tools_finish_def)
  have run: "tools_run ?e agent cfg system tools input w = tools_run env agent cfg system tools input w" for agent cfg system
    unfolding tools_run_def other_fields finish tool_rounds_same [OF assms(2)] ..
  show ?thesis
    unfolding agent_tools_execute_def other_fields assms(1) res_bind_Inr
    by (auto simp: res_bind_def run split: sum.split prod.split)
qed


section \<open>How long the loop runs\<close>














section \<open>A run\<close>

text \<open>The model asks for a listed tool and for one that is not listed, then answers.\<close>

definition called :: "string \<Rightarrow> js" where
  "called name = JObj [(''id'', JStr name), (''function'', JObj [(''name'', JStr name), (''arguments'', JStr ''{}'')])]"

definition sample_model :: http where
  "sample_model url headers body =
     HttpJson (JObj [(''choices'', JArr [JObj [(''message'', case js_get body ''messages'' of
         JArr [_, _] \<Rightarrow> JObj [(''tool_calls'', JArr [called ''lookup'', called ''wipe''])]
       | _ \<Rightarrow> JObj [(''content'', JStr ''It is 42.'')])]])])"

definition plugin_row_of :: "string \<Rightarrow> registry_row" where
  "plugin_row_of name = \<lparr>rr_name = name, rr_version = ''1.0.0'', rr_manifest = JObj [(''__manifest'', JObj [(''modulePath'', JStr (''/'' @ name))])],
     rr_transport = ''in-process'', rr_endpoint = [], rr_source = ''core'', rr_default = True, rr_category = JNull, rr_deprecated = False\<rparr>"

definition tool_plugins :: "(js \<Rightarrow> agent_world \<Rightarrow> js js_result \<times> agent_world) \<Rightarrow> agent_world registry_env" where
  "tool_plugins wipe = \<lparr>rv_compiles = (\<lambda>_. True), rv_ajv = (\<lambda>_ v. ([], v)), rv_module = (\<lambda>_. True),
     rv_execute = (\<lambda>path. if path = ''/lookup'' then (\<lambda>i w. (Inr (JNum 42), w)) else wipe), rv_http = (\<lambda>_ _. NoReply [])\<rparr>"

definition sample_registry :: registry where
  "sample_registry = loadAll (tool_plugins (\<lambda>i w. (Inr JNull, w))) [plugin_row_of ''lookup'', plugin_row_of ''wipe'']"

definition sample_tool_env :: tool_env where
  "sample_tool_env = \<lparr>tv_agent = sample_agent_env, tv_reg = sample_registry, tv_plugins = tool_plugins (\<lambda>i w. (Inr JNull, w)), tv_http = sample_model\<rparr>"

definition sample_tool_input :: js where
  "sample_tool_input = JObj [(''agent'', JStr ''helper''), (''input'', JStr ''What is it?''), (''tools'', JArr [JStr ''lookup''])]"

definition lookup_tool :: tool_spec where
  "lookup_tool = \<lparr>sp_name = ''lookup'', sp_description = JStr ''Call lookup'', sp_schema = JObj [(''type'', JStr ''object'')]\<rparr>"

lemma sample_tools: "resolveTools (tv_reg sample_tool_env) (js_get sample_tool_input ''tools'') = Inr [lookup_tool]"
  by code_simp

definition lookup_entry :: plugin_entry where
  "lookup_entry = build_entry (plugin_row_of ''lookup'') (InProcess ''/lookup'')"

lemma sample_lookup: "registry_get (tv_reg sample_tool_env) (JStr ''lookup'') = Inr lookup_entry"
  by code_simp

theorem tools_are_confined_witness:
  "agent_tools_execute (sample_tool_env\<lparr>tv_plugins := tool_plugins (\<lambda>i w. (Inr i, w\<lparr>aw_mem := \<lparr>mem_kv = [], mem_turns = []\<rparr>, aw_ctx := []\<rparr>))\<rparr>)
     sample_tool_input (sample_world ''1000'') = agent_tools_execute sample_tool_env sample_tool_input (sample_world ''1000'')"
proof (rule tools_are_confined [OF sample_tools])
  show "same_tools (tv_reg sample_tool_env) (tv_plugins sample_tool_env)
      (tool_plugins (\<lambda>i w. (Inr i, w\<lparr>aw_mem := \<lparr>mem_kv = [], mem_turns = []\<rparr>, aw_ctx := []\<rparr>))) [lookup_tool]"
    using sample_lookup
    by (simp add: same_tools_def lookup_tool_def same_plugin_def lookup_entry_def build_entry_def)
      (simp add: sample_tool_env_def tool_plugins_def)
qed



text \<open>A tool listed with a pinned version runs at the default one: its name alone goes to the model and back.\<close>

definition crm_registry :: registry where
  "crm_registry = loadAll sample_registry_env [sample_row ''1.0'' True, sample_row ''2.0'' False]"

lemma pinned_tool_loses_its_version:
  "case resolveTools crm_registry (JArr [JStr ''crm@2.0'']) of
     Inr [t] \<Rightarrow> (case registry_get crm_registry (JStr (sp_name t)) of Inr e \<Rightarrow> en_version e = ''1.0'' | Inl _ \<Rightarrow> False)
   | _ \<Rightarrow> False"
  by code_simp

end
