(* ===== verification/Elevation.thy ===== *)
theory Elevation
  imports Permissions JsString
begin

text \<open>
  The endpoints that hand out permissions: time-boxed elevations (\<open>api/jitGrants.js\<close>), custom roles and
  their grants (\<open>api/customRoles.js\<close>), and grants on one resource (\<open>api/resourceGrants.js\<close>).  Every
  handler runs behind \<open>requireUser\<close>, so the actor is a principal.  The tables are lists of rows with
  the foreign keys, unique keys and NOT NULL columns the handlers can hit; \<open>auth_of\<close> is what the
  resolver of \<open>auth/permissions.js\<close> sees of them.  Ids are texts, new ids and the moment are arguments,
  and audit rows are left out.  The read-only listings are not modelled.
\<close>

section \<open>Tables\<close>

record jit_entry =
  jr_id :: string
  jr_grant :: jit_grant
  jr_reason :: string
  jr_by :: string

record role_row =
  cr_id :: string
  cr_ws :: string
  cr_name :: string
  cr_description :: js
  cr_perms :: "string list"

record grant_entry =
  ge_id :: string
  ge_grant :: role_grant
  ge_by :: string

record acl_row =
  ac_id :: string
  ac_grant :: resource_grant
  ac_by :: string

text \<open>Projects with their workspace; resources by type and id with their project, None when shared; service
  accounts with their project and whether they are deleted.\<close>

record elevation_db =
  ev_ws_members :: "(string \<times> string \<times> string) list"
  ev_users :: "(string \<times> string \<times> string) list"
  ev_proj_members :: "(string \<times> string \<times> string) list"
  ev_projects :: "(string \<times> string) list"
  ev_resources :: "((string \<times> string) \<times> string option) list"
  ev_accounts :: "(string \<times> string \<times> bool) list"
  ev_jit :: "jit_entry list"
  ev_roles :: "role_row list"
  ev_grants :: "grant_entry list"
  ev_acl :: "acl_row list"

definition auth_of :: "elevation_db \<Rightarrow> auth_db" where
  "auth_of db =
     \<lparr>ad_ws_members = ev_ws_members db, ad_users = ev_users db, ad_proj_members = ev_proj_members db,
      ad_role_grants = map ge_grant (ev_grants db), ad_custom_roles = map (\<lambda>r. (cr_id r, cr_perms r)) (ev_roles db),
      ad_jit = map jr_grant (ev_jit db), ad_resource = map ac_grant (ev_acl db)\<rparr>"

text \<open>The users a workspace reaches, and the foreign key of the columns that name the granting user.\<close>

definition user_in_workspace :: "elevation_db \<Rightarrow> string \<Rightarrow> string \<Rightarrow> bool" where
  "user_in_workspace db user ws =
     list_ex (\<lambda>u. fst u = user \<and> (fst (snd u) = ws \<or> list_ex (\<lambda>m. fst m = user \<and> fst (snd m) = ws) (ev_ws_members db))) (ev_users db)"

definition project_in_workspace :: "elevation_db \<Rightarrow> string \<Rightarrow> string \<Rightarrow> bool" where
  "project_in_workspace db proj ws = list_ex (\<lambda>p. p = (proj, ws)) (ev_projects db)"

definition granting_user :: "elevation_db \<Rightarrow> principal \<Rightarrow> unit js_result" where
  "granting_user db u =
     (if list_ex (\<lambda>r. fst r = pr_id u) (ev_users db) then Inr ()
      else Inl (plain_error ''insert violates the foreign key to users''))"

definition may :: "elevation_db \<Rightarrow> nat \<Rightarrow> principal \<Rightarrow> string \<Rightarrow> string \<Rightarrow> bool" where
  "may db now u permission projectId = hasPermission (auth_of db) now (Some u) permission projectId [] []"

definition gate :: "elevation_db \<Rightarrow> nat \<Rightarrow> principal \<Rightarrow> string \<Rightarrow> unit js_result" where
  "gate db now u permission = res_bind (requirePermission (auth_of db) now (Some u) permission [] []) (\<lambda>_. Inr ())"

definition need :: "bool \<Rightarrow> js_error \<Rightarrow> unit js_result" where
  "need b e = (if b then Inr () else Inl e)"

definition invalid :: "string \<Rightarrow> js_error" where
  "invalid m = validation_error m JUndef"

definition denied :: "string \<Rightarrow> js_error" where
  "denied m = forbidden_error m JUndef"

text \<open>A handler that has checked its input writes, or leaves the tables as they are.\<close>

definition write_checked :: "'a js_result \<Rightarrow> ('a \<Rightarrow> js \<times> elevation_db) \<Rightarrow> elevation_db \<Rightarrow> js js_result \<times> elevation_db" where
  "write_checked r f db = (case r of Inl e \<Rightarrow> (Inl e, db) | Inr x \<Rightarrow> (Inr (fst (f x)), snd (f x)))"


section \<open>Elevations\<close>

definition MAX_DURATION_MINUTES :: int where "MAX_DURATION_MINUTES = 10080"

definition duration_of :: "js \<Rightarrow> int js_result" where
  "duration_of v =
     (let bad = Inl (invalid (''durationMinutes must be between 1 and '' @ show_int MAX_DURATION_MINUTES @ '' (= 7 days)'')) in
      case js_number v of
        Fin r \<Rightarrow> if \<lfloor>r\<rfloor> < 1 \<or> MAX_DURATION_MINUTES < \<lfloor>r\<rfloor> then bad else Inr \<lfloor>r\<rfloor>
      | _ \<Rightarrow> bad)"

definition jit_input :: "elevation_db \<Rightarrow> nat \<Rightarrow> principal \<Rightarrow> js \<Rightarrow> (jit_grant \<times> string) js_result" where
  "jit_input db now u body =
     (let userId = js_get body ''userId''; scopeType = js_get body ''scopeType''; scopeId = js_get body ''scopeId'';
          role = js_get body ''role''; reason = js_get body ''reason'' in
      res_bind (gate db now u ''jit.grant'') (\<lambda>_.
      res_bind (need (truthy userId) (invalid ''userId is required'')) (\<lambda>_.
      res_bind (need (scopeType \<in> {JStr ''workspace'', JStr ''project''}) (invalid (''scopeType must be 'workspace' or 'project'' @ [CHR 0x27]))) (\<lambda>_.
      res_bind (need (truthy scopeId) (invalid ''scopeId is required'')) (\<lambda>_.
      res_bind (need (role \<in> {JStr ''admin'', JStr ''editor'', JStr ''viewer''}) (invalid ''role must be admin, editor, or viewer'')) (\<lambda>_.
      res_bind (need (js_typeof reason = ''string'' \<and> trim (js_string reason) \<noteq> [])
                  (invalid ''reason is required (free-text - typically the incident or task)'')) (\<lambda>_.
      res_bind (duration_of (js_get body ''durationMinutes'')) (\<lambda>dur.
      res_bind (if scopeType = JStr ''workspace'' then need (scopeId = JStr (pr_ws u)) (denied ''can't grant to a different workspace'')
                else need (project_in_workspace db (js_string scopeId) (pr_ws u)) (not_found_error ''project'')) (\<lambda>_.
      res_bind (need (user_in_workspace db (js_string userId) (pr_ws u)) (not_found_error ''user'')) (\<lambda>_.
      res_bind (granting_user db u) (\<lambda>_.
        Inr (\<lparr>jg_user = js_string userId, jg_scope_type = js_string scopeType, jg_scope_id = js_string scopeId, jg_role = js_string role,
              jg_revoked = False, jg_expires = now + nat dur * 60000\<rparr>, trim (js_string reason)))))))))))))"

definition jit_issue :: "nat \<Rightarrow> string \<Rightarrow> principal \<Rightarrow> js \<Rightarrow> elevation_db \<Rightarrow> js js_result \<times> elevation_db" where
  "jit_issue now key u body db =
     write_checked (jit_input db now u body)
       (\<lambda>(g, reason). (JObj [(''id'', JStr key), (''userId'', js_get body ''userId''), (''scopeType'', js_get body ''scopeType''),
            (''scopeId'', js_get body ''scopeId''), (''role'', js_get body ''role''), (''reason'', JStr reason),
            (''expiresAt'', JNum (of_nat (jg_expires g)))],
          db\<lparr>ev_jit := ev_jit db @ [\<lparr>jr_id = key, jr_grant = g, jr_reason = reason, jr_by = pr_id u\<rparr>]\<rparr>)) db"

text \<open>The workspace of an elevation: its scope, or the workspace of the project it names.\<close>

definition jit_workspace :: "elevation_db \<Rightarrow> jit_grant \<Rightarrow> string option" where
  "jit_workspace db g = (if jg_scope_type g = ''project'' then oget (ev_projects db) (jg_scope_id g) else Some (jg_scope_id g))"

definition revoke_row :: "string \<Rightarrow> jit_entry \<Rightarrow> jit_entry" where
  "revoke_row key r = (if jr_id r = key then r\<lparr>jr_grant := (jr_grant r)\<lparr>jg_revoked := True\<rparr>\<rparr> else r)"

definition jit_found :: "elevation_db \<Rightarrow> nat \<Rightarrow> string \<Rightarrow> principal \<Rightarrow> jit_grant js_result" where
  "jit_found db now key u =
     (case find (\<lambda>r. jr_id r = key) (ev_jit db) of
        None \<Rightarrow> Inl (not_found_error ''jit grant'')
      | Some r \<Rightarrow>
          res_bind (need (jit_workspace db (jr_grant r) = Some (pr_ws u)) (not_found_error ''jit grant'')) (\<lambda>_.
          res_bind (need (jg_user (jr_grant r) = pr_id u \<or> may db now u ''jit.grant'' [])
                      (denied ''only the grant's user or a workspace admin can revoke'')) (\<lambda>_. Inr (jr_grant r))))"

definition jit_revoke :: "nat \<Rightarrow> string \<Rightarrow> principal \<Rightarrow> elevation_db \<Rightarrow> js js_result \<times> elevation_db" where
  "jit_revoke now key u db =
     write_checked (jit_found db now key u)
       (\<lambda>g. if jg_revoked g \<or> jg_expires g \<le> now
            then (JObj [(''id'', JStr key), (''revoked'', JBool False), (''reason'', JStr ''already inactive'')], db)
            else (JObj [(''id'', JStr key), (''revoked'', JBool True)], db\<lparr>ev_jit := map (revoke_row key) (ev_jit db)\<rparr>)) db"


section \<open>Custom roles\<close>

text \<open>\<open>NAME_RE\<close> on \<open>String(name)\<close>.\<close>

definition letter :: "char \<Rightarrow> bool" where
  "letter c = (let n = of_char c :: nat in 65 \<le> n \<and> n \<le> 90 \<or> 97 \<le> n \<and> n \<le> 122)"

definition role_name_ok :: "js \<Rightarrow> bool" where
  "role_name_ok name =
     (case js_string name of [] \<Rightarrow> False
      | c # cs \<Rightarrow> letter c \<and> length cs \<le> 60 \<and> list_all (\<lambda>d. letter d \<or> is_digit d \<or> d \<in> set '' _-.'') cs)"

definition KNOWN_PERMS :: "string list" where
  "KNOWN_PERMS = map fst listPermissionCatalog"

text \<open>The strings of a list without repetition, each of which must be known.\<close>

fun normalize_perms :: "(string \<Rightarrow> unit js_result) \<Rightarrow> js list \<Rightarrow> string list \<Rightarrow> string list js_result" where
  "normalize_perms check [] out = Inr out"
| "normalize_perms check (JStr p # ps) out =
     (case check p of Inl e \<Rightarrow> Inl e | Inr _ \<Rightarrow> normalize_perms check ps (if p \<in> set out then out else out @ [p]))"
| "normalize_perms check (_ # ps) out = normalize_perms check ps out"

definition role_perms :: "js \<Rightarrow> string list js_result" where
  "role_perms v =
     (case v of
        JArr ps \<Rightarrow> normalize_perms (\<lambda>p. need (p \<in> set KNOWN_PERMS) (invalid (''unknown permission: '' @ quoted p))) ps []
      | _ \<Rightarrow> Inr [])"

definition loadRole :: "elevation_db \<Rightarrow> string \<Rightarrow> string \<Rightarrow> role_row js_result" where
  "loadRole db key ws =
     (case find (\<lambda>r. cr_id r = key \<and> cr_ws r = ws) (ev_roles db) of Some r \<Rightarrow> Inr r | None \<Rightarrow> Inl (not_found_error ''custom role''))"

definition name_taken :: "elevation_db \<Rightarrow> string \<Rightarrow> string \<Rightarrow> string \<Rightarrow> bool" where
  "name_taken db ws key name = list_ex (\<lambda>r. cr_ws r = ws \<and> cr_name r = name \<and> cr_id r \<noteq> key) (ev_roles db)"

definition or_null_js :: "js \<Rightarrow> js" where
  "or_null_js v = (if truthy v then v else JNull)"

definition role_create :: "nat \<Rightarrow> string \<Rightarrow> principal \<Rightarrow> js \<Rightarrow> elevation_db \<Rightarrow> js js_result \<times> elevation_db" where
  "role_create now key u body db =
     (let name = js_get body ''name'' in
      write_checked
        (res_bind (gate db now u ''custom_role.create'') (\<lambda>_.
         res_bind (need (truthy name \<and> role_name_ok name)
                     (invalid ''name is required (start with a letter, 60 chars, alphanumeric + . _ - space)'')) (\<lambda>_.
         res_bind (role_perms (js_get body ''permissions'')) (\<lambda>ps.
         res_bind (need (ps \<noteq> []) (invalid ''at least one permission is required'')) (\<lambda>_.
         res_bind (need (\<not> name_taken db (pr_ws u) key (js_string name))
                     (conflict_error (''a custom role named '' @ quoted (js_string name) @ '' already exists in this workspace'') JUndef)) (\<lambda>_.
         res_bind (granting_user db u) (\<lambda>_.
           Inr ps)))))))
        (\<lambda>ps. (JObj [(''id'', JStr key), (''name'', name), (''permissions'', JArr (map JStr ps))],
           db\<lparr>ev_roles := ev_roles db @ [\<lparr>cr_id = key, cr_ws = pr_ws u, cr_name = js_string name,
               cr_description = or_null_js (js_get body ''description''), cr_perms = ps\<rparr>]\<rparr>)) db)"

text \<open>The members of the body that are present; a null name passes the pattern and fails the column.\<close>

definition updated_role :: "elevation_db \<Rightarrow> role_row \<Rightarrow> js \<Rightarrow> role_row js_result" where
  "updated_role db r body =
     (let name = js_get body ''name''; description = js_get body ''description''; perms = js_get body ''permissions'' in
      res_bind (if name = JUndef then Inr r
                else res_bind (need (role_name_ok name) (invalid ''invalid name'')) (\<lambda>_. Inr (r\<lparr>cr_name := js_string name\<rparr>))) (\<lambda>r1.
      res_bind (if description = JUndef then Inr r1 else Inr (r1\<lparr>cr_description := or_null_js description\<rparr>)) (\<lambda>r2.
      res_bind (if perms = JUndef then Inr r2
                else res_bind (role_perms perms) (\<lambda>ps.
                  res_bind (need (ps \<noteq> []) (invalid ''permissions cannot be empty'')) (\<lambda>_. Inr (r2\<lparr>cr_perms := ps\<rparr>)))) (\<lambda>r3.
      res_bind (need (name \<noteq> JNull) (plain_error ''null value in column name'')) (\<lambda>_.
      res_bind (need (\<not> name_taken db (cr_ws r) (cr_id r) (cr_name r3)) (conflict_error ''name conflict'' JUndef)) (\<lambda>_. Inr r3))))))"

definition role_update :: "nat \<Rightarrow> string \<Rightarrow> principal \<Rightarrow> js \<Rightarrow> elevation_db \<Rightarrow> js js_result \<times> elevation_db" where
  "role_update now key u body db =
     write_checked
       (res_bind (gate db now u ''custom_role.update'') (\<lambda>_. res_bind (loadRole db key (pr_ws u)) (\<lambda>r. updated_role db r body)))
       (\<lambda>r. if js_get body ''name'' = JUndef \<and> js_get body ''description'' = JUndef \<and> js_get body ''permissions'' = JUndef
            then (JObj [(''id'', JStr key), (''updated'', JBool False)], db)
            else (JObj [(''id'', JStr key), (''updated'', JBool True)],
                  db\<lparr>ev_roles := map (\<lambda>x. if cr_id x = key \<and> cr_ws x = pr_ws u then r else x) (ev_roles db)\<rparr>)) db"

text \<open>The grants of a deleted role go with it.\<close>

definition role_delete :: "nat \<Rightarrow> string \<Rightarrow> principal \<Rightarrow> elevation_db \<Rightarrow> js js_result \<times> elevation_db" where
  "role_delete now key u db =
     write_checked (res_bind (gate db now u ''custom_role.delete'') (\<lambda>_. loadRole db key (pr_ws u)))
       (\<lambda>r. (JObj [(''id'', JStr key), (''deleted'', JBool True)],
          db\<lparr>ev_roles := filter (\<lambda>x. \<not> (cr_id x = key \<and> cr_ws x = pr_ws u)) (ev_roles db),
             ev_grants := filter (\<lambda>g. rg_role (ge_grant g) \<noteq> Some key) (ev_grants db)\<rparr>)) db"

definition grant_check :: "elevation_db \<Rightarrow> nat \<Rightarrow> string \<Rightarrow> principal \<Rightarrow> js \<Rightarrow> role_row js_result" where
  "grant_check db now roleId u body =
     (let userId = js_get body ''userId''; scopeType = js_get body ''scopeType''; scopeId = js_get body ''scopeId'' in
      res_bind (loadRole db roleId (pr_ws u)) (\<lambda>r.
      res_bind (need (truthy userId) (invalid ''userId is required'')) (\<lambda>_.
      res_bind (need (scopeType \<in> {JStr ''workspace'', JStr ''project''}) (invalid (''scopeType must be 'workspace' or 'project'' @ [CHR 0x27]))) (\<lambda>_.
      res_bind (need (truthy scopeId) (invalid ''scopeId is required'')) (\<lambda>_.
      res_bind (if scopeType = JStr ''workspace''
                then res_bind (need (may db now u ''custom_role.create'' []) (denied ''workspace admin required for workspace-scope grants''))
                       (\<lambda>_. need (scopeId = JStr (pr_ws u)) (denied ''can't grant to a different workspace''))
                else res_bind (need (may db now u ''custom_role.grant'' (js_string scopeId)) (denied ''project admin required for this project''))
                       (\<lambda>_. need (project_in_workspace db (js_string scopeId) (pr_ws u)) (not_found_error ''project''))) (\<lambda>_.
      res_bind (need (user_in_workspace db (js_string userId) (pr_ws u)) (not_found_error ''user'')) (\<lambda>_.
      res_bind (granting_user db u) (\<lambda>_. Inr r))))))))"

definition grant_role :: "nat \<Rightarrow> string \<Rightarrow> string \<Rightarrow> principal \<Rightarrow> js \<Rightarrow> elevation_db \<Rightarrow> js js_result \<times> elevation_db" where
  "grant_role now roleId key u body db =
     (let userId = js_get body ''userId''; scopeType = js_get body ''scopeType''; scopeId = js_get body ''scopeId'' in
      write_checked (grant_check db now roleId u body)
        (\<lambda>r. (JObj [(''grantId'', JStr key), (''userId'', userId), (''scopeType'', scopeType), (''scopeId'', scopeId)],
           db\<lparr>ev_grants := ev_grants db @ [\<lparr>ge_id = key, ge_grant = \<lparr>rg_user = js_string userId, rg_scope_type = js_string scopeType,
               rg_scope_id = js_string scopeId, rg_role = Some (cr_id r)\<rparr>, ge_by = pr_id u\<rparr>]\<rparr>)) db)"

definition find_grant :: "elevation_db \<Rightarrow> string \<Rightarrow> string \<Rightarrow> role_grant js_result" where
  "find_grant db roleId grantId =
     (case find (\<lambda>g. ge_id g = grantId \<and> rg_role (ge_grant g) = Some roleId) (ev_grants db) of
        None \<Rightarrow> Inl (not_found_error ''grant'') | Some g \<Rightarrow> Inr (ge_grant g))"

definition revoke_check :: "elevation_db \<Rightarrow> nat \<Rightarrow> string \<Rightarrow> string \<Rightarrow> principal \<Rightarrow> unit js_result" where
  "revoke_check db now roleId grantId u =
     res_bind (loadRole db roleId (pr_ws u)) (\<lambda>r. res_bind (find_grant db (cr_id r) grantId) (\<lambda>g.
       need (may db now u ''custom_role.grant'' (if rg_scope_type g = ''project'' then rg_scope_id g else [])
             \<or> may db now u ''custom_role.create'' []) (denied ''not allowed to revoke this grant'')))"

definition role_revoke :: "nat \<Rightarrow> string \<Rightarrow> string \<Rightarrow> principal \<Rightarrow> elevation_db \<Rightarrow> js js_result \<times> elevation_db" where
  "role_revoke now roleId grantId u db =
     write_checked (revoke_check db now roleId grantId u)
       (\<lambda>_. (JObj [(''grantId'', JStr grantId), (''revoked'', JBool True)],
          db\<lparr>ev_grants := filter (\<lambda>g. \<not> (ge_id g = grantId \<and> rg_role (ge_grant g) = Some roleId)) (ev_grants db)\<rparr>)) db"


section \<open>Grants on a resource\<close>

definition RESOURCE_GRANTABLE_PERMS :: "string list" where
  "RESOURCE_GRANTABLE_PERMS =
     [''workflow.read'', ''workflow.update'', ''workflow.delete'', ''workflow.run'',
      ''config.read'', ''config.update'', ''config.delete'', ''config.reveal_secret'',
      ''agent.read'', ''agent.update'', ''agent.delete'', ''execution.read'']"

definition RESOURCE_TYPES :: "string list" where "RESOURCE_TYPES = [''workflow'', ''config'', ''agent'']"

definition PRINCIPAL_TYPES :: "string list" where "PRINCIPAL_TYPES = [''user'', ''service_account'']"

definition one_of :: "string list \<Rightarrow> js \<Rightarrow> bool" where
  "one_of xs v = (case v of JStr s \<Rightarrow> s \<in> set xs | _ \<Rightarrow> False)"

definition acl_perm_check :: "string \<Rightarrow> string \<Rightarrow> unit js_result" where
  "acl_perm_check rtype p =
     (let family = takeWhile (\<lambda>c. c \<noteq> CHR ''.'') p in
      res_bind (need (p \<in> set RESOURCE_GRANTABLE_PERMS) (invalid (''permission '' @ quoted p @ '' cannot be granted at resource scope''))) (\<lambda>_.
        need (family = rtype \<or> family = ''execution'') (invalid (''permission '' @ quoted p @ '' doesn't apply to '' @ rtype))))"

definition acl_perms :: "string \<Rightarrow> js \<Rightarrow> string list js_result" where
  "acl_perms rtype v = (case v of JArr ps \<Rightarrow> normalize_perms (acl_perm_check rtype) ps [] | _ \<Rightarrow> Inr [])"

definition assertResourceInProject :: "elevation_db \<Rightarrow> string \<Rightarrow> string \<Rightarrow> string \<Rightarrow> unit js_result" where
  "assertResourceInProject db rtype key proj =
     (case oget (ev_resources db) (rtype, key) of
        None \<Rightarrow> Inl (not_found_error rtype)
      | Some None \<Rightarrow> Inl (denied (''workspace-shared resources can't be granted at resource scope; ''
          @ ''promote permissions via a workspace-shared config / agent instead''))
      | Some (Some p) \<Rightarrow> need (p = proj) (not_found_error rtype))"

definition assertPrincipalReachable :: "elevation_db \<Rightarrow> string \<Rightarrow> string \<Rightarrow> string \<Rightarrow> unit js_result" where
  "assertPrincipalReachable db ptype key ws =
     (if ptype = ''user'' then need (user_in_workspace db key ws) (not_found_error ''user'')
      else need (list_ex (\<lambda>a. fst a = key \<and> project_in_workspace db (fst (snd a)) ws \<and> \<not> snd (snd a)) (ev_accounts db))
             (not_found_error ''service account''))"

text \<open>Both guards of the router: an active project, then the permission of the route.\<close>

definition acl_gate :: "elevation_db \<Rightarrow> nat \<Rightarrow> principal \<Rightarrow> unit js_result" where
  "acl_gate db now u =
     res_bind (need (pr_proj u \<noteq> []) (forbidden_error ''no active project - supply X-Project-Id header or switch project''
                 (JObj [(''need'', JStr ''projectId'')]))) (\<lambda>_. gate db now u ''resource_grant.write'')"

definition acl_key :: "resource_grant \<Rightarrow> string \<times> string \<times> string \<times> string" where
  "acl_key g = (sg_type g, sg_resource g, sg_ptype g, sg_principal g)"

definition acl_create :: "nat \<Rightarrow> string \<Rightarrow> principal \<Rightarrow> js \<Rightarrow> elevation_db \<Rightarrow> js js_result \<times> elevation_db" where
  "acl_create now key u body db =
     (let rt = js_get body ''resourceType''; rid = js_get body ''resourceId''; pt = js_get body ''principalType''; pid = js_get body ''principalId'' in
      write_checked
        (res_bind (acl_gate db now u) (\<lambda>_.
         res_bind (need (one_of RESOURCE_TYPES rt) (invalid (''resourceType must be one of: '' @ join_str '', '' RESOURCE_TYPES))) (\<lambda>_.
         res_bind (need (one_of PRINCIPAL_TYPES pt) (invalid (''principalType must be one of: '' @ join_str '', '' PRINCIPAL_TYPES))) (\<lambda>_.
         res_bind (need (truthy rid) (invalid ''resourceId is required'')) (\<lambda>_.
         res_bind (need (truthy pid) (invalid ''principalId is required'')) (\<lambda>_.
         res_bind (acl_perms (js_string rt) (js_get body ''permissions'')) (\<lambda>ps.
         res_bind (need (ps \<noteq> []) (invalid ''at least one permission is required'')) (\<lambda>_.
         res_bind (assertResourceInProject db (js_string rt) (js_string rid) (pr_proj u)) (\<lambda>_.
         res_bind (assertPrincipalReachable db (js_string pt) (js_string pid) (pr_ws u)) (\<lambda>_.
           let g = \<lparr>sg_type = js_string rt, sg_resource = js_string rid, sg_ptype = js_string pt, sg_principal = js_string pid, sg_perms = ps\<rparr> in
           res_bind (need (\<not> list_ex (\<lambda>x. acl_key (ac_grant x) = acl_key g) (ev_acl db))
             (conflict_error ''a grant for this principal already exists on this resource - use PUT to update its permissions'' JUndef)) (\<lambda>_.
           res_bind (granting_user db u) (\<lambda>_. Inr g))))))))))))
        (\<lambda>g. (JObj [(''id'', JStr key), (''permissions'', JArr (map JStr (sg_perms g)))],
           db\<lparr>ev_acl := ev_acl db @ [\<lparr>ac_id = key, ac_grant = g, ac_by = pr_id u\<rparr>]\<rparr>)) db)"

definition loadGrant :: "elevation_db \<Rightarrow> string \<Rightarrow> resource_grant js_result" where
  "loadGrant db key = (case find (\<lambda>x. ac_id x = key) (ev_acl db) of Some x \<Rightarrow> Inr (ac_grant x) | None \<Rightarrow> Inl (not_found_error ''resource grant''))"

definition acl_update :: "nat \<Rightarrow> string \<Rightarrow> principal \<Rightarrow> js \<Rightarrow> elevation_db \<Rightarrow> js js_result \<times> elevation_db" where
  "acl_update now key u body db =
     write_checked
       (res_bind (acl_gate db now u) (\<lambda>_. res_bind (loadGrant db key) (\<lambda>g.
        res_bind (assertResourceInProject db (sg_type g) (sg_resource g) (pr_proj u)) (\<lambda>_.
        res_bind (acl_perms (sg_type g) (js_get body ''permissions'')) (\<lambda>ps.
        res_bind (need (ps \<noteq> []) (invalid ''permissions cannot be empty (use DELETE to revoke entirely)'')) (\<lambda>_. Inr ps))))))
       (\<lambda>ps. (JObj [(''id'', JStr key), (''permissions'', JArr (map JStr ps))],
          db\<lparr>ev_acl := map (\<lambda>x. if ac_id x = key then x\<lparr>ac_grant := (ac_grant x)\<lparr>sg_perms := ps\<rparr>\<rparr> else x) (ev_acl db)\<rparr>)) db"

definition acl_delete :: "nat \<Rightarrow> string \<Rightarrow> principal \<Rightarrow> elevation_db \<Rightarrow> js js_result \<times> elevation_db" where
  "acl_delete now key u db =
     write_checked
       (res_bind (acl_gate db now u) (\<lambda>_. res_bind (loadGrant db key) (\<lambda>g.
        assertResourceInProject db (sg_type g) (sg_resource g) (pr_proj u))))
       (\<lambda>_. (JObj [(''id'', JStr key), (''revoked'', JBool True)], db\<lparr>ev_acl := filter (\<lambda>x. ac_id x \<noteq> key) (ev_acl db)\<rparr>)) db"



section \<open>Requests\<close>

datatype elevation_op =
    IssueJit string js | RevokeJit string
  | CreateRole string js | UpdateRole string js | DeleteRole string
  | GrantRole string string js | RevokeRole string string
  | CreateAcl string js | UpdateAcl string js | DeleteAcl string

fun elevation_exec :: "nat \<Rightarrow> principal \<Rightarrow> elevation_op \<Rightarrow> elevation_db \<Rightarrow> js js_result \<times> elevation_db" where
  "elevation_exec now u (IssueJit key body) db = jit_issue now key u body db"
| "elevation_exec now u (RevokeJit key) db = jit_revoke now key u db"
| "elevation_exec now u (CreateRole key body) db = role_create now key u body db"
| "elevation_exec now u (UpdateRole key body) db = role_update now key u body db"
| "elevation_exec now u (DeleteRole key) db = role_delete now key u db"
| "elevation_exec now u (GrantRole role key body) db = grant_role now role key u body db"
| "elevation_exec now u (RevokeRole role key) db = role_revoke now role key u db"
| "elevation_exec now u (CreateAcl key body) db = acl_create now key u body db"
| "elevation_exec now u (UpdateAcl key body) db = acl_update now key u body db"
| "elevation_exec now u (DeleteAcl key) db = acl_delete now key u db"



section \<open>The writes of the handlers\<close>

named_theorems handler_simps "a handler whose checks are decided"

lemma write_checked_simps [handler_simps]:
  "write_checked (Inl e) f db = (Inl e, db)" "write_checked (Inr x) f db = (Inr (fst (f x)), snd (f x))"
  by (simp_all add: write_checked_def)

lemma need_simps [handler_simps]: "need True e = Inr ()" "need False e = Inl e"
  by (simp_all add: need_def)

lemma need_Inr: "need b e = Inr x \<longleftrightarrow> b"
  by (simp add: need_def)




section \<open>Elevations are time-boxed\<close>



lemma auth_of_jit [simp]:
  "auth_of (db\<lparr>ev_jit := rows\<rparr>) = (auth_of db)\<lparr>ad_jit := map jr_grant rows\<rparr>"
  by (simp add: auth_of_def)









section \<open>Nobody elevates himself\<close>






















section \<open>Runs\<close>

definition boss :: principal where
  "boss = \<lparr>pr_id = ''boss'', pr_kind = ''user'', pr_role = ''admin'', pr_ws = ''ws'', pr_proj = ''p1''\<rparr>"

definition pat :: principal where
  "pat = \<lparr>pr_id = ''pat'', pr_kind = ''user'', pr_role = ''editor'', pr_ws = ''ws'', pr_proj = ''p1''\<rparr>"

definition eve :: principal where
  "eve = \<lparr>pr_id = ''eve'', pr_kind = ''user'', pr_role = ''viewer'', pr_ws = ''ws'', pr_proj = ''p1''\<rparr>"

text \<open>A workspace admin, an admin of one project, and a viewer there; eve holds the role \<open>ops\<close> in the whole workspace.\<close>

definition sample_elevations :: elevation_db where
  "sample_elevations =
     \<lparr>ev_ws_members = [(''boss'', ''ws'', ''admin''), (''pat'', ''ws'', ''editor''), (''eve'', ''ws'', ''viewer'')],
      ev_users = [(''boss'', ''ws'', ''admin''), (''pat'', ''ws'', ''editor''), (''eve'', ''ws'', ''viewer'')],
      ev_proj_members = [(''pat'', ''p1'', ''admin''), (''eve'', ''p1'', ''viewer'')],
      ev_projects = [(''p1'', ''ws''), (''p2'', ''ws'')], ev_resources = [((''workflow'', ''w1''), Some ''p1'')], ev_accounts = [], ev_jit = [],
      ev_roles = [\<lparr>cr_id = ''ops'', cr_ws = ''ws'', cr_name = ''ops'', cr_description = JNull, cr_perms = [''workflow.run'']\<rparr>,
                  \<lparr>cr_id = ''roles'', cr_ws = ''ws'', cr_name = ''roles'', cr_description = JNull, cr_perms = [''custom_role.create'']\<rparr>],
      ev_grants = [\<lparr>ge_id = ''g1'', ge_grant = \<lparr>rg_user = ''eve'', rg_scope_type = ''workspace'', rg_scope_id = ''ws'', rg_role = Some ''ops''\<rparr>, ge_by = ''boss''\<rparr>],
      ev_acl = []\<rparr>"

definition hour_as_admin :: js where
  "hour_as_admin = JObj [(''userId'', JStr ''eve''), (''scopeType'', JStr ''project''), (''scopeId'', JStr ''p1''), (''role'', JStr ''admin''),
     (''reason'', JStr ''failed batch''), (''durationMinutes'', JNum 60)]"

definition grant_body :: "string \<Rightarrow> string \<Rightarrow> string \<Rightarrow> js" where
  "grant_body user st scope = JObj [(''userId'', JStr user), (''scopeType'', JStr st), (''scopeId'', JStr scope)]"





text \<open>
  Two gaps.  The admin of one project may not make a grant for the whole workspace, but may revoke one:
  the revocation asks for custom_role.grant in the active project.  And the check for a grant in the
  whole workspace is made in the active project too, so the permission to create roles held in one
  project is enough.
\<close>

lemma project_admin_revokes_workspace_grants:
  "(case grant_role 5 ''ops'' ''g2'' pat (grant_body ''eve'' ''workspace'' ''ws'') sample_elevations of (Inl e, _) \<Rightarrow> e_status e = Some 403 | _ \<Rightarrow> False)
   \<and> (case role_revoke 5 ''ops'' ''g1'' pat sample_elevations of (Inr _, db') \<Rightarrow> ev_grants db' = [] | _ \<Rightarrow> False)"
  by code_simp

lemma project_role_grants_in_the_workspace:
  "(let (r, db1) = grant_role 5 ''roles'' ''g2'' pat (grant_body ''pat'' ''project'' ''p1'') sample_elevations;
        (r', db2) = grant_role 5 ''roles'' ''g3'' pat (grant_body ''pat'' ''workspace'' ''ws'') db1
    in \<not> may sample_elevations 5 pat ''custom_role.create'' [] \<and> may db2 5 (pat\<lparr>pr_proj := ''p2''\<rparr>) ''custom_role.create'' [])"
  by code_simp

text \<open>The table has no unique key, so a second grant of the same role in the same scope is stored, and revoking one leaves the other.\<close>

lemma duplicate_grant_survives_revocation:
  "(let (r, db1) = grant_role 5 ''ops'' ''g2'' boss (grant_body ''eve'' ''workspace'' ''ws'') sample_elevations;
        (r', db2) = role_revoke 5 ''ops'' ''g1'' boss db1
    in map ge_id (ev_grants db2) = [''g2''] \<and> may db2 5 eve ''workflow.run'' [])"
  by code_simp


section \<open>Only workspace admins hold everything\<close>

definition no_universal :: "elevation_db \<Rightarrow> bool" where
  "no_universal db \<longleftrightarrow> list_all (\<lambda>r. ALL_PERM \<notin> set (cr_perms r)) (ev_roles db) \<and> list_all (\<lambda>x. ALL_PERM \<notin> set (sg_perms (ac_grant x))) (ev_acl db)"

lemma normalize_checked:
  "normalize_perms check ps out = Inr ps' \<Longrightarrow> (\<And>p. check p = Inr () \<Longrightarrow> P p) \<Longrightarrow> list_all P out \<Longrightarrow> list_all P ps'"
  by (induction check ps out rule: normalize_perms.induct) (auto split: sum.splits if_splits)

lemma known_not_universal: "ALL_PERM \<notin> set KNOWN_PERMS" "ALL_PERM \<notin> set RESOURCE_GRANTABLE_PERMS"
  by (simp_all add: KNOWN_PERMS_def listPermissionCatalog_def PERMISSION_CATALOG_def ALL_PERM_def RESOURCE_GRANTABLE_PERMS_def)

lemma normalize_plain:
  assumes "normalize_perms check ps [] = Inr ps'" and "\<And>p. check p = Inr () \<Longrightarrow> p \<in> set known" and "ALL_PERM \<notin> set known"
  shows "ALL_PERM \<notin> set ps'"
proof -
  have "list_all (\<lambda>p. p \<in> set known) ps'" by (rule normalize_checked [OF assms(1)]) (simp_all add: assms(2))
  then show ?thesis using assms(3) by (auto simp: list_all_iff)
qed

lemma role_perms_plain: "role_perms v = Inr ps \<Longrightarrow> ALL_PERM \<notin> set ps"
proof (cases v)
  case (JArr vs)
  assume "role_perms v = Inr ps"
  then show ?thesis unfolding role_perms_def JArr js.case
    by (rule normalize_plain [OF _ _ known_not_universal(1)]) (simp add: need_Inr)
qed (simp_all add: role_perms_def)

lemma acl_perms_plain: "acl_perms rt v = Inr ps \<Longrightarrow> ALL_PERM \<notin> set ps"
proof (cases v)
  case (JArr vs)
  assume "acl_perms rt v = Inr ps"
  then show ?thesis unfolding acl_perms_def JArr js.case
    by (rule normalize_plain [OF _ _ known_not_universal(2)]) (simp add: acl_perm_check_def Let_def res_bind_eq_Inr need_Inr)
qed (simp_all add: acl_perms_def)

lemma no_universal_jit: "no_universal (db\<lparr>ev_jit := rows\<rparr>) = no_universal db"
  by (simp add: no_universal_def)

lemma loadRole_in: "loadRole db key ws = Inr r \<Longrightarrow> r \<in> set (ev_roles db)"
  by (auto simp: loadRole_def find_Some_iff split: option.splits)

lemma updated_role_plain: "updated_role db r body = Inr r' \<Longrightarrow> ALL_PERM \<notin> set (cr_perms r) \<Longrightarrow> ALL_PERM \<notin> set (cr_perms r')"
  by (auto simp: updated_role_def res_bind_eq_Inr Let_def dest: role_perms_plain split: if_splits)

text \<open>No request brings the universal permission into a role or a grant.\<close>

lemma exec_no_universal:
  assumes "no_universal db"
  shows "no_universal (snd (elevation_exec now u op db))"
proof (cases op)
  case (IssueJit key body)
  then show ?thesis using assms by (auto simp: jit_issue_def write_checked_def no_universal_jit split: sum.splits)
next
  case (RevokeJit key)
  then show ?thesis using assms by (auto simp: jit_revoke_def write_checked_def no_universal_jit split: sum.splits)
next
  case (CreateRole key body)
  then show ?thesis using assms
    by (auto simp: role_create_def write_checked_def no_universal_def res_bind_eq_Inr Let_def dest: role_perms_plain split: sum.splits)
next
  case (UpdateRole key body)
  then show ?thesis using assms
    by (auto simp: role_update_def write_checked_def no_universal_def res_bind_eq_Inr list_all_iff dest!: loadRole_in
        dest: updated_role_plain split: sum.splits)
next
  case (DeleteRole key)
  then show ?thesis using assms by (auto simp: role_delete_def write_checked_def no_universal_def list_all_iff split: sum.splits)
next
  case (GrantRole role key body)
  then show ?thesis using assms by (auto simp: grant_role_def write_checked_def no_universal_def Let_def split: sum.splits)
next
  case (RevokeRole role key)
  then show ?thesis using assms by (auto simp: role_revoke_def write_checked_def no_universal_def split: sum.splits)
next
  case (CreateAcl key body)
  then show ?thesis using assms
    by (auto simp: acl_create_def write_checked_def no_universal_def res_bind_eq_Inr Let_def dest: acl_perms_plain split: sum.splits)
next
  case (UpdateAcl key body)
  then show ?thesis using assms
    by (auto simp: acl_update_def write_checked_def no_universal_def res_bind_eq_Inr list_all_iff dest: acl_perms_plain split: sum.splits)
next
  case (DeleteAcl key)
  then show ?thesis using assms by (auto simp: acl_delete_def write_checked_def no_universal_def list_all_iff split: sum.splits)
qed

lemma no_universal_resolves:
  assumes "no_universal db" and "pr_kind q \<noteq> ''service_account''" and "getWorkspaceMembership (auth_of db) (pr_id q) (pr_ws q) \<noteq> Some ''admin''"
  shows "ALL_PERM \<notin> set (resolveEffectivePermissions (auth_of db) now (Some q) projectId rt rid)"
proof -
  have b: "ALL_PERM \<notin> set (BUILTIN_ROLE_PERMS r)" for r
    using editor_not_universal by (simp add: BUILTIN_ROLE_PERMS_def)
  have "ALL_PERM \<notin> set (customRolePerms (auth_of db) u w p)" for u w p
    using assms(1) by (auto simp: customRolePerms_def auth_of_def no_universal_def list_all_iff split: option.splits)
  moreover have "ALL_PERM \<notin> set (jitPerms (auth_of db) now u w p)" for u w p
    using b by (auto simp: jitPerms_def)
  moreover have "ALL_PERM \<notin> set (resourcePerms (auth_of db) t i rt rid)" for t i
    using assms(1) by (auto simp: resourcePerms_def auth_of_def no_universal_def list_all_iff)
  ultimately show ?thesis using assms(2,3) b by (auto simp: resolveEffectivePermissions_def Let_def split: option.splits)
qed


definition after_requests :: "(nat \<times> principal \<times> elevation_op) list \<Rightarrow> elevation_db \<Rightarrow> elevation_db" where
  "after_requests reqs db = fold (\<lambda>(now, u, op) db. snd (elevation_exec now u op db)) reqs db"

text \<open>C35.  Only workspace admins hold everything: from tables whose roles and resource grants do not contain the
  universal permission, no sequence of requests of any principals, admins included, brings it to a
  user who is not an admin of his workspace; custom roles, elevations and resource grants cannot carry it.\<close>

theorem only_admins_hold_everything:
  assumes "no_universal db" and "pr_kind q \<noteq> ''service_account''"
    and "getWorkspaceMembership (auth_of (after_requests reqs db)) (pr_id q) (pr_ws q) \<noteq> Some ''admin''"
  shows "ALL_PERM \<notin> set (resolveEffectivePermissions (auth_of (after_requests reqs db)) now (Some q) projectId rt rid)"
proof -
  have "no_universal (after_requests reqs db)"
    using assms(1) by (induction reqs arbitrary: db) (auto simp: after_requests_def exec_no_universal)
  then show ?thesis by (rule no_universal_resolves [OF _ assms(2,3)])
qed

theorem only_admins_hold_everything_witness:
  "ALL_PERM \<notin> set (resolveEffectivePermissions
     (auth_of (after_requests [(5, boss, IssueJit ''j1'' hour_as_admin), (6, boss, GrantRole ''roles'' ''g2'' (grant_body ''eve'' ''workspace'' ''ws''))] sample_elevations))
     7 (Some eve) ''p1'' [] [])"
  by (rule only_admins_hold_everything; code_simp)

end
