(* ===== verification/Users.thy ===== *)
theory Users
  imports AuthMiddleware
begin

text \<open>
  User administration (\<open>api/users.js\<close>) and the switch between workspaces (\<open>api/workspaces.js\<close>), on the rows
  of \<open>users\<close>, \<open>workspace_members\<close> and \<open>refresh_tokens\<close>.  A handler checks with some statements and writes with
  others, without a transaction; both halves are definitions, so that two requests can overlap.  New ids
  and the moment are arguments; the listings and the audit rows are left out.
\<close>

record user_db =
  ub_session :: session_db
  ub_display :: "(string, js) omap"
  ub_members :: "(string \<times> string \<times> string) list"     \<comment> \<open>user, workspace, role\<close>
  ub_workspaces :: "(string, string) omap"             \<comment> \<open>id, name\<close>

definition ub_users :: "user_db \<Rightarrow> user_row list" where
  "ub_users db = sd_users (ub_session db)"

definition put_users :: "user_row list \<Rightarrow> user_db \<Rightarrow> user_db" where
  "put_users us db = db\<lparr>ub_session := (ub_session db)\<lparr>sd_users := us\<rparr>\<rparr>"

definition revoke_sessions :: "nat \<Rightarrow> string \<Rightarrow> user_db \<Rightarrow> user_db" where
  "revoke_sessions now user db =
     db\<lparr>ub_session := (ub_session db)\<lparr>sd_tokens := snd (revokeAllForUser now user (sd_tokens (ub_session db)))\<rparr>\<rparr>"

definition ROLES :: "string list" where "ROLES = [''admin'', ''editor'', ''viewer'']"

definition STATUSES :: "string list" where "STATUSES = [''active'', ''disabled'']"

definition user_check :: "bool \<Rightarrow> js_error \<Rightarrow> unit js_result" where
  "user_check b e = (if b then Inr () else Inl e)"

definition refused :: "string \<Rightarrow> js_error" where
  "refused m = forbidden_error m JUndef"

definition wrong :: "string \<Rightarrow> js_error" where
  "wrong m = validation_error m JUndef"


section \<open>Checks\<close>

text \<open>\<open>EMAIL_RE\<close>: no white space, one at sign, something before it, and a full stop inside what follows.\<close>

definition email_ok :: "string \<Rightarrow> bool" where
  "email_ok s =
     (let name = takeWhile (\<lambda>c. c \<noteq> CHR ''@'') s; dom = drop (Suc (length name)) s in
      name \<noteq> [] \<and> list_all (\<lambda>c. \<not> is_space c) s \<and> CHR ''@'' \<notin> set dom \<and> CHR ''.'' \<in> set (butlast (drop 1 dom)))"

definition validateEmail :: "js \<Rightarrow> unit js_result" where
  "validateEmail v = user_check (case v of JStr s \<Rightarrow> email_ok (trim s) | _ \<Rightarrow> False) (wrong ''a valid email is required'')"

definition role_listed :: "string list \<Rightarrow> js \<Rightarrow> bool" where
  "role_listed xs v = (case v of JStr s \<Rightarrow> s \<in> set xs | _ \<Rightarrow> False)"

definition validateRole :: "js \<Rightarrow> unit js_result" where
  "validateRole v = user_check (role_listed ROLES v) (wrong (''role must be one of '' @ join_str '', '' ROLES))"

definition long_password :: "js \<Rightarrow> unit js_result" where
  "long_password v = user_check (case v of JStr s \<Rightarrow> 8 \<le> length s | _ \<Rightarrow> False) (wrong ''password must be at least 8 characters'')"

definition load_user :: "user_db \<Rightarrow> string \<Rightarrow> string \<Rightarrow> user_row js_result" where
  "load_user db key ws =
     (case find (\<lambda>x. us_id x = key \<and> us_ws x = ws) (ub_users db) of Some x \<Rightarrow> Inr x | None \<Rightarrow> Inl (not_found_error ''user''))"

definition active_admin :: "string \<Rightarrow> user_row \<Rightarrow> bool" where
  "active_admin ws x \<longleftrightarrow> us_ws x = ws \<and> us_role x = ''admin'' \<and> us_status x = ''active''"

definition countOtherActiveAdmins :: "user_db \<Rightarrow> string \<Rightarrow> string \<Rightarrow> nat" where
  "countOtherActiveAdmins db ws key = length (filter (\<lambda>x. active_admin ws x \<and> us_id x \<noteq> key) (ub_users db))"

definition admin_only :: "principal \<Rightarrow> unit js_result" where
  "admin_only u = requireRole [''admin''] (Some u)"


section \<open>Handlers\<close>

definition user_create :: "auth_env \<Rightarrow> string \<Rightarrow> principal \<Rightarrow> js \<Rightarrow> user_db \<Rightarrow> js js_result \<times> user_db" where
  "user_create env key u body db =
     (let email = js_get body ''email''; password = js_get body ''password'';
          role = (if js_get body ''role'' = JUndef then JStr ''editor'' else js_get body ''role'');
          shown = js_get body ''displayName'' in
      case res_bind (admin_only u) (\<lambda>_. res_bind (validateEmail email) (\<lambda>_. res_bind (validateRole role) (\<lambda>_.
           res_bind (long_password password) (\<lambda>_. res_bind (pw_hash (ae_bcrypt env) (js_string password)) (\<lambda>h.
           res_bind (user_check (\<not> list_ex (\<lambda>x. us_id x = key \<or> lower_str (us_email x) = lower_str (js_string email)) (ub_users db))
                       (wrong (''a user with email '' @ quoted (js_string email) @ '' already exists''))) (\<lambda>_. Inr h)))))) of
        Inl e \<Rightarrow> (Inl e, db)
      | Inr h \<Rightarrow>
          (Inr (JObj [(''id'', JStr key), (''email'', JStr (lower_str (js_string email))), (''role'', role)]),
           (put_users (ub_users db @ [\<lparr>us_id = key, us_email = lower_str (js_string email), us_role = js_string role, us_ws = pr_ws u,
               us_status = ''active'', us_hash = h, us_lastLogin = None\<rparr>]) db)
             \<lparr>ub_members := (if list_ex (\<lambda>m. fst m = key \<and> fst (snd m) = pr_ws u) (ub_members db) then ub_members db
                              else ub_members db @ [(key, pr_ws u, js_string role)]),
              ub_display := oset key (js_nullish shown JNull) (ub_display db)\<rparr>))"

definition update_check :: "user_db \<Rightarrow> principal \<Rightarrow> string \<Rightarrow> js \<Rightarrow> user_row js_result" where
  "update_check db u key body =
     (let role = js_get body ''role''; status = js_get body ''status'' in
      res_bind (admin_only u) (\<lambda>_. res_bind (load_user db key (pr_ws u)) (\<lambda>x.
      res_bind (user_check (\<not> (us_id x = pr_id u \<and> (role \<noteq> JUndef \<or> status \<noteq> JUndef))) (refused ''you cannot change your own role or status'')) (\<lambda>_.
      res_bind (if role = JUndef then Inr () else validateRole role) (\<lambda>_.
      res_bind (user_check (status = JUndef \<or> role_listed STATUSES status) (wrong (''status must be one of '' @ join_str '', '' STATUSES))) (\<lambda>_.
      res_bind (user_check (\<not> (us_role x = ''admin'' \<and> (role \<noteq> JUndef \<and> role \<noteq> JStr ''admin'' \<or> status = JStr ''disabled'')
                              \<and> countOtherActiveAdmins db (pr_ws u) (us_id x) = 0))
                  (refused ''cannot demote or disable the last active admin in this workspace'')) (\<lambda>_. Inr x)))))))"

definition changed_row :: "js \<Rightarrow> user_row \<Rightarrow> user_row" where
  "changed_row body x =
     x\<lparr>us_role := (if js_get body ''role'' = JUndef then us_role x else js_string (js_get body ''role'')),
       us_status := (if js_get body ''status'' = JUndef then us_status x else js_string (js_get body ''status''))\<rparr>"

definition update_write :: "nat \<Rightarrow> principal \<Rightarrow> string \<Rightarrow> js \<Rightarrow> user_db \<Rightarrow> js \<times> user_db" where
  "update_write now u key body db =
     (if js_get body ''role'' = JUndef \<and> js_get body ''status'' = JUndef \<and> js_get body ''displayName'' = JUndef
      then (JObj [(''id'', JStr key), (''updated'', JBool False)], db)
      else (JObj [(''id'', JStr key), (''updated'', JBool True)],
        let db1 = (put_users (map (\<lambda>x. if us_id x = key \<and> us_ws x = pr_ws u then changed_row body x else x) (ub_users db)) db)
              \<lparr>ub_display := (if js_get body ''displayName'' = JUndef then ub_display db else oset key (js_get body ''displayName'') (ub_display db))\<rparr>
        in if js_get body ''status'' = JStr ''disabled'' then revoke_sessions now key db1 else db1))"

definition user_update :: "nat \<Rightarrow> principal \<Rightarrow> string \<Rightarrow> js \<Rightarrow> user_db \<Rightarrow> js js_result \<times> user_db" where
  "user_update now u key body db =
     (case update_check db u key body of
        Inl e \<Rightarrow> (Inl e, db)
      | Inr x \<Rightarrow> (let (out, db') = update_write now u key body db in (Inr out, db')))"

definition user_password :: "auth_env \<Rightarrow> nat \<Rightarrow> principal \<Rightarrow> string \<Rightarrow> js \<Rightarrow> user_db \<Rightarrow> js js_result \<times> user_db" where
  "user_password env now u key body db =
     (case res_bind (admin_only u) (\<lambda>_. res_bind (long_password (js_get body ''password'')) (\<lambda>_. res_bind (load_user db key (pr_ws u)) (\<lambda>x.
             pw_hash (ae_bcrypt env) (js_string (js_get body ''password''))))) of
        Inl e \<Rightarrow> (Inl e, db)
      | Inr h \<Rightarrow> (Inr (JObj [(''id'', JStr key), (''passwordReset'', JBool True)]),
          revoke_sessions now key (put_users (map (\<lambda>x. if us_id x = key \<and> us_ws x = pr_ws u then x\<lparr>us_hash := h\<rparr> else x) (ub_users db)) db)))"

definition delete_check :: "user_db \<Rightarrow> principal \<Rightarrow> string \<Rightarrow> user_row js_result" where
  "delete_check db u key =
     res_bind (admin_only u) (\<lambda>_. res_bind (load_user db key (pr_ws u)) (\<lambda>x.
     res_bind (user_check (us_id x \<noteq> pr_id u) (refused ''you cannot disable your own account'')) (\<lambda>_.
     res_bind (user_check (\<not> (us_role x = ''admin'' \<and> countOtherActiveAdmins db (pr_ws u) (us_id x) = 0))
                 (refused ''cannot disable the last active admin'')) (\<lambda>_. Inr x))))"

definition delete_write :: "nat \<Rightarrow> principal \<Rightarrow> string \<Rightarrow> user_db \<Rightarrow> js \<times> user_db" where
  "delete_write now u key db =
     (JObj [(''id'', JStr key), (''disabled'', JBool True)],
      revoke_sessions now key (put_users (map (\<lambda>x. if us_id x = key \<and> us_ws x = pr_ws u then x\<lparr>us_status := ''disabled''\<rparr> else x) (ub_users db)) db))"

definition user_delete :: "nat \<Rightarrow> principal \<Rightarrow> string \<Rightarrow> user_db \<Rightarrow> js js_result \<times> user_db" where
  "user_delete now u key db =
     (case delete_check db u key of Inl e \<Rightarrow> (Inl e, db) | Inr x \<Rightarrow> (let (out, db') = delete_write now u key db in (Inr out, db')))"


section \<open>Workspaces\<close>

definition callerBelongsTo :: "user_db \<Rightarrow> string \<Rightarrow> string \<Rightarrow> bool" where
  "callerBelongsTo db user ws =
     (list_ex (\<lambda>x. us_id x = user \<and> us_ws x = ws) (ub_users db) \<or> list_ex (\<lambda>m. fst m = user \<and> fst (snd m) = ws) (ub_members db))"

text \<open>The caller's role in the target workspace, as the handler reads it.\<close>

definition role_there :: "user_db \<Rightarrow> principal \<Rightarrow> string \<Rightarrow> string" where
  "role_there db u ws =
     (case find (\<lambda>x. us_id x = pr_id u) (ub_users db) of
        None \<Rightarrow> pr_role u
      | Some x \<Rightarrow> (case find_role (ub_members db) (pr_id u) ws of Some r \<Rightarrow> r | None \<Rightarrow> us_role x))"

text \<open>The claims of the new access token; the session rows are left alone.\<close>

definition workspace_switch :: "user_db \<Rightarrow> principal \<Rightarrow> string \<Rightarrow> string \<Rightarrow> claims js_result" where
  "workspace_switch db u email ws =
     (if \<not> callerBelongsTo db (pr_id u) ws then Inl (not_found_error ''workspace'')
      else Inr \<lparr>cl_sub = pr_id u, cl_email = email, cl_role = role_there db u ws, cl_ws = ws, cl_proj = None\<rparr>)"

definition workspace_rename :: "principal \<Rightarrow> string \<Rightarrow> js \<Rightarrow> user_db \<Rightarrow> js js_result \<times> user_db" where
  "workspace_rename u ws body db =
     (let name = js_get body ''name'' in
      case res_bind (admin_only u) (\<lambda>_. res_bind (user_check (ws = pr_ws u) (refused ''can only rename your active workspace'')) (\<lambda>_.
             user_check (case name of JStr s \<Rightarrow> trim s \<noteq> [] | _ \<Rightarrow> False) (wrong ''name is required''))) of
        Inl e \<Rightarrow> (Inl e, db)
      | Inr _ \<Rightarrow> (Inr (JObj [(''id'', JStr ws), (''renamed'', JBool True)]),
          db\<lparr>ub_workspaces := (case oget (ub_workspaces db) ws of None \<Rightarrow> ub_workspaces db | Some _ \<Rightarrow> oset ws (trim (js_string name)) (ub_workspaces db))\<rparr>))"



section \<open>A workspace keeps an admin\<close>

datatype user_request = CreateUser string js | UpdateUser string js | ResetPassword string js | DeleteUser string

fun user_exec :: "auth_env \<Rightarrow> nat \<Rightarrow> principal \<Rightarrow> user_request \<Rightarrow> user_db \<Rightarrow> js js_result \<times> user_db" where
  "user_exec env now u (CreateUser key body) db = user_create env key u body db"
| "user_exec env now u (UpdateUser key body) db = user_update now u key body db"
| "user_exec env now u (ResetPassword key body) db = user_password env now u key body db"
| "user_exec env now u (DeleteUser key) db = user_delete now u key db"

inductive user_requests :: "auth_env \<Rightarrow> user_db \<Rightarrow> user_db \<Rightarrow> bool" for env where
  none: "user_requests env db db"
| more: "user_requests env db db'' " if "user_requests env db db'" and "snd (user_exec env now u req db') = db''"

definition has_admin :: "string \<Rightarrow> user_db \<Rightarrow> bool" where
  "has_admin ws db \<longleftrightarrow> list_ex (active_admin ws) (ub_users db)"

definition one_row_each :: "user_db \<Rightarrow> bool" where
  "one_row_each db \<longleftrightarrow> distinct (map us_id (ub_users db))"

lemma put_users_frame [simp]:
  "ub_users (put_users us db) = us" "ub_members (put_users us db) = ub_members db"
  "ub_users (revoke_sessions now user db) = ub_users db" "ub_members (revoke_sessions now user db) = ub_members db"
  "ub_users (db\<lparr>ub_display := d\<rparr>) = ub_users db" "ub_users (db\<lparr>ub_members := m\<rparr>) = ub_users db"
  by (simp_all add: put_users_def ub_users_def revoke_sessions_def)

lemma user_check_Inr [simp]: "user_check b e = Inr x \<longleftrightarrow> b"
  by (simp add: user_check_def)

text \<open>A write to one row of one workspace.\<close>

definition on_row :: "string \<Rightarrow> string \<Rightarrow> (user_row \<Rightarrow> user_row) \<Rightarrow> user_row list \<Rightarrow> user_row list" where
  "on_row key ws f = map (\<lambda>x. if us_id x = key \<and> us_ws x = ws then f x else x)"

lemma on_row_keeps_admin:
  assumes "list_ex (active_admin ws) us" and "distinct (map us_id us)" and "\<And>x. us_ws (f x) = us_ws x"
    and "ws = ws' \<Longrightarrow> (\<And>x. x \<in> set us \<Longrightarrow> us_id x = key \<Longrightarrow> active_admin ws' x \<Longrightarrow>
          active_admin ws' (f x) \<or> (\<exists>y \<in> set us. active_admin ws' y \<and> us_id y \<noteq> key))"
  shows "list_ex (active_admin ws) (on_row key ws' f us)"
proof -
  obtain x where x: "x \<in> set us" "active_admin ws x" using assms(1) by (auto simp: list_ex_iff)
  show ?thesis
  proof (cases "us_id x = key \<and> us_ws x = ws'")
    case False
    then show ?thesis using x by (force simp: on_row_def list_ex_iff)
  next
    case True
    then have ws: "ws = ws'" using x(2) by (simp add: active_admin_def)
    from assms(4) [OF ws x(1)] True x(2) ws consider "active_admin ws' (f x)" | y where "y \<in> set us" "active_admin ws' y" "us_id y \<noteq> key"
      by blast
    then show ?thesis
    proof cases
      case 1
      then show ?thesis using x(1) True ws by (force simp: on_row_def list_ex_iff)
    next
      case 2
      then show ?thesis using ws by (force simp: on_row_def list_ex_iff)
    qed
  qed
qed

lemma ids_on_row: "(\<And>x. us_id (f x) = us_id x) \<Longrightarrow> map us_id (on_row key ws f us) = map us_id us"
  by (simp add: on_row_def)

lemma others_counted: "countOtherActiveAdmins db ws key \<noteq> 0 \<longleftrightarrow> (\<exists>y \<in> set (ub_users db). active_admin ws y \<and> us_id y \<noteq> key)"
  by (auto simp: countOtherActiveAdmins_def filter_empty_conv)

lemma load_user_row:
  assumes "load_user db key ws = Inr x"
  shows "x \<in> set (ub_users db)" and "us_id x = key" and "us_ws x = ws"
  using assms by (auto simp: load_user_def find_Some_iff split: option.splits)

lemma same_row:
  "one_row_each db \<Longrightarrow> load_user db key ws = Inr x \<Longrightarrow> y \<in> set (ub_users db) \<Longrightarrow> us_id y = key \<Longrightarrow> y = x"
  using load_user_row [of db key ws x] by (metis distinct_map inj_onD one_row_each_def)

lemma update_users:
  "ub_users (snd (update_write now u key body db)) = ub_users db
   \<or> ub_users (snd (update_write now u key body db)) = on_row key (pr_ws u) (changed_row body) (ub_users db)"
  by (simp add: update_write_def Let_def on_row_def)

lemma delete_users:
  "ub_users (snd (delete_write now u key db)) = on_row key (pr_ws u) (\<lambda>x. x\<lparr>us_status := ''disabled''\<rparr>) (ub_users db)"
  by (simp add: delete_write_def on_row_def)

lemma password_users:
  "ub_users (snd (user_password env now u key body db)) = ub_users db
   \<or> (\<exists>h. ub_users (snd (user_password env now u key body db)) = on_row key (pr_ws u) (\<lambda>x. x\<lparr>us_hash := h\<rparr>) (ub_users db))"
  by (auto simp: user_password_def on_row_def split: sum.splits)

lemma create_users:
  "ub_users (snd (user_create env key u body db)) = ub_users db
   \<or> (\<exists>x. us_id x = key \<and> key \<notin> us_id ` set (ub_users db) \<and> ub_users (snd (user_create env key u body db)) = ub_users db @ [x])"
  by (auto simp: user_create_def Let_def res_bind_eq_Inr list_ex_iff split: sum.splits)

lemma changed_row_fields [simp]: "us_id (changed_row body x) = us_id x" "us_ws (changed_row body x) = us_ws x"
  by (simp_all add: changed_row_def)

lemma checked_update_safe:
  assumes "update_check db u key body = Inr x" and "active_admin (pr_ws u) x"
  shows "active_admin (pr_ws u) (changed_row body x) \<or> (\<exists>y \<in> set (ub_users db). active_admin (pr_ws u) y \<and> us_id y \<noteq> us_id x)"
proof -
  have c: "js_get body ''status'' = JUndef \<or> role_listed STATUSES (js_get body ''status'')"
    "\<not> (us_role x = ''admin'' \<and> (js_get body ''role'' \<noteq> JUndef \<and> js_get body ''role'' \<noteq> JStr ''admin'' \<or> js_get body ''status'' = JStr ''disabled'')
        \<and> countOtherActiveAdmins db (pr_ws u) (us_id x) = 0)"
    using assms(1) by (auto simp: update_check_def res_bind_eq_Inr Let_def)
  show ?thesis
  proof (cases "countOtherActiveAdmins db (pr_ws u) (us_id x) = 0")
    case True
    then have r: "js_get body ''role'' = JUndef \<or> js_get body ''role'' = JStr ''admin''" and st: "js_get body ''status'' \<noteq> JStr ''disabled''"
      using c(2) assms(2) by (auto simp: active_admin_def)
    have "js_get body ''status'' = JUndef \<or> js_get body ''status'' = JStr ''active''"
      using c(1) st by (auto simp: role_listed_def STATUSES_def split: js.splits)
    then show ?thesis using r assms(2) by (auto simp: active_admin_def changed_row_def)
  next
    case False
    then show ?thesis using others_counted by blast
  qed
qed

lemma step_keeps_admin:
  assumes "has_admin ws db" and "one_row_each db"
  shows "has_admin ws (snd (user_exec env now u req db)) \<and> one_row_each (snd (user_exec env now u req db))"
proof (cases req)
  case (CreateUser key body)
  then show ?thesis using assms create_users [of env key u body db] by (auto simp: has_admin_def one_row_each_def)
next
  case (ResetPassword key body)
  have "list_ex (active_admin ws) (on_row key (pr_ws u) (\<lambda>x. x\<lparr>us_hash := h\<rparr>) (ub_users db))" for h
    by (rule on_row_keeps_admin) (use assms in \<open>auto simp: has_admin_def one_row_each_def active_admin_def\<close>)
  then show ?thesis using assms password_users [of env now u key body db]
    by (auto simp: ResetPassword has_admin_def one_row_each_def ids_on_row)
next
  case (UpdateUser key body)
  show ?thesis
  proof (cases "update_check db u key body")
    case (Inl e)
    then show ?thesis using assms by (simp add: UpdateUser user_update_def)
  next
    case (Inr x)
    have load: "load_user db key (pr_ws u) = Inr x" using Inr by (auto simp: update_check_def res_bind_eq_Inr Let_def)
    have "list_ex (active_admin ws) (on_row key (pr_ws u) (changed_row body) (ub_users db))"
    proof (rule on_row_keeps_admin)
      fix y
      assume "y \<in> set (ub_users db)" "us_id y = key" "active_admin (pr_ws u) y"
      then show "active_admin (pr_ws u) (changed_row body y) \<or> (\<exists>z \<in> set (ub_users db). active_admin (pr_ws u) z \<and> us_id z \<noteq> key)"
        using same_row [OF assms(2) load] checked_update_safe [OF Inr] by metis
    qed (use assms in \<open>simp_all add: has_admin_def one_row_each_def\<close>)
    then show ?thesis using assms update_users [of now u key body db]
      by (auto simp: UpdateUser user_update_def Inr Let_def has_admin_def one_row_each_def ids_on_row split: prod.splits)
  qed
next
  case (DeleteUser key)
  show ?thesis
  proof (cases "delete_check db u key")
    case (Inl e)
    then show ?thesis using assms by (simp add: DeleteUser user_delete_def)
  next
    case (Inr x)
    have load: "load_user db key (pr_ws u) = Inr x" and c: "\<not> (us_role x = ''admin'' \<and> countOtherActiveAdmins db (pr_ws u) (us_id x) = 0)"
      using Inr by (auto simp: delete_check_def res_bind_eq_Inr)
    have "list_ex (active_admin ws) (on_row key (pr_ws u) (\<lambda>x. x\<lparr>us_status := ''disabled''\<rparr>) (ub_users db))"
    proof (rule on_row_keeps_admin)
      fix y
      assume y: "y \<in> set (ub_users db)" "us_id y = key" "active_admin (pr_ws u) y"
      then have "y = x" using same_row [OF assms(2) load] by blast
      then have "countOtherActiveAdmins db (pr_ws u) key \<noteq> 0" using c y by (simp add: active_admin_def)
      then show "active_admin (pr_ws u) (y\<lparr>us_status := ''disabled''\<rparr>) \<or> (\<exists>z \<in> set (ub_users db). active_admin (pr_ws u) z \<and> us_id z \<noteq> key)"
        using others_counted by blast
    qed (use assms in \<open>simp_all add: has_admin_def one_row_each_def\<close>)
    then show ?thesis using assms delete_users [of now u key db]
      by (auto simp: DeleteUser user_delete_def Inr Let_def has_admin_def one_row_each_def ids_on_row split: prod.splits)
  qed
qed

text \<open>C36.  The last admin (\<open>api/users.js\<close>): a workspace that has an active admin has one after any sequence of
  requests to the user endpoints, whoever sends them and whichever workspace is active for him, when
  the requests do not overlap.\<close>

theorem workspace_keeps_an_admin:
  assumes "user_requests env db db'" and "has_admin ws db" and "one_row_each db"
  shows "has_admin ws db'"
proof -
  have "has_admin ws db' \<and> one_row_each db'"
    using assms
  proof (induction rule: user_requests.induct)
    case (more db db' now u req db'')
    then show ?case using step_keeps_admin by blast
  qed simp
  then show ?thesis by blast
qed


text \<open>Two admins of one workspace, one of whom is a viewer in another.\<close>

definition person :: "string \<Rightarrow> string \<Rightarrow> string \<Rightarrow> user_row" where
  "person key role ws = \<lparr>us_id = key, us_email = key @ ''@b.co'', us_role = role, us_ws = ws, us_status = ''active'', us_hash = ''pw'',
     us_lastLogin = None\<rparr>"

definition caller :: "string \<Rightarrow> string \<Rightarrow> string \<Rightarrow> principal" where
  "caller key role ws = \<lparr>pr_id = key, pr_kind = ''user'', pr_role = role, pr_ws = ws, pr_proj = []\<rparr>"

definition two_admins :: user_db where
  "two_admins = \<lparr>ub_session = \<lparr>sd_users = [person ''ann'' ''admin'' ''w'', person ''bob'' ''admin'' ''w'', person ''cat'' ''editor'' ''v''], sd_tokens = []\<rparr>,
     ub_display = [], ub_members = [(''ann'', ''v'', ''viewer'')], ub_workspaces = [(''w'', ''Team''), (''v'', ''Other'')]\<rparr>"

theorem workspace_keeps_an_admin_witness:
  "has_admin ''w'' (snd (user_exec plain_sha 5 (caller ''ann'' ''admin'' ''w'') (DeleteUser ''bob'') two_admins))"
  by (rule workspace_keeps_an_admin [OF user_requests.more [OF user_requests.none refl]]; code_simp)

text \<open>The check and the write are separate statements: when two admins disable each other at the same time, both
  checks pass, and nobody is left to administer the workspace.\<close>

lemma overlapping_requests_leave_no_admin:
  "delete_check two_admins (caller ''ann'' ''admin'' ''w'') ''bob'' = Inr (person ''bob'' ''admin'' ''w'')
   \<and> delete_check two_admins (caller ''bob'' ''admin'' ''w'') ''ann'' = Inr (person ''ann'' ''admin'' ''w'')
   \<and> \<not> has_admin ''w'' (snd (delete_write 6 (caller ''bob'' ''admin'' ''w'') ''ann''
         (snd (delete_write 5 (caller ''ann'' ''admin'' ''w'') ''bob'' two_admins))))"
  by code_simp


section \<open>What a demotion leaves\<close>

text \<open>The resolver's view of the rows.\<close>

definition auth_view :: "auth_db \<Rightarrow> user_db \<Rightarrow> auth_db" where
  "auth_view adb db = adb\<lparr>ad_users := map (\<lambda>x. (us_id x, us_ws x, us_role x)) (ub_users db), ad_ws_members := ub_members db\<rparr>"

lemma find_role_append: "find_role rows a b = Some r \<Longrightarrow> find_role (rows @ more_rows) a b = Some r"
  by (induction rows) (auto simp: find_role_def split: if_splits)

lemma find_role_new: "\<not> list_ex (\<lambda>m. fst m = a) rows \<Longrightarrow> find_role (rows @ [(a, b, r)]) a b = Some r"
  by (induction rows) (auto simp: find_role_def)

lemma exec_members:
  "find_role (ub_members db) a b = Some r \<Longrightarrow> find_role (ub_members (snd (user_exec env now u req db))) a b = Some r"
  by (cases req)
    (auto simp: user_create_def user_update_def user_password_def user_delete_def update_write_def delete_write_def Let_def find_role_append
      split: sum.splits)

lemma requests_members:
  "user_requests env db db' \<Longrightarrow> find_role (ub_members db) a b = Some r \<Longrightarrow> find_role (ub_members db') a b = Some r"
  by (induction rule: user_requests.induct) (auto intro: exec_members)

lemma create_member:
  assumes "user_create env key u body db = (Inr out, db')" and "js_get body ''role'' = JStr r"
    and "\<not> list_ex (\<lambda>m. fst m = key) (ub_members db)"
  shows "find_role (ub_members db') key (pr_ws u) = Some r"
proof -
  have "\<not> list_ex (\<lambda>m. fst m = key \<and> fst (snd m) = pr_ws u) (ub_members db)" using assms(3) by (auto simp: list_ex_iff)
  then have "ub_members db' = ub_members db @ [(key, pr_ws u, r)]"
    using assms(1,2) by (auto simp: user_create_def Let_def split: sum.splits)
  then show ?thesis using find_role_new [OF assms(3)] by simp
qed

lemma member_admin_holds_everything:
  assumes "find_role (ub_members db) (pr_id q) (pr_ws q) = Some ''admin''" and "pr_id q \<noteq> []" and "pr_ws q \<noteq> []" and "pr_kind q \<noteq> ''service_account''"
  shows "ALL_PERM \<in> set (resolveEffectivePermissions (auth_view adb db) now (Some q) projectId rt rid)"
proof -
  have "getWorkspaceMembership (auth_view adb db) (pr_id q) (pr_ws q) = Some ''admin''"
    using assms(1-3) by (simp add: getWorkspaceMembership_def auth_view_def)
  then show ?thesis using assms(4) by (simp add: resolveEffectivePermissions_def Let_def)
qed

text \<open>A demotion does not demote (\<open>api/users.js\<close> against \<open>auth/permissions.js\<close>): a user created as admin gets a
  row in \<open>workspace_members\<close>, which the resolver reads first and no user endpoint ever changes; so after
  any later requests, demotions included, the permission resolver still gives him everything in the
  workspace.\<close>

theorem demoted_admin_keeps_everything:
  assumes "user_create env key u body db = (Inr out, db1)" and "js_get body ''role'' = JStr ''admin''"
    and "\<not> list_ex (\<lambda>m. fst m = key) (ub_members db)" and "user_requests env db1 db2"
    and "pr_id q = key" and "pr_ws q = pr_ws u" and "key \<noteq> []" and "pr_ws u \<noteq> []" and "pr_kind q = ''user''"
  shows "ALL_PERM \<in> set (resolveEffectivePermissions (auth_view adb db2) now (Some q) projectId rt rid)"
proof (rule member_admin_holds_everything)
  show "find_role (ub_members db2) (pr_id q) (pr_ws q) = Some ''admin''"
    using requests_members [OF assms(4) create_member [OF assms(1-3)]] by (simp add: assms(5,6))
qed (simp_all add: assms)


definition new_admin :: js where
  "new_admin = JObj [(''email'', JStr ''new@b.co''), (''password'', JStr ''12345678''), (''role'', JStr ''admin'')]"

definition hired :: user_db where
  "hired = snd (user_create plain_sha ''new'' (caller ''ann'' ''admin'' ''w'') new_admin two_admins)"

definition hired_then_demoted :: user_db where
  "hired_then_demoted = snd (user_exec plain_sha 9 (caller ''bob'' ''admin'' ''w'') (UpdateUser ''new'' (JObj [(''role'', JStr ''viewer'')])) hired)"

theorem demoted_admin_keeps_everything_witness:
  "map us_role (filter (\<lambda>x. us_id x = ''new'') (ub_users hired_then_demoted)) = [''viewer'']
   \<and> ALL_PERM \<in> set (resolveEffectivePermissions (auth_view sample_auth_db hired_then_demoted) 10 (Some (caller ''new'' ''viewer'' ''w'')) ''p1'' [] [])"
proof
  have c: "user_create plain_sha ''new'' (caller ''ann'' ''admin'' ''w'') new_admin two_admins
      = (Inr (JObj [(''id'', JStr ''new''), (''email'', JStr ''new@b.co''), (''role'', JStr ''admin'')]), hired)"
    by code_simp
  show "ALL_PERM \<in> set (resolveEffectivePermissions (auth_view sample_auth_db hired_then_demoted) 10 (Some (caller ''new'' ''viewer'' ''w'')) ''p1'' [] [])"
    by (rule demoted_admin_keeps_everything [OF c _ _ user_requests.more [OF user_requests.none hired_then_demoted_def [symmetric]]])
      (simp_all add: new_admin_def two_admins_def caller_def)
qed code_simp


section \<open>The role of another workspace\<close>

text \<open>The role follows the user into every workspace (\<open>api/workspaces.js\<close>, \<open>middleware/auth.js\<close>, \<open>api/users.js\<close>):
  an admin of one workspace who switches to another, where he may be a viewer and the token says so, is
  given the role of his own user row by the middleware; the admin gate of the other workspace lets him
  in, and he disables any user there who is not its admin.\<close>

theorem admin_role_crosses_workspaces:
  assumes "workspace_switch db u email ws = Inr c" and "find (\<lambda>x. us_id x = pr_id u) (ub_users db) = Some x"
    and "us_status x = ''active''" and "us_role x = ''admin''" and "ws \<noteq> []"
    and "extractBearer rq = Some token" and "token \<noteq> []" and "\<not> isApiKeyToken token"
    and "verifyAccessToken jwt_verify (ae_secret env) (ae_mode env) token = Inr c"
    and "load_user db key ws = Inr y" and "us_id y \<noteq> us_id x" and "us_role y \<noteq> ''admin''"
  shows "cl_role c = role_there db u ws \<and> (\<exists>p. fst (requireUser env jwt_verify now rq (ub_session db) keys) = Inr p \<and> pr_ws p = ws
    \<and> fst (user_delete now p key db) = Inr (JObj [(''id'', JStr key), (''disabled'', JBool True)]))"
proof -
  have c: "cl_sub c = pr_id u" "cl_ws c = ws" "cl_role c = role_there db u ws"
    using assms(1) by (auto simp: workspace_switch_def split: if_splits)
  let ?p = "user_principal rq c x"
  have x: "find (\<lambda>v. us_id v = cl_sub c) (sd_users (ub_session db)) = Some x" using assms(2) by (simp add: c ub_users_def)
  have "requireUser env jwt_verify now rq (ub_session db) keys = (Inr ?p, keys)"
    by (simp add: requireUser_def assms(3,6-9) x)
  moreover have "pr_ws ?p = ws" "pr_id ?p = us_id x" "pr_role ?p = ''admin''" using c(2) assms(4,5) by (simp_all add: user_principal_def)
  moreover from this have "delete_check db ?p key = Inr y"
    using assms(10-12) by (simp add: delete_check_def admin_only_def requireRole_def user_check_def)
  ultimately show ?thesis using c(3) by (auto simp: user_delete_def delete_write_def)
qed

definition as_viewer :: claims where
  "as_viewer = \<lparr>cl_sub = ''ann'', cl_email = ''ann@b.co'', cl_role = ''viewer'', cl_ws = ''v'', cl_proj = None\<rparr>"

theorem admin_role_crosses_workspaces_witness:
  "cl_role as_viewer = role_there two_admins (caller ''ann'' ''admin'' ''w'') ''v''
   \<and> (\<exists>p. fst (requireUser plain_sha (\<lambda>_ _. Inr as_viewer) 5 (bearer ''jwt'' []) (ub_session two_admins) sample_keys) = Inr p \<and> pr_ws p = ''v''
     \<and> fst (user_delete 5 p ''cat'' two_admins) = Inr (JObj [(''id'', JStr ''cat''), (''disabled'', JBool True)]))"
  by (rule admin_role_crosses_workspaces
      [of two_admins "caller ''ann'' ''admin'' ''w''" "''ann@b.co''" "''v''" as_viewer "person ''ann'' ''admin'' ''w''" "bearer ''jwt'' []" "''jwt''"
        "\<lambda>_ _. Inr as_viewer" plain_sha "''cat''" "person ''cat'' ''editor'' ''v''"]; code_simp)

end
