(* ===== verification/DslLexer.thy ===== *)
theory DslLexer
  imports Json
begin

text \<open>
  The lexer of the text form of workflows (\<open>frontend/src/dsl/lexer.js\<close>): \<open>tokenize\<close> turns a source
  into tokens with a line and a column.  The position is kept as the pair that the source computes from
  its index and the index of the last newline.  The theorems of this theory say when a quoted value is read back.
\<close>

section \<open>Tokens\<close>

datatype token_type = KEYWORD | IDENT | STRING | PUNCT | ARROW | EOF

record token =
  tk_type :: token_type
  tk_value :: string          \<comment> \<open>empty for the end of the file, where the source has null\<close>
  tk_line :: nat
  tk_col :: nat

fun type_name :: "token_type \<Rightarrow> string" where
  "type_name KEYWORD = ''KEYWORD''" | "type_name IDENT = ''IDENT''" | "type_name STRING = ''STRING''"
| "type_name PUNCT = ''PUNCT''" | "type_name ARROW = ''ARROW''" | "type_name EOF = ''EOF''"

text \<open>A thrown error: its name, its message and the position it carries.\<close>

record dsl_error =
  de_name :: string
  de_message :: string
  de_pos :: "(nat \<times> nat) option"

type_synonym 'a dsl_result = "dsl_error + 'a"

definition KEYWORDS :: "string list" where
  "KEYWORDS = [''step'', ''iterate'', ''executeif'']"

definition isIdentStart :: "char \<Rightarrow> bool" where
  "isIdentStart c = (let n = of_char c :: nat in 65 \<le> n \<and> n \<le> 90 \<or> 97 \<le> n \<and> n \<le> 122 \<or> c = CHR ''_'')"

definition isIdentCont :: "char \<Rightarrow> bool" where
  "isIdentCont c \<longleftrightarrow> isIdentStart c \<or> is_digit c \<or> c = CHR ''.'' \<or> c = CHR ''-''"

definition where_text :: "nat \<Rightarrow> nat \<Rightarrow> string" where
  "where_text l c = '' (line '' @ show_nat l @ '', col '' @ show_nat c @ '')''"

definition lexError :: "string \<Rightarrow> nat \<Rightarrow> nat \<Rightarrow> dsl_error" where
  "lexError m l c = \<lparr>de_name = ''DslLexError'', de_message = ''Lex error: '' @ m @ where_text l c, de_pos = Some (l, c)\<rparr>"


section \<open>Reading\<close>

text \<open>The characters that an escape stands for inside double quotes; an unknown one keeps its backslash.\<close>

definition unescape :: "char \<Rightarrow> string" where
  "unescape d =
     (if d = CHR 0x22 then [CHR 0x22] else if d = CHR 0x5C then [CHR 0x5C] else if d = CHR ''n'' then [CHR 0x0A]
      else if d = CHR ''t'' then [CHR 0x09] else if d = CHR ''r'' then [CHR 0x0D] else [CHR 0x5C, d])"

text \<open>
  The inside of a string up to its delimiter: the value, the text behind it, and the position there.  An
  escape moves the column by two even when it hides a newline.  The result is None when the source ends first.
\<close>

fun read_string :: "char \<Rightarrow> string \<Rightarrow> nat \<Rightarrow> nat \<Rightarrow> (string \<times> string \<times> nat \<times> nat) option" where
  "read_string q [] l c = None"
| "read_string q [ch] l c = (if ch = q then Some ([], [], l, Suc c) else None)"
| "read_string q (ch # d # cs) l c =
     (if ch = q then Some ([], d # cs, l, Suc c)
      else if q = CHR 0x22 \<and> ch = CHR 0x5C then map_option (apfst (append (unescape d))) (read_string q cs l (c + 2))
      else if q = CHR 0x60 \<and> ch = CHR 0x5C \<and> d = CHR 0x60 then map_option (apfst (Cons d)) (read_string q cs l (c + 2))
      else if ch = CHR 0x0A then map_option (apfst (Cons ch)) (read_string q (d # cs) (Suc l) 1)
      else map_option (apfst (Cons ch)) (read_string q (d # cs) l (Suc c)))"

lemma read_string_shorter: "read_string q cs l c = Some (v, rest, l', c') \<Longrightarrow> length rest < length cs"
  by (induction q cs l c arbitrary: v rest l' c' rule: read_string.induct)
    (auto split: if_splits dest: less_SucI)

definition put_token :: "token_type \<Rightarrow> string \<Rightarrow> nat \<Rightarrow> nat \<Rightarrow> token list dsl_result \<Rightarrow> token list dsl_result" where
  "put_token t v l c r = res_bind r (\<lambda>ts. Inr (\<lparr>tk_type = t, tk_value = v, tk_line = l, tk_col = c\<rparr> # ts))"

function tokens_from :: "string \<Rightarrow> nat \<Rightarrow> nat \<Rightarrow> token list dsl_result" where
  "tokens_from [] l c = Inr [\<lparr>tk_type = EOF, tk_value = [], tk_line = l, tk_col = c\<rparr>]"
| "tokens_from (ch # cs) l c =
     (if ch = CHR 0x0A then tokens_from cs (Suc l) 1
      else if ch = CHR '' '' \<or> ch = CHR 0x09 \<or> ch = CHR 0x0D then tokens_from cs l (Suc c)
      else if ch = CHR 0x23 then
        tokens_from (dropWhile (\<lambda>x. x \<noteq> CHR 0x0A) cs) l (c + 1 + length (takeWhile (\<lambda>x. x \<noteq> CHR 0x0A) cs))
      else if ch = CHR ''-'' \<and> take 2 cs = ''->'' then put_token ARROW ''-->'' l c (tokens_from (drop 2 cs) l (c + 3))
      else if ch \<in> set ''=:(),'' then put_token PUNCT [ch] l c (tokens_from cs l (Suc c))
      else if ch = CHR 0x22 \<or> ch = CHR 0x60 then
        (case read_string ch cs l (Suc c) of
           None \<Rightarrow> Inl (lexError (''unterminated string starting at line '' @ show_nat l @ '', col '' @ show_nat c) l c)
         | Some (v, rest, l', c') \<Rightarrow> put_token STRING v l c (tokens_from rest l' c'))
      else if isIdentStart ch then
        (let word = ch # takeWhile isIdentCont cs in
         put_token (if word \<in> set KEYWORDS then KEYWORD else IDENT) word l c (tokens_from (dropWhile isIdentCont cs) l (c + length word)))
      else Inl (lexError (''unexpected character '' @ json_quote [ch]) l c))"
  by pat_completeness auto

termination
  by (relation "measure (\<lambda>(s, l, c). length s)")
    (clarsimp simp: le_imp_less_Suc length_dropWhile_le simp del: list.set dest!: read_string_shorter)+

declare tokens_from.simps(2) [simp del]

text \<open>\<open>tokenize\<close> refuses anything but a text.\<close>

definition type_error :: "string \<Rightarrow> dsl_error" where
  "type_error m = \<lparr>de_name = ''TypeError'', de_message = m, de_pos = None\<rparr>"

definition tokenize :: "js \<Rightarrow> token list dsl_result" where
  "tokenize source = (case source of JStr s \<Rightarrow> tokens_from s 1 1 | _ \<Rightarrow> Inl (type_error ''tokenize: expected a string source''))"


section \<open>Shapes\<close>

text \<open>What the parser looks at: the tokens without their positions.\<close>

type_synonym shape = "token_type \<times> string"

definition shape_of :: "token \<Rightarrow> shape" where
  "shape_of t = (tk_type t, tk_value t)"

definition lexes :: "string \<Rightarrow> shape list \<Rightarrow> bool" where
  "lexes s xs \<longleftrightarrow> (\<forall>l c. \<exists>ts. tokens_from s l c = Inr ts \<and> map shape_of ts = xs)"

lemma lexes_Nil: "lexes [] [(EOF, [])]"
  by (simp add: lexes_def shape_of_def)

lemma put_token_Inr:
  "put_token t v l c r = Inr ts \<longleftrightarrow> (\<exists>us. r = Inr us \<and> ts = \<lparr>tk_type = t, tk_value = v, tk_line = l, tk_col = c\<rparr> # us)"
  by (auto simp: put_token_def res_bind_eq_Inr)

lemma lexes_put:
  assumes "\<And>l c. \<exists>l' c'. tokens_from s l c = put_token t v l c (tokens_from s' l' c')" and "lexes s' xs"
  shows "lexes s ((t, v) # xs)"
  unfolding lexes_def
proof (intro allI)
  fix l c
  obtain l' c' where e: "tokens_from s l c = put_token t v l c (tokens_from s' l' c')" using assms(1) by blast
  obtain ts where "tokens_from s' l' c' = Inr ts" "map shape_of ts = xs" using assms(2) unfolding lexes_def by blast
  then show "\<exists>ts. tokens_from s l c = Inr ts \<and> map shape_of ts = (t, v) # xs" by (simp add: e put_token_def shape_of_def)
qed

lemma lexes_space: "lexes s xs \<Longrightarrow> lexes (CHR '' '' # s) xs"
  by (simp add: lexes_def tokens_from.simps(2))

lemma lexes_newline: "lexes s xs \<Longrightarrow> lexes (CHR 0x0A # s) xs"
  by (simp add: lexes_def tokens_from.simps(2))

lemma punct_other:
  "ch \<in> set ''=:(),'' \<Longrightarrow> ch \<noteq> CHR 0x0A \<and> ch \<noteq> CHR '' '' \<and> ch \<noteq> CHR 0x09 \<and> ch \<noteq> CHR 0x0D \<and> ch \<noteq> CHR 0x23 \<and> ch \<noteq> CHR ''-''"
  by (simp only: list.set insert_iff empty_iff; elim disjE; simp)

lemma lexes_punct: "ch \<in> set ''=:(),'' \<Longrightarrow> lexes s xs \<Longrightarrow> lexes (ch # s) ((PUNCT, [ch]) # xs)"
  by (rule lexes_put) (use punct_other [of ch] in \<open>force simp: tokens_from.simps(2) simp del: list.set\<close>)+

lemma lexes_arrow: "lexes s xs \<Longrightarrow> lexes (''-->'' @ s) ((ARROW, ''-->'') # xs)"
  by (rule lexes_put) (auto simp: tokens_from.simps(2))

text \<open>A word of the language.\<close>

definition ident :: "string \<Rightarrow> bool" where
  "ident w \<longleftrightarrow> (case w of [] \<Rightarrow> False | ch # cs \<Rightarrow> isIdentStart ch \<and> list_all isIdentCont cs)"

definition stops :: "string \<Rightarrow> bool" where
  "stops s \<longleftrightarrow> (case s of [] \<Rightarrow> True | ch # _ \<Rightarrow> \<not> isIdentCont ch)"

lemma stops_simps [simp]: "stops []" "stops (ch # s) \<longleftrightarrow> \<not> isIdentCont ch"
  by (simp_all add: stops_def)

lemma word_split:
  assumes "list_all isIdentCont cs" and "stops s"
  shows "takeWhile isIdentCont (cs @ s) = cs" and "dropWhile isIdentCont (cs @ s) = s"
proof -
  have 1: "takeWhile isIdentCont s = []" "dropWhile isIdentCont s = s" using assms(2) by (cases s; simp)+
  show "takeWhile isIdentCont (cs @ s) = cs" "dropWhile isIdentCont (cs @ s) = s"
    using assms(1) 1 by (induction cs) auto
qed

lemma ident_start_other:
  "isIdentStart ch \<Longrightarrow> ch \<notin> {CHR 0x0A, CHR '' '', CHR 0x09, CHR 0x0D, CHR 0x23, CHR ''-'', CHR 0x22, CHR 0x60} \<and> ch \<notin> set ''=:(),''"
  unfolding isIdentStart_def Let_def by (intro conjI; rule notI; simp only: list.set insert_iff empty_iff; elim disjE; simp)

lemma lexes_word:
  assumes "ident w" and "stops s" and "lexes s xs"
  shows "lexes (w @ s) ((if w \<in> set KEYWORDS then KEYWORD else IDENT, w) # xs)"
proof -
  obtain ch cs where w: "w = ch # cs" "isIdentStart ch" "list_all isIdentCont cs" using assms(1) by (cases w) (auto simp: ident_def)
  show ?thesis
    by (rule lexes_put [OF _ assms(3)])
      (use ident_start_other [OF w(2)] word_split [OF w(3) assms(2)] w(1,2) in \<open>auto simp: tokens_from.simps(2) Let_def\<close>)
qed

lemma lexes_ident: "ident w \<Longrightarrow> w \<notin> set KEYWORDS \<Longrightarrow> stops s \<Longrightarrow> lexes s xs \<Longrightarrow> lexes (w @ s) ((IDENT, w) # xs)"
  using lexes_word [of w s xs] by simp

lemma lexes_keyword: "w \<in> set KEYWORDS \<Longrightarrow> stops s \<Longrightarrow> lexes s xs \<Longrightarrow> lexes (w @ s) ((KEYWORD, w) # xs)"
  using lexes_word [of w s xs] by (auto simp: KEYWORDS_def ident_def isIdentStart_def isIdentCont_def)


section \<open>Quoted values\<close>

text \<open>\<open>quote\<close> of the serializer: backticks when that avoids escapes.\<close>

definition quote_char :: "char \<Rightarrow> string" where
  "quote_char ch = (if ch = CHR 0x5C then [CHR 0x5C, CHR 0x5C] else if ch = CHR 0x22 then [CHR 0x5C, CHR 0x22]
     else if ch = CHR 0x0A then [CHR 0x5C, CHR ''n''] else [ch])"

definition quote :: "string \<Rightarrow> string" where
  "quote v =
     (if CHR 0x22 \<in> set v \<and> CHR 0x60 \<notin> set v then CHR 0x60 # v @ [CHR 0x60]
      else CHR 0x22 # concat (map quote_char v) @ [CHR 0x22])"

text \<open>The values it gets wrong: in backticks, a last backslash escapes the closing delimiter.\<close>

definition backtick_trap :: "string \<Rightarrow> bool" where
  "backtick_trap v \<longleftrightarrow> CHR 0x22 \<in> set v \<and> CHR 0x60 \<notin> set v \<and> v \<noteq> [] \<and> last v = CHR 0x5C"

lemma read_escaped:
  "\<exists>l' c'. read_string (CHR 0x22) (concat (map quote_char v) @ CHR 0x22 # rest) l c = Some (v, rest, l', c')"
proof (induction v arbitrary: l c)
  case Nil
  show ?case by (cases rest) auto
next
  case (Cons ch v)
  let ?r = "concat (map quote_char v) @ CHR 0x22 # rest"
  obtain d ds where r: "?r = d # ds" by (cases ?r) auto
  consider "ch \<in> {CHR 0x5C, CHR 0x22, CHR 0x0A}" | "ch \<notin> {CHR 0x5C, CHR 0x22, CHR 0x0A}" by blast
  then show ?case
  proof cases
    case 1
    have "\<exists>l' c'. read_string (CHR 0x22) ?r l (c + 2) = Some (v, rest, l', c')" by (rule Cons)
    then obtain l' c' where r: "read_string (CHR 0x22) ?r l (c + 2) = Some (v, rest, l', c')" by blast
    have "concat (map quote_char (ch # v)) @ CHR 0x22 # rest = quote_char ch @ ?r" by simp
    moreover have "read_string (CHR 0x22) (quote_char ch @ ?r) l c = Some (ch # v, rest, l', c')"
      using 1 r by (elim insertE emptyE; simp add: quote_char_def unescape_def)
    ultimately show ?thesis by metis
  next
    case 2
    have "\<exists>l' c'. read_string (CHR 0x22) ?r l (Suc c) = Some (v, rest, l', c')" by (rule Cons)
    then obtain l' c' where e: "read_string (CHR 0x22) ?r l (Suc c) = Some (v, rest, l', c')" by blast
    have "concat (map quote_char (ch # v)) @ CHR 0x22 # rest = ch # ?r" using 2 by (simp add: quote_char_def)
    moreover have "read_string (CHR 0x22) (ch # ?r) l c = Some (ch # v, rest, l', c')"
      using 2 e unfolding r by simp
    ultimately show ?thesis by metis
  qed
qed

lemma read_backtick:
  assumes "CHR 0x60 \<notin> set v" and "v = [] \<or> last v \<noteq> CHR 0x5C"
  shows "\<exists>l' c'. read_string (CHR 0x60) (v @ CHR 0x60 # rest) l c = Some (v, rest, l', c')"
  using assms
proof (induction v arbitrary: l c)
  case Nil
  show ?case by (cases rest) auto
next
  case (Cons ch v)
  let ?r = "v @ CHR 0x60 # rest"
  obtain d ds where r: "?r = d # ds" by (cases ?r) auto
  have d: "ch = CHR 0x5C \<Longrightarrow> d \<noteq> CHR 0x60" using r Cons.prems by (cases v) auto
  have ih: "\<exists>l' c'. read_string (CHR 0x60) ?r l c = Some (v, rest, l', c')" for l c
    by (rule Cons.IH) (use Cons.prems in \<open>auto split: if_splits\<close>)
  show ?case
    using ih [of "Suc l" 1] ih [of l "Suc c"] r d Cons.prems(1) by auto
qed

lemma lexes_quote:
  assumes "\<not> backtick_trap v" and "lexes s xs"
  shows "lexes (quote v @ s) ((STRING, v) # xs)"
proof (rule lexes_put [OF _ assms(2)])
  fix l c
  show "\<exists>l' c'. tokens_from (quote v @ s) l c = put_token STRING v l c (tokens_from s l' c')"
  proof (cases "CHR 0x22 \<in> set v \<and> CHR 0x60 \<notin> set v")
    case True
    then have "v = [] \<or> last v \<noteq> CHR 0x5C" using assms(1) by (auto simp: backtick_trap_def)
    then obtain l' c' where "read_string (CHR 0x60) (v @ CHR 0x60 # s) l (Suc c) = Some (v, s, l', c')"
      using read_backtick [of v s l "Suc c"] True by auto
    then show ?thesis using True by (auto simp: quote_def tokens_from.simps(2))
  next
    case False
    obtain l' c' where "read_string (CHR 0x22) (concat (map quote_char v) @ CHR 0x22 # s) l (Suc c) = Some (v, s, l', c')"
      using read_escaped [of v s l "Suc c"] by auto
    then show ?thesis using False by (auto simp: quote_def tokens_from.simps(2))
  qed
qed

text \<open>A value in the trap is never read back: the v ends before the literal does, or the value is another one.\<close>

lemma trap_unterminated:
  assumes "backtick_trap v"
  shows "\<exists>e. tokens_from (quote v) l c = Inl e"
proof -
  obtain u where u: "v = u @ [CHR 0x5C]" using assms by (cases v rule: rev_cases) (auto simp: backtick_trap_def)
  have "read_string (CHR 0x60) (u @ [CHR 0x5C, CHR 0x60]) l c = None" if "CHR 0x60 \<notin> set u" for l c
    using that
  proof (induction u arbitrary: l c)
    case (Cons ch u)
    obtain d ds where r: "u @ [CHR 0x5C, CHR 0x60] = d # ds" by (cases "u @ [CHR 0x5C, CHR 0x60]") auto
    moreover have "d \<noteq> CHR 0x60" using r Cons.prems by (cases u) auto
    moreover have ih: "read_string (CHR 0x60) (u @ [CHR 0x5C, CHR 0x60]) l c = None" for l c using Cons by simp
    ultimately show ?case using ih [of "Suc l" 1] ih [of l "Suc c"] Cons.prems by auto
  qed simp
  moreover have "CHR 0x60 \<notin> set u" using assms by (simp add: backtick_trap_def u)
  ultimately show ?thesis using assms by (auto simp: quote_def backtick_trap_def tokens_from.simps(2) u)
qed

end
