(* ===== verification/DslParser.thy ===== *)
theory DslParser
  imports DslLexer
begin

text \<open>
  The recursive-descent parser of the text form of workflows (\<open>frontend/src/dsl/parser.js\<close>), on the tokens
  that are left, and the grammar of \<open>grammar.md\<close> as concrete syntax trees with their token sequence and
  their value.  The parser accepts exactly the token sequences of the grammar.
\<close>

section \<open>Primitives\<close>

definition peek :: "token list \<Rightarrow> token" where
  "peek ts = (case ts of [] \<Rightarrow> \<lparr>tk_type = EOF, tk_value = [], tk_line = 0, tk_col = 0\<rparr> | t # _ \<Rightarrow> t)"

definition at_eof :: "token list \<Rightarrow> bool" where
  "at_eof ts \<longleftrightarrow> tk_type (peek ts) = EOF"

definition tok_match :: "token_type \<Rightarrow> string option \<Rightarrow> token list \<Rightarrow> bool" where
  "tok_match ty v ts \<longleftrightarrow> tk_type (peek ts) = ty \<and> (case v of None \<Rightarrow> True | Some x \<Rightarrow> tk_value (peek ts) = x)"

definition describe :: "token \<Rightarrow> string" where
  "describe t =
     (case tk_type t of
        EOF \<Rightarrow> ''end of file''
      | STRING \<Rightarrow> ''string '' @ json_quote (tk_value t)
      | IDENT \<Rightarrow> ''ident '' @ json_quote (tk_value t)
      | KEYWORD \<Rightarrow> ''keyword '' @ json_quote (tk_value t)
      | ty \<Rightarrow> type_name ty @ '' '' @ json_quote (tk_value t))"

definition fail_at :: "string \<Rightarrow> token \<Rightarrow> dsl_error" where
  "fail_at m t =
     \<lparr>de_name = ''DslParseError'', de_message = ''Parse error: '' @ m @ where_text (tk_line t) (tk_col t), de_pos = Some (tk_line t, tk_col t)\<rparr>"

definition consume :: "token_type \<Rightarrow> string option \<Rightarrow> string \<Rightarrow> token list \<Rightarrow> (token \<times> token list) dsl_result" where
  "consume ty v ctx ts =
     (if tok_match ty v ts then Inr (peek ts, tl ts)
      else Inl (fail_at (''expected '' @ (case v of None \<Rightarrow> type_name ty | Some x \<Rightarrow> type_name ty @ ''('' @ json_quote x @ '')'')
             @ (if ctx = [] then [] else '' '' @ ctx) @ '', got '' @ describe (peek ts)) (peek ts)))"

abbreviation punct :: "string \<Rightarrow> token list \<Rightarrow> bool" where
  "punct p \<equiv> tok_match PUNCT (Some p)"

lemma consume_left:
  assumes "consume ty v ctx ts = Inr (t, ts')" and "ty \<noteq> EOF"
  shows "ts = t # ts'" and "tk_type t = ty" and "v = None \<or> v = Some (tk_value t)"
  using assms by (auto simp: consume_def tok_match_def peek_def split: list.splits if_splits option.splits)

lemma consume_shorter: "consume ty v ctx ts = Inr (t, ts') \<Longrightarrow> ty \<noteq> EOF \<Longrightarrow> Suc (length ts') = length ts"
  using consume_left(1) by fastforce

lemma res_bind_cong [fundef_cong]:
  "r = r' \<Longrightarrow> (\<And>x. r' = Inr x \<Longrightarrow> f x = g x) \<Longrightarrow> res_bind r f = res_bind r' g"
  by (cases r') auto


section \<open>Productions\<close>

text \<open>Writing \<open>__proto__\<close> on a plain object with a text changes nothing.\<close>

definition put_key :: "string \<Rightarrow> string \<Rightarrow> (string, string) omap \<Rightarrow> (string, string) omap" where
  "put_key k v m = (if k = ''__proto__'' then m else oset k v m)"

function args_loop :: "string \<Rightarrow> token list \<Rightarrow> (string, string) omap \<Rightarrow> ((string, string) omap \<times> token list) dsl_result" where
  "args_loop kind ts out =
     res_bind (consume IDENT None (''for '' @ kind @ '' key'') ts) (\<lambda>(k, ts1).
     res_bind (consume PUNCT (Some '':'') (''after '' @ kind @ '' key '' @ quoted (tk_value k)) ts1) (\<lambda>(_, ts2).
     res_bind (consume STRING None (''for '' @ kind @ ''.'' @ tk_value k @ '' value'') ts2) (\<lambda>(v, ts3).
       if punct '','' ts3
       then (if punct '')'' (tl ts3) then Inr (put_key (tk_value k) (tk_value v) out, tl ts3)
             else args_loop kind (tl ts3) (put_key (tk_value k) (tk_value v) out))
       else Inr (put_key (tk_value k) (tk_value v) out, ts3))))"
  by pat_completeness auto

termination
  by (relation "measure (\<lambda>(kind, ts, out). length ts)") (auto dest!: consume_shorter)

declare args_loop.simps [simp del]

definition args :: "string \<Rightarrow> token list \<Rightarrow> ((string, string) omap \<times> token list) dsl_result" where
  "args kind ts =
     res_bind (consume PUNCT (Some ''('') (''to start '' @ kind) ts) (\<lambda>(_, ts1).
       if punct '')'' ts1 then Inr ([], tl ts1)
       else res_bind (args_loop kind ts1 []) (\<lambda>(out, ts2).
         res_bind (consume PUNCT (Some '')'') (''to close '' @ kind) ts2) (\<lambda>(_, ts3). Inr (out, ts3))))"

record additions =
  ad_batchOver :: "string option"
  ad_executeIf :: "string option"

definition no_additions :: additions where
  "no_additions = \<lparr>ad_batchOver = None, ad_executeIf = None\<rparr>"

definition put_addition :: "string \<Rightarrow> string \<Rightarrow> additions \<Rightarrow> additions" where
  "put_addition keyword v out =
     (if keyword = ''iterate'' then out\<lparr>ad_batchOver := Some v\<rparr> else out\<lparr>ad_executeIf := Some v\<rparr>)"

function additions_loop :: "token list \<Rightarrow> additions \<Rightarrow> (additions \<times> token list) dsl_result" where
  "additions_loop ts out =
     (let t = peek ts in
      if tk_type t \<noteq> KEYWORD \<or> tk_value t \<noteq> ''iterate'' \<and> tk_value t \<noteq> ''executeif''
      then Inl (fail_at (''expected '' @ quoted ''iterate'' @ '' or '' @ quoted ''executeif'' @ '' inside the step's additions wrapper, got '' @ describe t) t)
      else res_bind (consume STRING None (''for '' @ tk_value t @ '' expression'') (tl ts)) (\<lambda>(x, ts1).
        if punct '','' ts1 then additions_loop (tl ts1) (put_addition (tk_value t) (tk_value x) out)
        else Inr (put_addition (tk_value t) (tk_value x) out, ts1)))"
  by pat_completeness auto

termination
  by (relation "measure (\<lambda>(ts, out). length ts)") (auto dest!: consume_shorter)

declare additions_loop.simps [simp del]

definition additionsWrapperOpt :: "token list \<Rightarrow> (additions \<times> token list) dsl_result" where
  "additionsWrapperOpt ts =
     (if \<not> punct ''('' ts then Inr (no_additions, ts)
      else if punct '')'' (tl ts) then Inr (no_additions, tl (tl ts))
      else res_bind (additions_loop (tl ts) no_additions) (\<lambda>(out, ts1).
        res_bind (consume PUNCT (Some '')'') ''to close the step's additions wrapper'' ts1) (\<lambda>(_, ts2). Inr (out, ts2))))"

record dsl_node =
  dn_name :: string
  dn_action :: string
  dn_inputs :: "(string, string) omap"
  dn_outputs :: "(string, string) omap"      \<comment> \<open>left out of the object when empty\<close>
  dn_additions :: additions

definition step :: "token list \<Rightarrow> (dsl_node \<times> token list) dsl_result" where
  "step ts =
     res_bind (consume KEYWORD (Some ''step'') [] ts) (\<lambda>(_, ts1).
     res_bind (consume IDENT None ''for step name'' ts1) (\<lambda>(name, ts2).
     res_bind (additionsWrapperOpt ts2) (\<lambda>(adds, ts3).
     res_bind (consume PUNCT (Some ''='') ''after step name (and additions wrapper, if any)'' ts3) (\<lambda>(_, ts4).
     res_bind (consume IDENT None ''for plugin name'' ts4) (\<lambda>(plugin, ts5).
     res_bind (args ''inputs'' ts5) (\<lambda>(ins, ts6).
     res_bind (if punct '':'' ts6 then args ''outputs'' (tl ts6) else Inr ([], ts6)) (\<lambda>(outs, ts7).
       Inr (\<lparr>dn_name = tk_value name, dn_action = tk_value plugin, dn_inputs = ins, dn_outputs = outs, dn_additions = adds\<rparr>, ts7))))))))"

text \<open>Every production leaves a shorter list.\<close>

lemma args_loop_shorter: "args_loop kind ts out = Inr (out', ts') \<Longrightarrow> length ts' < length ts"
proof (induction kind ts out rule: args_loop.induct)
  case (1 kind ts out)
  from 1(2) obtain k ts1 c ts2 v ts3 where
    s: "consume IDENT None (''for '' @ kind @ '' key'') ts = Inr (k, ts1)"
       "consume PUNCT (Some '':'') (''after '' @ kind @ '' key '' @ quoted (tk_value k)) ts1 = Inr (c, ts2)"
       "consume STRING None (''for '' @ kind @ ''.'' @ tk_value k @ '' value'') ts2 = Inr (v, ts3)"
    and r: "(if punct '','' ts3
       then (if punct '')'' (tl ts3) then Inr (put_key (tk_value k) (tk_value v) out, tl ts3)
             else args_loop kind (tl ts3) (put_key (tk_value k) (tk_value v) out))
       else Inr (put_key (tk_value k) (tk_value v) out, ts3)) = Inr (out', ts')"
    by (subst (asm) args_loop.simps) (auto simp: res_bind_eq_Inr)
  have l: "length ts = Suc (Suc (Suc (length ts3)))" using s by (auto dest!: consume_shorter)
  show ?case
  proof (cases "punct '','' ts3 \<and> \<not> punct '')'' (tl ts3)")
    case True
    then have "length ts' < length (tl ts3)" using 1(1) [OF s(1) refl s(2) refl s(3) refl] r by auto
    then show ?thesis using l by simp
  next
    case False
    then show ?thesis using r l by (auto split: if_splits)
  qed
qed

lemma args_shorter: "args kind ts = Inr (out, ts') \<Longrightarrow> length ts' < length ts"
  by (auto simp: args_def res_bind_eq_Inr dest!: consume_shorter args_loop_shorter split: if_splits)

lemma additions_loop_shorter: "additions_loop ts out = Inr (out', ts') \<Longrightarrow> length ts' \<le> length ts"
proof (induction ts out rule: additions_loop.induct)
  case (1 ts out)
  from 1(2) have k: "\<not> (tk_type (peek ts) \<noteq> KEYWORD \<or> tk_value (peek ts) \<noteq> ''iterate'' \<and> tk_value (peek ts) \<noteq> ''executeif'')"
    by (subst (asm) additions_loop.simps) (auto simp: Let_def split: if_splits)
  from 1(2) k obtain x ts1 where s: "consume STRING None (''for '' @ tk_value (peek ts) @ '' expression'') (tl ts) = Inr (x, ts1)"
    and r: "(if punct '','' ts1 then additions_loop (tl ts1) (put_addition (tk_value (peek ts)) (tk_value x) out)
        else Inr (put_addition (tk_value (peek ts)) (tk_value x) out, ts1)) = Inr (out', ts')"
    by (subst (asm) additions_loop.simps) (auto simp: Let_def res_bind_eq_Inr)
  have "length ts1 < length ts" using consume_shorter [OF s] by simp
  moreover have "punct '','' ts1 \<Longrightarrow> length ts' \<le> length (tl ts1)" using 1(1) [OF refl k s refl] r by simp
  ultimately show ?case using r by (auto split: if_splits)
qed

lemma additionsWrapperOpt_shorter: "additionsWrapperOpt ts = Inr (out, ts') \<Longrightarrow> length ts' \<le> length ts"
  by (fastforce simp: additionsWrapperOpt_def res_bind_eq_Inr dest!: consume_shorter additions_loop_shorter split: if_splits)

lemma step_shorter:
  assumes "step ts = Inr (n, ts')"
  shows "length ts' < length ts"
proof -
  from assms obtain x1 x2 x3 x4 x5 x6 x7 ts1 ts2 ts3 ts4 ts5 ts6 ctx where
    "consume KEYWORD (Some ''step'') [] ts = Inr (x1, ts1)" "consume IDENT None ''for step name'' ts1 = Inr (x2, ts2)"
    "additionsWrapperOpt ts2 = Inr (x3, ts3)" "consume PUNCT (Some ''='') ctx ts3 = Inr (x4, ts4)"
    "consume IDENT None ''for plugin name'' ts4 = Inr (x5, ts5)" "args ''inputs'' ts5 = Inr (x6, ts6)"
    and o: "(if punct '':'' ts6 then args ''outputs'' (tl ts6) else Inr ([], ts6)) = Inr (x7, ts')"
    by (auto simp: step_def res_bind_eq_Inr)
  moreover have "length ts' \<le> length ts6" using o by (auto dest!: args_shorter split: if_splits)
  ultimately show ?thesis by (auto dest!: consume_shorter additionsWrapperOpt_shorter args_shorter)
qed

function steps_loop :: "token list \<Rightarrow> dsl_node list \<Rightarrow> (dsl_node list \<times> token list) dsl_result" where
  "steps_loop ts nodes =
     (if tok_match KEYWORD (Some ''step'') ts then res_bind (step ts) (\<lambda>(n, ts'). steps_loop ts' (nodes @ [n])) else Inr (nodes, ts))"
  by pat_completeness auto

termination
  by (relation "measure (\<lambda>(ts, nodes). length ts)") (auto dest: step_shorter)

declare steps_loop.simps [simp del]

definition dsl_edge :: "token list \<Rightarrow> ((string \<times> string) \<times> token list) dsl_result" where
  "dsl_edge ts =
     res_bind (consume IDENT None ''for edge source'' ts) (\<lambda>(a, ts1).
     res_bind (consume ARROW None [] ts1) (\<lambda>(_, ts2).
     res_bind (consume IDENT None ''for edge target'' ts2) (\<lambda>(b, ts3). Inr ((tk_value a, tk_value b), ts3))))"

lemma edge_shorter: "dsl_edge ts = Inr (e, ts') \<Longrightarrow> length ts' < length ts"
  by (auto simp: dsl_edge_def res_bind_eq_Inr dest!: consume_shorter)

function edges_loop :: "token list \<Rightarrow> (string \<times> string) list \<Rightarrow> (string \<times> string) list dsl_result" where
  "edges_loop ts edges =
     (if at_eof ts then Inr edges
      else if \<not> (tok_match IDENT None ts \<and> tok_match ARROW None (tl ts)) then
        (if tok_match KEYWORD (Some ''step'') ts
         then Inl (fail_at (''steps must precede edges; move this `step` above the first --> line'') (peek ts))
         else Inl (fail_at (''unexpected '' @ describe (peek ts) @ '' '' @ [CHR 0xE2, CHR 0x80, CHR 0x94] @ '' expected an edge (a --> b) or end of file'') (peek ts)))
      else res_bind (dsl_edge ts) (\<lambda>(e, ts'). edges_loop ts' (edges @ [e])))"
  by pat_completeness auto

termination
  by (relation "measure (\<lambda>(ts, edges). length ts)") (auto dest: edge_shorter)

declare edges_loop.simps [simp del]

record dsl_model =
  dm_name :: string
  dm_nodes :: "dsl_node list"
  dm_edges :: "(string \<times> string) list"

definition program :: "token list \<Rightarrow> dsl_model dsl_result" where
  "program ts =
     res_bind (consume STRING None ''for workflow name'' ts) (\<lambda>(name, ts1).
     res_bind (steps_loop ts1 []) (\<lambda>(nodes, ts2).
     res_bind (edges_loop ts2 []) (\<lambda>edges. Inr \<lparr>dm_name = tk_value name, dm_nodes = nodes, dm_edges = edges\<rparr>)))"

text \<open>The objects that the productions build.\<close>

definition texts_js :: "(string, string) omap \<Rightarrow> js" where
  "texts_js m = JObj (map (\<lambda>(k, v). (k, JStr v)) m)"

definition when_some :: "string \<Rightarrow> string option \<Rightarrow> (string \<times> js) list" where
  "when_some k v = (case v of None \<Rightarrow> [] | Some x \<Rightarrow> [(k, JStr x)])"

definition node_js :: "dsl_node \<Rightarrow> js" where
  "node_js n =
     JObj ([(''name'', JStr (dn_name n)), (''action'', JStr (dn_action n)), (''inputs'', texts_js (dn_inputs n))]
       @ (if dn_outputs n = [] then [] else [(''outputs'', texts_js (dn_outputs n))])
       @ when_some ''batchOver'' (ad_batchOver (dn_additions n)) @ when_some ''executeIf'' (ad_executeIf (dn_additions n)))"

definition edge_js :: "string \<times> string \<Rightarrow> js" where
  "edge_js e = JObj [(''from'', JStr (fst e)), (''to'', JStr (snd e))]"

definition model_js :: "dsl_model \<Rightarrow> js" where
  "model_js m = JObj [(''name'', JStr (dm_name m)), (''nodes'', JArr (map node_js (dm_nodes m))), (''edges'', JArr (map edge_js (dm_edges m)))]"

definition parse :: "js \<Rightarrow> js dsl_result" where
  "parse source = res_bind (tokenize source) (\<lambda>ts. res_bind (program ts) (\<lambda>m. Inr (model_js m)))"

end
