(* ===== verification/DslGrammar.thy ===== *)
theory DslGrammar
  imports DslParser
begin

text \<open>
  The grammar of \<open>frontend/src/dsl/grammar.md\<close>, written as concrete syntax trees with the token sequence
  (without positions) and the value of each, and the proof that the parser accepts exactly these
  sequences.  Beyond the EBNF the parser allows a comma after the last argument and an empty pair of
  parentheses for the additions; both are in the trees.
\<close>

section \<open>Concrete syntax\<close>

type_synonym args_tree = "(string \<times> string) list \<times> bool"     \<comment> \<open>and whether a comma follows the last\<close>

record step_tree =
  st_name :: string
  st_additions :: "(bool \<times> string) list option"       \<comment> \<open>true for iterate, false for executeif\<close>
  st_action :: string
  st_inputs :: args_tree
  st_outputs :: "args_tree option"

record program_tree =
  pt_name :: string
  pt_steps :: "step_tree list"
  pt_edges :: "(string \<times> string) list"

fun comma_sep :: "shape list list \<Rightarrow> shape list" where
  "comma_sep [] = []"
| "comma_sep [x] = x"
| "comma_sep (x # xs) = x @ (PUNCT, '','') # comma_sep xs"

definition arg_shapes :: "string \<times> string \<Rightarrow> shape list" where
  "arg_shapes a = [(IDENT, fst a), (PUNCT, '':''), (STRING, snd a)]"

definition args_shapes :: "args_tree \<Rightarrow> shape list" where
  "args_shapes a =
     (PUNCT, ''('') # comma_sep (map arg_shapes (fst a)) @ (if snd a \<and> fst a \<noteq> [] then [(PUNCT, '','')] else []) @ [(PUNCT, '')'')]"

definition addition_keyword :: "bool \<Rightarrow> string" where
  "addition_keyword b = (if b then ''iterate'' else ''executeif'')"

definition addition_shapes :: "bool \<times> string \<Rightarrow> shape list" where
  "addition_shapes a = [(KEYWORD, addition_keyword (fst a)), (STRING, snd a)]"

definition additions_shapes :: "(bool \<times> string) list option \<Rightarrow> shape list" where
  "additions_shapes a =
     (case a of None \<Rightarrow> [] | Some xs \<Rightarrow> (PUNCT, ''('') # comma_sep (map addition_shapes xs) @ [(PUNCT, '')'')])"

definition step_shapes :: "step_tree \<Rightarrow> shape list" where
  "step_shapes s =
     [(KEYWORD, ''step''), (IDENT, st_name s)] @ additions_shapes (st_additions s) @ [(PUNCT, ''=''), (IDENT, st_action s)]
       @ args_shapes (st_inputs s) @ (case st_outputs s of None \<Rightarrow> [] | Some a \<Rightarrow> (PUNCT, '':'') # args_shapes a)"

definition edge_shapes :: "string \<times> string \<Rightarrow> shape list" where
  "edge_shapes e = [(IDENT, fst e), (ARROW, ''-->''), (IDENT, snd e)]"

definition program_shapes :: "program_tree \<Rightarrow> shape list" where
  "program_shapes p =
     (STRING, pt_name p) # concat (map step_shapes (pt_steps p)) @ concat (map edge_shapes (pt_edges p)) @ [(EOF, [])]"

text \<open>Values: of two arguments with one key the later wins, at the place of the first.\<close>

definition args_value :: "args_tree \<Rightarrow> (string, string) omap" where
  "args_value a = foldl (\<lambda>m (k, v). put_key k v m) [] (fst a)"

definition additions_value :: "(bool \<times> string) list option \<Rightarrow> additions" where
  "additions_value a =
     (case a of None \<Rightarrow> no_additions | Some xs \<Rightarrow> foldl (\<lambda>m (b, v). put_addition (addition_keyword b) v m) no_additions xs)"

definition step_value :: "step_tree \<Rightarrow> dsl_node" where
  "step_value s =
     \<lparr>dn_name = st_name s, dn_action = st_action s, dn_inputs = args_value (st_inputs s),
      dn_outputs = (case st_outputs s of None \<Rightarrow> [] | Some a \<Rightarrow> args_value a), dn_additions = additions_value (st_additions s)\<rparr>"

definition program_value :: "program_tree \<Rightarrow> dsl_model" where
  "program_value p = \<lparr>dm_name = pt_name p, dm_nodes = map step_value (pt_steps p), dm_edges = pt_edges p\<rparr>"


section \<open>Primitives on shapes\<close>

abbreviation shapes :: "token list \<Rightarrow> shape list" where
  "shapes ts \<equiv> map shape_of ts"

lemma shapes_Cons_iff: "shapes ts = (ty, v) # xs \<longleftrightarrow> (\<exists>t ts'. ts = t # ts' \<and> tk_type t = ty \<and> tk_value t = v \<and> shapes ts' = xs)"
  by (cases ts) (auto simp: shape_of_def)

lemma shapes_tl: "shapes ts = x # xs \<Longrightarrow> shapes (tl ts) = xs"
  by (cases ts) auto

lemma consume_accepts:
  assumes "shapes ts = (ty, v) # xs" and "w = None \<or> w = Some v"
  shows "consume ty w ctx ts = Inr (hd ts, tl ts) \<and> tk_value (hd ts) = v \<and> shapes (tl ts) = xs"
  using assms by (auto simp: consume_def tok_match_def peek_def shapes_Cons_iff)

lemma match_shapes: "shapes ts = (ty', v') # xs \<Longrightarrow> tok_match ty w ts \<longleftrightarrow> ty' = ty \<and> (w = None \<or> w = Some v')"
  by (auto simp: tok_match_def peek_def shapes_Cons_iff split: option.splits)

lemma consume_shapes:
  assumes "consume ty w ctx ts = Inr (t, ts')" and "ty \<noteq> EOF"
  shows "shapes ts = (ty, tk_value t) # shapes ts'"
  using consume_left [OF assms] by (simp add: shape_of_def)

lemma consume_exact_shapes: "consume ty (Some v) ctx ts = Inr (t, ts') \<Longrightarrow> ty \<noteq> EOF \<Longrightarrow> shapes ts = (ty, v) # shapes ts'"
  using consume_shapes [of ty "Some v" ctx ts t ts'] consume_left(3) [of ty "Some v" ctx ts t ts'] by simp

lemma match_exact_shapes: "tok_match ty (Some v) ts \<Longrightarrow> ty \<noteq> EOF \<Longrightarrow> shapes ts = (ty, v) # shapes (tl ts)"
  by (auto simp: tok_match_def peek_def shape_of_def split: list.splits)

lemma comma_sep_Cons: "xs \<noteq> [] \<Longrightarrow> comma_sep (x # xs) = x @ (PUNCT, '','') # comma_sep xs"
  by (cases xs) auto


section \<open>The parser accepts the grammar\<close>

lemma args_loop_step:
  assumes "shapes ts = arg_shapes (k, v) @ xs"
  shows "shapes (tl (tl (tl ts))) = xs" and "args_loop kind ts out =
     (let ts3 = tl (tl (tl ts)) in
      if punct '','' ts3 then (if punct '')'' (tl ts3) then Inr (put_key k v out, tl ts3) else args_loop kind (tl ts3) (put_key k v out))
      else Inr (put_key k v out, ts3))"
proof -
  have s: "shapes ts = (IDENT, k) # (PUNCT, '':'') # (STRING, v) # xs" using assms by (simp add: arg_shapes_def)
  note 1 = consume_accepts [OF s, of None]
  then have s1: "shapes (tl ts) = (PUNCT, '':'') # (STRING, v) # xs" by simp
  note 2 = consume_accepts [OF s1, of "Some '':''"]
  then have s2: "shapes (tl (tl ts)) = (STRING, v) # xs" by simp
  note 3 = consume_accepts [OF s2, of None]
  show "shapes (tl (tl (tl ts))) = xs" and "args_loop kind ts out =
     (let ts3 = tl (tl (tl ts)) in
      if punct '','' ts3 then (if punct '')'' (tl ts3) then Inr (put_key k v out, tl ts3) else args_loop kind (tl ts3) (put_key k v out))
      else Inr (put_key k v out, ts3))"
    using 1 2 3 by (simp_all add: args_loop.simps [of kind ts] Let_def)
qed

lemma args_loop_accepts:
  assumes "kvs \<noteq> []" and "shapes ts = comma_sep (map arg_shapes kvs) @ (if tr then [(PUNCT, '','')] else []) @ (PUNCT, '')'') # xs"
  shows "\<exists>ts'. args_loop kind ts out = Inr (foldl (\<lambda>m (k, v). put_key k v m) out kvs, ts') \<and> shapes ts' = (PUNCT, '')'') # xs"
  using assms
proof (induction kvs arbitrary: ts out)
  case (Cons kv kvs)
  obtain k v where kv: "kv = (k, v)" by (cases kv)
  show ?case
  proof (cases "kvs = []")
    case True
    then have "shapes ts = arg_shapes (k, v) @ (if tr then [(PUNCT, '','')] else []) @ (PUNCT, '')'') # xs" using Cons.prems(2) kv by simp
    note step = args_loop_step [OF this]
    define ts3 where "ts3 = tl (tl (tl ts))"
    have t: "shapes ts3 = (if tr then [(PUNCT, '','')] else []) @ (PUNCT, '')'') # xs" using step(1) by (simp add: ts3_def)
    note e = step(2) [of kind out, folded ts3_def, unfolded Let_def]
    show ?thesis
    proof (cases tr)
      case tr: True
      then have t1: "shapes ts3 = (PUNCT, '','') # (PUNCT, '')'') # xs" using t by simp
      then have t2: "shapes (tl ts3) = (PUNCT, '')'') # xs" by (auto simp: shapes_Cons_iff)
      show ?thesis using match_shapes [OF t1] match_shapes [OF t2] t2 True by (simp add: e kv)
    next
      case False
      then have t1: "shapes ts3 = (PUNCT, '')'') # xs" using t by simp
      show ?thesis using match_shapes [OF t1] t1 True by (simp add: e kv)
    qed
  next
    case False
    let ?r = "comma_sep (map arg_shapes kvs) @ (if tr then [(PUNCT, '','')] else []) @ (PUNCT, '')'') # xs"
    have "shapes ts = arg_shapes (k, v) @ (PUNCT, '','') # ?r" using Cons.prems(2) False by (simp add: comma_sep_Cons kv)
    note step = args_loop_step [OF this]
    define ts3 where "ts3 = tl (tl (tl ts))"
    have t: "shapes ts3 = (PUNCT, '','') # ?r" using step(1) by (simp add: ts3_def)
    note e = step(2) [of kind out, folded ts3_def, unfolded Let_def]
    have t2: "shapes (tl ts3) = ?r" using t by (auto simp: shapes_Cons_iff)
    obtain w ws where "?r = (IDENT, w) # ws" using False by (cases kvs rule: remdups_adj.cases) (auto simp: arg_shapes_def)
    then have "\<not> punct '')'' (tl ts3)" using t2 match_shapes [of "tl ts3" IDENT w ws] by simp
    then have "args_loop kind ts out = args_loop kind (tl ts3) (put_key k v out)" using match_shapes [OF t] by (simp add: e)
    then show ?thesis using Cons.IH [OF False t2] by (simp add: kv)
  qed
qed simp

lemma args_accepts:
  assumes "shapes ts = args_shapes a @ xs"
  shows "\<exists>ts'. args kind ts = Inr (args_value a, ts') \<and> shapes ts' = xs"
proof (cases "fst a = []")
  case True
  then have s: "shapes ts = (PUNCT, ''('') # (PUNCT, '')'') # xs" using assms by (simp add: args_shapes_def)
  note 1 = consume_accepts [OF s, of "Some ''(''"]
  then have s1: "shapes (tl ts) = (PUNCT, '')'') # xs" by simp
  show ?thesis using 1 match_shapes [OF s1] True shapes_tl [OF s1] by (simp add: args_def args_value_def)
next
  case False
  let ?r = "comma_sep (map arg_shapes (fst a)) @ (if snd a then [(PUNCT, '','')] else []) @ (PUNCT, '')'') # xs"
  have s: "shapes ts = (PUNCT, ''('') # ?r" using assms False by (simp add: args_shapes_def)
  note 1 = consume_accepts [OF s, of "Some ''(''"]
  then have s1: "shapes (tl ts) = ?r" by simp
  from args_loop_accepts [OF False s1, of kind "[]"] obtain ts' where
    2: "args_loop kind (tl ts) [] = Inr (args_value a, ts')" "shapes ts' = (PUNCT, '')'') # xs" by (auto simp: args_value_def)
  note 3 = consume_accepts [OF 2(2), of "Some '')''"]
  obtain w ws where r: "?r = (IDENT, w) # ws" using False by (cases "fst a" rule: remdups_adj.cases) (auto simp: arg_shapes_def)
  have "\<not> punct '')'' (tl ts)" using match_shapes [of "tl ts" IDENT w ws] s1 r by simp
  then show ?thesis using 1 2 3 by (auto simp: args_def)
qed

lemma additions_loop_step:
  assumes "shapes ts = addition_shapes (b, v) @ xs"
  shows "shapes (tl (tl ts)) = xs" and "additions_loop ts out =
     (let ts1 = tl (tl ts) in
      if punct '','' ts1 then additions_loop (tl ts1) (put_addition (addition_keyword b) v out)
      else Inr (put_addition (addition_keyword b) v out, ts1))"
proof -
  have s: "shapes ts = (KEYWORD, addition_keyword b) # (STRING, v) # xs" using assms by (simp add: addition_shapes_def)
  then obtain t ts' where t: "ts = t # ts'" "tk_type t = KEYWORD" "tk_value t = addition_keyword b" "shapes ts' = (STRING, v) # xs"
    by (auto simp: shapes_Cons_iff)
  note 1 = consume_accepts [OF t(4), of None]
  show "shapes (tl (tl ts)) = xs" and "additions_loop ts out =
     (let ts1 = tl (tl ts) in
      if punct '','' ts1 then additions_loop (tl ts1) (put_addition (addition_keyword b) v out)
      else Inr (put_addition (addition_keyword b) v out, ts1))"
    unfolding t(1) using 1 t(2,3) by (simp_all add: additions_loop.simps [of "t # ts'"] Let_def peek_def addition_keyword_def)
qed

lemma additions_loop_accepts:
  assumes "as \<noteq> []" and "shapes ts = comma_sep (map addition_shapes as) @ (PUNCT, '')'') # xs"
  shows "\<exists>ts'. additions_loop ts out = Inr (foldl (\<lambda>m (b, v). put_addition (addition_keyword b) v m) out as, ts') \<and> shapes ts' = (PUNCT, '')'') # xs"
  using assms
proof (induction as arbitrary: ts out)
  case (Cons a as)
  obtain b v where a: "a = (b, v)" by (cases a)
  show ?case
  proof (cases "as = []")
    case True
    then have "shapes ts = addition_shapes (b, v) @ (PUNCT, '')'') # xs" using Cons.prems(2) a by simp
    note step = additions_loop_step [OF this]
    define ts1 where "ts1 = tl (tl ts)"
    have t: "shapes ts1 = (PUNCT, '')'') # xs" using step(1) by (simp add: ts1_def)
    note e = step(2) [of out, folded ts1_def, unfolded Let_def]
    show ?thesis using match_shapes [OF t] t True by (simp add: e a)
  next
    case False
    let ?r = "comma_sep (map addition_shapes as) @ (PUNCT, '')'') # xs"
    have "shapes ts = addition_shapes (b, v) @ (PUNCT, '','') # ?r" using Cons.prems(2) False by (simp add: comma_sep_Cons a)
    note step = additions_loop_step [OF this]
    define ts1 where "ts1 = tl (tl ts)"
    have t: "shapes ts1 = (PUNCT, '','') # ?r" using step(1) by (simp add: ts1_def)
    note e = step(2) [of out, folded ts1_def, unfolded Let_def]
    have t2: "shapes (tl ts1) = ?r" using t by (auto simp: shapes_Cons_iff)
    have "additions_loop ts out = additions_loop (tl ts1) (put_addition (addition_keyword b) v out)" using match_shapes [OF t] by (simp add: e)
    then show ?thesis using Cons.IH [OF False t2] by (simp add: a)
  qed
qed simp

lemma additions_accepts:
  assumes "shapes ts = additions_shapes a @ xs" and "\<exists>ys. xs = (PUNCT, ''='') # ys"
  shows "\<exists>ts'. additionsWrapperOpt ts = Inr (additions_value a, ts') \<and> shapes ts' = xs"
proof (cases a)
  case None
  then obtain ys where "shapes ts = (PUNCT, ''='') # ys" using assms by (auto simp: additions_shapes_def)
  from match_shapes [OF this] show ?thesis using assms None by (simp add: additionsWrapperOpt_def additions_value_def additions_shapes_def)
next
  case (Some as)
  let ?r = "comma_sep (map addition_shapes as) @ (PUNCT, '')'') # xs"
  have s: "shapes ts = (PUNCT, ''('') # ?r" using assms(1) Some by (simp add: additions_shapes_def)
  have s1: "shapes (tl ts) = ?r" using s by (auto simp: shapes_Cons_iff)
  show ?thesis
  proof (cases "as = []")
    case True
    have s2: "shapes (tl ts) = (PUNCT, '')'') # xs" using s1 True by simp
    show ?thesis using match_shapes [OF s] match_shapes [OF s2] True Some shapes_tl [OF s2]
      by (simp add: additionsWrapperOpt_def additions_value_def)
  next
    case False
    obtain w ws where r: "?r = (KEYWORD, w) # ws" using False by (cases as rule: remdups_adj.cases) (auto simp: addition_shapes_def)
    from additions_loop_accepts [OF False s1, of no_additions] obtain ts' where
      2: "additions_loop (tl ts) no_additions = Inr (additions_value a, ts')" "shapes ts' = (PUNCT, '')'') # xs"
      by (auto simp: additions_value_def Some)
    note 3 = consume_accepts [OF 2(2), of "Some '')''"]
    have "\<not> punct '')'' (tl ts)" using match_shapes [of "tl ts" KEYWORD w ws] s1 r by simp
    then show ?thesis using match_shapes [OF s] 2 3 by (auto simp: additionsWrapperOpt_def)
  qed
qed

lemma step_accepts:
  assumes "shapes ts = step_shapes s @ xs" and "\<And>ys. xs \<noteq> (PUNCT, '':'') # ys" and "xs \<noteq> []"
  shows "\<exists>ts'. step ts = Inr (step_value s, ts') \<and> shapes ts' = xs"
proof -
  let ?out = "(case st_outputs s of None \<Rightarrow> [] | Some a \<Rightarrow> (PUNCT, '':'') # args_shapes a) @ xs"
  let ?in = "args_shapes (st_inputs s) @ ?out"
  let ?eq = "(PUNCT, ''='') # (IDENT, st_action s) # ?in"
  have s: "shapes ts = (KEYWORD, ''step'') # (IDENT, st_name s) # additions_shapes (st_additions s) @ ?eq"
    using assms(1) by (simp add: step_shapes_def)
  note 1 = consume_accepts [OF s, of "Some ''step''" "[]"]
  then have s1: "shapes (tl ts) = (IDENT, st_name s) # additions_shapes (st_additions s) @ ?eq" by simp
  note 2 = consume_accepts [OF s1, of None]
  then have s2: "shapes (tl (tl ts)) = additions_shapes (st_additions s) @ ?eq" by simp
  obtain ts3 where 3: "additionsWrapperOpt (tl (tl ts)) = Inr (additions_value (st_additions s), ts3)" and s3: "shapes ts3 = ?eq"
    using additions_accepts [OF s2] by auto
  note 4 = consume_accepts [OF s3, of "Some ''=''"]
  then have s4: "shapes (tl ts3) = (IDENT, st_action s) # ?in" by simp
  note 5 = consume_accepts [OF s4, of None]
  then have s5: "shapes (tl (tl ts3)) = ?in" by simp
  from args_accepts [OF s5] obtain ts6 where 6: "args ''inputs'' (tl (tl ts3)) = Inr (args_value (st_inputs s), ts6)" and s6: "shapes ts6 = ?out"
    by blast
  have "\<exists>ts7. (if punct '':'' ts6 then args ''outputs'' (tl ts6) else Inr ([], ts6))
      = Inr (case st_outputs s of None \<Rightarrow> [] | Some a \<Rightarrow> args_value a, ts7) \<and> shapes ts7 = xs"
  proof (cases "st_outputs s")
    case None
    obtain ty w ws where x: "xs = (ty, w) # ws" using assms(3) by (cases xs) auto
    then have "\<not> punct '':'' ts6" using match_shapes [of ts6 ty w ws] s6 None assms(2) by auto
    then show ?thesis using s6 None by simp
  next
    case (Some a)
    then have s6': "shapes ts6 = (PUNCT, '':'') # args_shapes a @ xs" using s6 by simp
    then have "shapes (tl ts6) = args_shapes a @ xs" by (auto simp: shapes_Cons_iff)
    from args_accepts [OF this, of "''outputs''"] show ?thesis using match_shapes [OF s6'] Some by auto
  qed
  then show ?thesis using 1 2 3 4 5 6 by (auto simp: step_def step_value_def)
qed

lemma steps_accept:
  assumes "shapes ts = concat (map step_shapes ss) @ (ty, v) # xs" and "(ty, v) \<noteq> (KEYWORD, ''step'')" and "(ty, v) \<noteq> (PUNCT, '':'')"
  shows "\<exists>ts'. steps_loop ts nodes = Inr (nodes @ map step_value ss, ts') \<and> shapes ts' = (ty, v) # xs"
  using assms(1)
proof (induction ss arbitrary: ts nodes)
  case Nil
  then have "shapes ts = (ty, v) # xs" by simp
  from match_shapes [OF this] have "\<not> tok_match KEYWORD (Some ''step'') ts" using assms(2) by auto
  then show ?case using Nil by (simp add: steps_loop.simps [of ts])
next
  case (Cons s ss)
  let ?r = "concat (map step_shapes ss) @ (ty, v) # xs"
  have r: "?r \<noteq> (PUNCT, '':'') # ys" for ys using assms(3) by (cases ss) (auto simp: step_shapes_def)
  have "shapes ts = step_shapes s @ ?r" using Cons.prems by simp
  from step_accepts [OF this r] obtain ts1 where 1: "step ts = Inr (step_value s, ts1)" "shapes ts1 = ?r" by auto
  have "shapes ts = (KEYWORD, ''step'') # tl (step_shapes s @ ?r)" using Cons.prems by (simp add: step_shapes_def [of s])
  from match_shapes [OF this] have "tok_match KEYWORD (Some ''step'') ts" by simp
  then have "steps_loop ts nodes = steps_loop ts1 (nodes @ [step_value s])" using 1(1) by (simp add: steps_loop.simps [of ts])
  then show ?case using Cons.IH [OF 1(2), of "nodes @ [step_value s]"] by simp
qed

lemma edges_accept:
  assumes "shapes ts = concat (map edge_shapes es) @ (EOF, v) # xs"
  shows "edges_loop ts out = Inr (out @ es)"
  using assms
proof (induction es arbitrary: ts out)
  case Nil
  then have "at_eof ts" by (auto simp: at_eof_def peek_def shapes_Cons_iff)
  then show ?case by (simp add: edges_loop.simps [of ts])
next
  case (Cons e es)
  let ?r = "concat (map edge_shapes es) @ (EOF, v) # xs"
  have s: "shapes ts = (IDENT, fst e) # (ARROW, ''-->'') # (IDENT, snd e) # ?r" using Cons.prems by (simp add: edge_shapes_def [of e])
  note 1 = consume_accepts [OF s, of None]
  then have s1: "shapes (tl ts) = (ARROW, ''-->'') # (IDENT, snd e) # ?r" by simp
  note 2 = consume_accepts [OF s1, of None "[]"]
  then have s2: "shapes (tl (tl ts)) = (IDENT, snd e) # ?r" by simp
  note 3 = consume_accepts [OF s2, of None]
  have "dsl_edge ts = Inr (e, tl (tl (tl ts)))" using 1 2 3 by (simp add: dsl_edge_def)
  moreover have "\<not> at_eof ts" using s by (auto simp: at_eof_def peek_def shapes_Cons_iff)
  ultimately have "edges_loop ts out = edges_loop (tl (tl (tl ts))) (out @ [e])"
    using match_shapes [OF s, of IDENT None] match_shapes [OF s1, of ARROW None] by (simp add: edges_loop.simps [of ts])
  then show ?case using Cons.IH [of "tl (tl (tl ts))" "out @ [e]"] 3 by simp
qed

lemma program_accepts:
  assumes "shapes ts = program_shapes p"
  shows "program ts = Inr (program_value p)"
proof -
  let ?es = "concat (map edge_shapes (pt_edges p)) @ [(EOF, [])]"
  have s: "shapes ts = (STRING, pt_name p) # concat (map step_shapes (pt_steps p)) @ ?es" using assms by (simp add: program_shapes_def)
  note 1 = consume_accepts [OF s, of None]
  then have s1: "shapes (tl ts) = concat (map step_shapes (pt_steps p)) @ ?es" by simp
  obtain ty v xs where e: "?es = (ty, v) # xs" "(ty, v) \<noteq> (KEYWORD, ''step'')" "(ty, v) \<noteq> (PUNCT, '':'')"
    by (cases "pt_edges p") (auto simp: edge_shapes_def)
  from steps_accept [of "tl ts" "pt_steps p", OF _ e(2,3), of xs "[]"] s1 e(1) obtain ts2 where
    2: "steps_loop (tl ts) [] = Inr (map step_value (pt_steps p), ts2)" "shapes ts2 = ?es" by auto
  show ?thesis using 1 2 edges_accept [OF 2(2), of "[]"] by (simp add: program_def program_value_def)
qed


section \<open>And nothing else\<close>

lemma args_loop_sound:
  assumes "args_loop kind ts out = Inr (out', ts')"
  shows "\<exists>kvs tr. kvs \<noteq> [] \<and> out' = foldl (\<lambda>m (k, v). put_key k v m) out kvs \<and> (tr \<longrightarrow> punct '')'' ts') \<and>
     shapes ts = comma_sep (map arg_shapes kvs) @ (if tr then [(PUNCT, '','')] else []) @ shapes ts'"
  using assms
proof (induction kind ts out rule: args_loop.induct)
  case (1 kind ts out)
  from 1(2) obtain k ts1 c ts2 v ts3 where
    s: "consume IDENT None (''for '' @ kind @ '' key'') ts = Inr (k, ts1)"
       "consume PUNCT (Some '':'') (''after '' @ kind @ '' key '' @ quoted (tk_value k)) ts1 = Inr (c, ts2)"
       "consume STRING None (''for '' @ kind @ ''.'' @ tk_value k @ '' value'') ts2 = Inr (v, ts3)"
    and r: "(if punct '','' ts3
       then (if punct '')'' (tl ts3) then Inr (put_key (tk_value k) (tk_value v) out, tl ts3)
             else args_loop kind (tl ts3) (put_key (tk_value k) (tk_value v) out))
       else Inr (put_key (tk_value k) (tk_value v) out, ts3)) = Inr (out', ts')"
    by (subst (asm) args_loop.simps) (auto simp: res_bind_eq_Inr)
  let ?kv = "(tk_value k, tk_value v)"
  have h: "shapes ts = arg_shapes ?kv @ shapes ts3"
    using consume_shapes [OF s(1)] consume_exact_shapes [OF s(2)] consume_shapes [OF s(3)] by (simp add: arg_shapes_def)
  consider "punct '','' ts3" "punct '')'' (tl ts3)" | "punct '','' ts3" "\<not> punct '')'' (tl ts3)" | "\<not> punct '','' ts3" by blast
  then show ?case
  proof cases
    case 1
    then show ?thesis
      using r h match_exact_shapes [OF 1(1)] by (intro exI [of _ "[?kv]"] exI [of _ True]) auto
  next
    case 2
    from "1.IH" [OF s(1) refl s(2) refl s(3) refl 2] r 2 obtain kvs tr where
      i: "kvs \<noteq> []" "out' = foldl (\<lambda>m (k, v). put_key k v m) (put_key (tk_value k) (tk_value v) out) kvs" "tr \<longrightarrow> punct '')'' ts'"
         "shapes (tl ts3) = comma_sep (map arg_shapes kvs) @ (if tr then [(PUNCT, '','')] else []) @ shapes ts'" by auto
    then show ?thesis
      using h match_exact_shapes [OF 2(1)] by (intro exI [of _ "?kv # kvs"] exI [of _ tr]) (auto simp: comma_sep_Cons)
  next
    case 3
    then show ?thesis using r h by (intro exI [of _ "[?kv]"] exI [of _ False]) auto
  qed
qed

lemma args_sound:
  assumes "args kind ts = Inr (out, ts')"
  shows "\<exists>a. shapes ts = args_shapes a @ shapes ts' \<and> out = args_value a"
proof -
  obtain t ts1 where c: "consume PUNCT (Some ''('') (''to start '' @ kind) ts = Inr (t, ts1)" using assms by (auto simp: args_def res_bind_eq_Inr)
  note h = consume_exact_shapes [OF c]
  show ?thesis
  proof (cases "punct '')'' ts1")
    case True
    then show ?thesis using assms c h match_exact_shapes [OF True]
      by (intro exI [of _ "([], False)"]) (auto simp: args_def args_shapes_def args_value_def)
  next
    case False
    then obtain o' ts2 t' where l: "args_loop kind ts1 [] = Inr (out, ts2)" and e: "consume PUNCT (Some '')'') (''to close '' @ kind) ts2 = Inr (t', ts')"
      using assms c by (auto simp: args_def res_bind_eq_Inr)
    from args_loop_sound [OF l] obtain kvs tr where
      i: "kvs \<noteq> []" "out = foldl (\<lambda>m (k, v). put_key k v m) [] kvs"
         "shapes ts1 = comma_sep (map arg_shapes kvs) @ (if tr then [(PUNCT, '','')] else []) @ shapes ts2" by auto
    then show ?thesis using h consume_exact_shapes [OF e]
      by (intro exI [of _ "(kvs, tr)"]) (auto simp: args_shapes_def args_value_def)
  qed
qed

lemma additions_loop_sound:
  assumes "additions_loop ts out = Inr (out', ts')"
  shows "\<exists>as. as \<noteq> [] \<and> out' = foldl (\<lambda>m (b, v). put_addition (addition_keyword b) v m) out as \<and>
     shapes ts = comma_sep (map addition_shapes as) @ shapes ts'"
  using assms
proof (induction ts out rule: additions_loop.induct)
  case (1 ts out)
  from 1(2) have k: "\<not> (tk_type (peek ts) \<noteq> KEYWORD \<or> tk_value (peek ts) \<noteq> ''iterate'' \<and> tk_value (peek ts) \<noteq> ''executeif'')"
    by (subst (asm) additions_loop.simps) (auto simp: Let_def split: if_splits)
  from 1(2) k obtain x ts1 where s: "consume STRING None (''for '' @ tk_value (peek ts) @ '' expression'') (tl ts) = Inr (x, ts1)"
    and r: "(if punct '','' ts1 then additions_loop (tl ts1) (put_addition (tk_value (peek ts)) (tk_value x) out)
        else Inr (put_addition (tk_value (peek ts)) (tk_value x) out, ts1)) = Inr (out', ts')"
    by (subst (asm) additions_loop.simps) (auto simp: Let_def res_bind_eq_Inr)
  let ?b = "tk_value (peek ts) = ''iterate''" and ?v = "tk_value x"
  have kw: "tk_value (peek ts) = addition_keyword ?b" using k by (auto simp: addition_keyword_def)
  obtain t ts0 where ts: "ts = t # ts0" using k by (cases ts) (auto simp: peek_def)
  have h: "shapes ts = addition_shapes (?b, ?v) @ shapes ts1"
    using consume_shapes [OF s] k kw by (simp add: ts peek_def shape_of_def addition_shapes_def)
  show ?case
  proof (cases "punct '','' ts1")
    case True
    from "1.IH" [OF refl k s refl True] r True obtain as where
      i: "as \<noteq> []" "out' = foldl (\<lambda>m (b, v). put_addition (addition_keyword b) v m) (put_addition (tk_value (peek ts)) ?v out) as"
         "shapes (tl ts1) = comma_sep (map addition_shapes as) @ shapes ts'" by auto
    then show ?thesis using h match_exact_shapes [OF True] kw
      by (intro exI [of _ "(?b, ?v) # as"]) (auto simp: comma_sep_Cons)
  next
    case False
    then show ?thesis using r h kw by (intro exI [of _ "[(?b, ?v)]"]) auto
  qed
qed

lemma additions_sound:
  assumes "additionsWrapperOpt ts = Inr (out, ts')"
  shows "\<exists>a. shapes ts = additions_shapes a @ shapes ts' \<and> out = additions_value a"
proof -
  consider "\<not> punct ''('' ts" | "punct ''('' ts" "punct '')'' (tl ts)" | "punct ''('' ts" "\<not> punct '')'' (tl ts)" by blast
  then show ?thesis
  proof cases
    case 1
    then show ?thesis using assms
      by (intro exI [of _ None]) (auto simp: additionsWrapperOpt_def additions_shapes_def additions_value_def)
  next
    case 2
    then show ?thesis using assms match_exact_shapes [OF 2(1)] match_exact_shapes [OF 2(2)]
      by (intro exI [of _ "Some []"]) (auto simp: additionsWrapperOpt_def additions_shapes_def additions_value_def)
  next
    case 3
    then obtain o' ts1 t' where l: "additions_loop (tl ts) no_additions = Inr (out, ts1)"
        and e: "consume PUNCT (Some '')'') ''to close the step's additions wrapper'' ts1 = Inr (t', ts')"
      using assms by (auto simp: additionsWrapperOpt_def res_bind_eq_Inr)
    from additions_loop_sound [OF l] obtain as where "as \<noteq> []" "out = foldl (\<lambda>m (b, v). put_addition (addition_keyword b) v m) no_additions as"
      "shapes (tl ts) = comma_sep (map addition_shapes as) @ shapes ts1" by auto
    then show ?thesis using match_exact_shapes [OF 3(1)] consume_exact_shapes [OF e]
      by (intro exI [of _ "Some as"]) (auto simp: additions_shapes_def additions_value_def)
  qed
qed

lemma step_sound:
  assumes "step ts = Inr (n, ts')"
  shows "\<exists>s. shapes ts = step_shapes s @ shapes ts' \<and> n = step_value s"
proof -
  from assms obtain x1 name adds x4 plugin ins outs ts1 ts2 ts3 ts4 ts5 ts6 where
    p: "consume KEYWORD (Some ''step'') [] ts = Inr (x1, ts1)" "consume IDENT None ''for step name'' ts1 = Inr (name, ts2)"
    "additionsWrapperOpt ts2 = Inr (adds, ts3)" "consume PUNCT (Some ''='') ''after step name (and additions wrapper, if any)'' ts3 = Inr (x4, ts4)"
    "consume IDENT None ''for plugin name'' ts4 = Inr (plugin, ts5)" "args ''inputs'' ts5 = Inr (ins, ts6)"
    and o: "(if punct '':'' ts6 then args ''outputs'' (tl ts6) else Inr ([], ts6)) = Inr (outs, ts')"
    and n: "n = \<lparr>dn_name = tk_value name, dn_action = tk_value plugin, dn_inputs = ins, dn_outputs = outs, dn_additions = adds\<rparr>"
    by (auto simp: step_def res_bind_eq_Inr)
  obtain a where a: "shapes ts2 = additions_shapes a @ shapes ts3" "adds = additions_value a" using additions_sound [OF p(3)] by blast
  obtain i where i: "shapes ts5 = args_shapes i @ shapes ts6" "ins = args_value i" using args_sound [OF p(6)] by blast
  have "\<exists>b. shapes ts6 = (case b of None \<Rightarrow> [] | Some c \<Rightarrow> (PUNCT, '':'') # args_shapes c) @ shapes ts' \<and> outs = (case b of None \<Rightarrow> [] | Some c \<Rightarrow> args_value c)"
  proof (cases "punct '':'' ts6")
    case True
    then have "args ''outputs'' (tl ts6) = Inr (outs, ts')" using o by simp
    from args_sound [OF this] obtain c where "shapes (tl ts6) = args_shapes c @ shapes ts'" "outs = args_value c" by blast
    then show ?thesis using match_exact_shapes [OF True] by (intro exI [of _ "Some c"]) simp
  next
    case False
    then show ?thesis using o by (intro exI [of _ None]) simp
  qed
  then obtain b where b: "shapes ts6 = (case b of None \<Rightarrow> [] | Some c \<Rightarrow> (PUNCT, '':'') # args_shapes c) @ shapes ts'"
    "outs = (case b of None \<Rightarrow> [] | Some c \<Rightarrow> args_value c)" by blast
  let ?s = "\<lparr>st_name = tk_value name, st_additions = a, st_action = tk_value plugin, st_inputs = i, st_outputs = b\<rparr>"
  have "shapes ts = step_shapes ?s @ shapes ts'"
    using consume_exact_shapes [OF p(1)] consume_shapes [OF p(2)] a(1) consume_exact_shapes [OF p(4)] consume_shapes [OF p(5)] i(1) b(1)
    by (simp add: step_shapes_def)
  then show ?thesis by (intro exI [of _ ?s]) (simp add: step_value_def n a(2) i(2) b(2))
qed

lemma steps_sound:
  "steps_loop ts nodes = Inr (ns, ts') \<Longrightarrow> \<exists>ss. shapes ts = concat (map step_shapes ss) @ shapes ts' \<and> ns = nodes @ map step_value ss"
proof (induction ts nodes rule: steps_loop.induct)
  case (1 ts nodes)
  show ?case
  proof (cases "tok_match KEYWORD (Some ''step'') ts")
    case True
    then obtain n ts1 where s: "step ts = Inr (n, ts1)" and r: "steps_loop ts1 (nodes @ [n]) = Inr (ns, ts')"
      using 1(2) by (auto simp: steps_loop.simps [of ts] res_bind_eq_Inr)
    obtain t where t: "shapes ts = step_shapes t @ shapes ts1" "n = step_value t" using step_sound [OF s] by blast
    obtain ss where ss: "shapes ts1 = concat (map step_shapes ss) @ shapes ts'" "ns = (nodes @ [n]) @ map step_value ss"
      using "1.IH" [OF True s refl r] by blast
    show ?thesis by (intro exI [of _ "t # ss"]) (simp add: t ss)
  next
    case False
    then show ?thesis using 1(2) by (intro exI [of _ "[]"]) (simp add: steps_loop.simps [of ts])
  qed
qed

lemma edge_sound:
  assumes "dsl_edge ts = Inr (e, ts')" and "tok_match ARROW (Some ''-->'') (tl ts)"
  shows "shapes ts = edge_shapes e @ shapes ts'"
proof -
  from assms(1) obtain a ts1 b ts2 c where
    p: "consume IDENT None ''for edge source'' ts = Inr (a, ts1)" "consume ARROW None [] ts1 = Inr (b, ts2)"
       "consume IDENT None ''for edge target'' ts2 = Inr (c, ts')" and e: "e = (tk_value a, tk_value c)"
    by (auto simp: dsl_edge_def res_bind_eq_Inr)
  have "tl ts = ts1" using consume_left(1) [OF p(1)] by simp
  then have "tk_value b = ''-->''" using assms(2) consume_left(1) [OF p(2)] by (auto simp: tok_match_def peek_def)
  then show ?thesis using consume_shapes [OF p(1)] consume_shapes [OF p(2)] consume_shapes [OF p(3)] by (simp add: edge_shapes_def e)
qed

text \<open>What the lexer delivers: arrows have one text, and the end of the file comes once, at the end.\<close>

definition arrow_ok :: "shape \<Rightarrow> bool" where
  "arrow_ok x \<longleftrightarrow> fst x = ARROW \<longrightarrow> snd x = ''-->''"

definition lexed :: "token list \<Rightarrow> bool" where
  "lexed ts \<longleftrightarrow> list_all arrow_ok (shapes ts) \<and> (\<exists>xs. shapes ts = xs @ [(EOF, [])] \<and> list_all (\<lambda>x. fst x \<noteq> EOF) xs)"

lemma lexed_Cons:
  assumes "lexed ts" and "tk_type t \<noteq> EOF" and "arrow_ok (shape_of t)"
  shows "lexed (t # ts)"
proof -
  obtain xs where "shapes ts = xs @ [(EOF, [])]" "list_all (\<lambda>x. fst x \<noteq> EOF) xs" using assms(1) by (auto simp: lexed_def)
  then have "shapes (t # ts) = (shape_of t # xs) @ [(EOF, [])] \<and> list_all (\<lambda>x. fst x \<noteq> EOF) (shape_of t # xs)"
    using assms(2) by (simp add: shape_of_def)
  then show ?thesis using assms(1,3) unfolding lexed_def by (intro conjI exI [of _ "shape_of t # xs"]) simp_all
qed

lemma one_token:
  assumes "tokens_from (ch # cs) l c = Inr ts"
  shows "(\<exists>cs' l' c'. length cs' \<le> length cs \<and> tokens_from cs' l' c' = Inr ts)
   \<or> (\<exists>t us cs' l' c'. length cs' \<le> length cs \<and> tokens_from cs' l' c' = Inr us \<and> ts = t # us \<and> tk_type t \<noteq> EOF
        \<and> arrow_ok (shape_of t))" (is "?skip ts \<or> ?put ts")
proof -
  have skip: "?skip ts" if "tokens_from cs' l' c' = Inr ts" "length cs' \<le> length cs" for cs' l' c'
    using that by blast
  have put: "?put ts"
    if "put_token ty v l c (tokens_from cs' l' c') = Inr ts" "length cs' \<le> length cs" "ty \<noteq> EOF" "ty = ARROW \<longrightarrow> v = ''-->''" for ty v cs' l' c'
    using that unfolding put_token_Inr by (fastforce simp: arrow_ok_def shape_of_def)
  consider (newline) "ch = CHR 0x0A" | (space) "ch \<noteq> CHR 0x0A" "ch = CHR '' '' \<or> ch = CHR 0x09 \<or> ch = CHR 0x0D"
    | (comment) "ch = CHR 0x23" | (arrow) "ch = CHR ''-''" "take 2 cs = ''->''"
    | (punct) "ch \<in> set ''=:(),''" | (string) "ch = CHR 0x22 \<or> ch = CHR 0x60" | (word) "isIdentStart ch"
    | (other) "ch \<noteq> CHR 0x0A" "\<not> (ch = CHR '' '' \<or> ch = CHR 0x09 \<or> ch = CHR 0x0D)" "ch \<noteq> CHR 0x23" "\<not> (ch = CHR ''-'' \<and> take 2 cs = ''->'')"
        "ch \<notin> set ''=:(),''" "\<not> (ch = CHR 0x22 \<or> ch = CHR 0x60)" "\<not> isIdentStart ch"
    by blast
  then show ?thesis
  proof cases
    case newline
    then show ?thesis using assms by (intro disjI1 skip [of cs "Suc l" 1]) (simp_all add: tokens_from.simps(2))
  next
    case space
    then have "tokens_from cs l (Suc c) = Inr ts" using assms by (simp add: tokens_from.simps(2))
    then show ?thesis using skip by blast
  next
    case comment
    then show ?thesis using assms
      by (intro disjI1 skip [of "dropWhile (\<lambda>x. x \<noteq> CHR 0x0A) cs"]) (simp_all add: tokens_from.simps(2) length_dropWhile_le)
  next
    case arrow
    then show ?thesis using assms
      by (intro disjI2 put [of ARROW "''-->''" "drop 2 cs"]) (simp_all add: tokens_from.simps(2))
  next
    case punct
    then have "put_token PUNCT [ch] l c (tokens_from cs l (Suc c)) = Inr ts"
      using assms punct_other [OF punct] unfolding tokens_from.simps(2) [of ch] by (simp del: list.set)
    then show ?thesis using put by blast
  next
    case string
    then have "ch \<notin> set ''=:(),''" by auto
    then have "(case read_string ch cs l (Suc c) of None \<Rightarrow> Inl (lexError (''unterminated string starting at line '' @ show_nat l @ '', col '' @ show_nat c) l c)
         | Some (v, rest, l', c') \<Rightarrow> put_token STRING v l c (tokens_from rest l' c')) = Inr ts"
      using assms string unfolding tokens_from.simps(2) [of ch] by (elim disjE) (simp_all del: list.set)
    then obtain v rest l' c' where r: "read_string ch cs l (Suc c) = Some (v, rest, l', c')"
      and p: "put_token STRING v l c (tokens_from rest l' c') = Inr ts" by (auto split: option.splits)
    show ?thesis using put [OF p] read_string_shorter [OF r] by simp
  next
    case word
    let ?w = "ch # takeWhile isIdentCont cs"
    have "put_token (if ?w \<in> set KEYWORDS then KEYWORD else IDENT) ?w l c (tokens_from (dropWhile isIdentCont cs) l (c + length ?w)) = Inr ts"
      using assms word ident_start_other [OF word] unfolding tokens_from.simps(2) [of ch] Let_def by (simp del: list.set)
    from put [OF this] show ?thesis by (simp add: length_dropWhile_le)
  next
    case other
    have "tokens_from (ch # cs) l c = Inl (lexError (''unexpected character '' @ json_quote [ch]) l c)"
      unfolding tokens_from.simps(2) by (simp only: other if_False if_cancel simp_thms)
    then show ?thesis using assms by simp
  qed
qed

lemma tokens_lexed: "tokens_from s l c = Inr ts \<Longrightarrow> lexed ts"
proof (induction "length s" arbitrary: s l c ts rule: less_induct)
  case less
  show ?case
  proof (cases s)
    case Nil
    then show ?thesis using less(2) by (auto simp: lexed_def shape_of_def arrow_ok_def)
  next
    case (Cons ch cs)
    have ih: "lexed us" if "length cs' \<le> length cs" "tokens_from cs' l' c' = Inr us" for cs' l' c' us
      using less(1) [of cs' l' c' us] that Cons by simp
    show ?thesis using one_token [OF less(2) [unfolded Cons]] ih lexed_Cons by blast
  qed
qed


lemma tokens_of_source: "tokenize (JStr s) = Inr ts \<Longrightarrow> lexed ts"
  by (simp add: tokenize_def tokens_lexed)

lemma edges_sound:
  assumes "edges_loop ts out = Inr es" and "list_all arrow_ok (shapes ts)"
  shows "\<exists>es' rest. shapes ts = concat (map edge_shapes es') @ shapes rest \<and> at_eof rest \<and> es = out @ es'"
  using assms
proof (induction ts out rule: edges_loop.induct)
  case (1 ts out)
  show ?case
  proof (cases "at_eof ts")
    case True
    then show ?thesis using 1(2) by (intro exI [of _ "[]"] exI [of _ ts]) (simp add: edges_loop.simps [of ts])
  next
    case False
    have m: "tok_match IDENT None ts \<and> tok_match ARROW None (tl ts)"
      using 1(2) False by (auto simp: edges_loop.simps [of ts] split: if_splits)
    then obtain e ts1 where s: "dsl_edge ts = Inr (e, ts1)" and r: "edges_loop ts1 (out @ [e]) = Inr es"
      using 1(2) False by (auto simp: edges_loop.simps [of ts] res_bind_eq_Inr)
    have "tok_match ARROW (Some ''-->'') (tl ts)"
      using m 1(3) by (cases ts; cases "tl ts") (auto simp: tok_match_def peek_def arrow_ok_def shape_of_def)
    note h = edge_sound [OF s this]
    have "list_all arrow_ok (shapes ts1)" using 1(3) h by simp
    from "1.IH" [OF False _ s refl r this] m obtain es' rest where
      "shapes ts1 = concat (map edge_shapes es') @ shapes rest" "at_eof rest" "es = (out @ [e]) @ es'" by auto
    then show ?thesis using h by (intro exI [of _ "e # es'"] exI [of _ rest]) simp
  qed
qed

lemma no_eof:
  "list_all (\<lambda>x. fst x \<noteq> EOF) (args_shapes a)" "list_all (\<lambda>x. fst x \<noteq> EOF) (step_shapes s)" "list_all (\<lambda>x. fst x \<noteq> EOF) (edge_shapes e)"
proof -
  have c: "list_all (\<lambda>x. fst x \<noteq> EOF) (comma_sep xs)" if "list_all (list_all (\<lambda>x. fst x \<noteq> EOF)) xs" for xs
    using that by (induction xs rule: comma_sep.induct) auto
  show a: "list_all (\<lambda>x. fst x \<noteq> EOF) (args_shapes a)" for a
    using c [of "map arg_shapes (fst a)"] by (auto simp: args_shapes_def arg_shapes_def list_all_iff)
  have "list_all (\<lambda>x. fst x \<noteq> EOF) (additions_shapes b)" for b
  proof (cases b)
    case (Some as)
    have "list_all (list_all (\<lambda>x. fst x \<noteq> EOF)) (map addition_shapes as)" by (simp add: list_all_iff addition_shapes_def)
    from c [OF this] show ?thesis by (simp add: additions_shapes_def Some)
  qed (simp add: additions_shapes_def)
  then show "list_all (\<lambda>x. fst x \<noteq> EOF) (step_shapes s)" using a by (simp add: step_shapes_def split: option.splits)
  show "list_all (\<lambda>x. fst x \<noteq> EOF) (edge_shapes e)" by (simp add: edge_shapes_def)
qed

lemma list_all_concat_map: "(\<And>y. list_all P (f y)) \<Longrightarrow> list_all P (concat (map f ys))"
  by (induction ys) auto

lemma program_sound:
  assumes "program ts = Inr m" and "lexed ts"
  shows "\<exists>p. shapes ts = program_shapes p \<and> m = program_value p"
proof -
  from assms(1) obtain name ts1 nodes ts2 edges where
    p: "consume STRING None ''for workflow name'' ts = Inr (name, ts1)" "steps_loop ts1 [] = Inr (nodes, ts2)" "edges_loop ts2 [] = Inr edges"
    and m: "m = \<lparr>dm_name = tk_value name, dm_nodes = nodes, dm_edges = edges\<rparr>"
    by (auto simp: program_def res_bind_eq_Inr)
  obtain ss where ss: "shapes ts1 = concat (map step_shapes ss) @ shapes ts2" "nodes = map step_value ss" using steps_sound [OF p(2)] by auto
  have h: "shapes ts = (STRING, tk_value name) # concat (map step_shapes ss) @ shapes ts2" using consume_shapes [OF p(1)] ss(1) by simp
  have "list_all arrow_ok (shapes ts2)" using assms(2) h by (simp add: lexed_def)
  from edges_sound [OF p(3) this] obtain es rest where
    es: "shapes ts2 = concat (map edge_shapes es) @ shapes rest" "at_eof rest" "edges = es" by auto
  let ?x = "(STRING, tk_value name) # concat (map step_shapes ss) @ concat (map edge_shapes es)"
  have x: "shapes ts = ?x @ shapes rest" using h es(1) by simp
  have nx: "list_all (\<lambda>x. fst x \<noteq> EOF) ?x"
    using list_all_concat_map [of _ step_shapes, OF no_eof(2)] list_all_concat_map [of _ edge_shapes, OF no_eof(3)] by simp
  obtain xs where xs: "shapes ts = xs @ [(EOF, [])]" "list_all (\<lambda>x. fst x \<noteq> EOF) xs" using assms(2) by (auto simp: lexed_def)
  have "rest \<noteq> []"
  proof
    assume "rest = []"
    then have "(EOF, []) \<in> set ?x" using x xs(1) by (metis append_Nil2 in_set_conv_decomp list.map(1))
    then show False using nx unfolding list_all_iff by force
  qed
  then obtain y ys where y: "shapes rest = y # ys" "fst y = EOF"
    using es(2) by (cases rest) (auto simp: at_eof_def peek_def shape_of_def)
  have "ys = []"
  proof (rule ccontr)
    assume "ys \<noteq> []"
    then have "xs = ?x @ y # butlast ys" using x xs(1) y(1) by (metis butlast.simps(2) butlast_append butlast_snoc list.distinct(1))
    then show False using xs(2) y(2) by simp
  qed
  then have "shapes rest = [(EOF, [])]" using x xs(1) y(1) by (metis append_is_Nil_conv last_ConsL last_appendR last_snoc list.distinct(1))
  then have "shapes ts = program_shapes \<lparr>pt_name = tk_value name, pt_steps = ss, pt_edges = es\<rparr>" using x by (simp add: program_shapes_def)
  then show ?thesis by (intro exI) (auto simp: program_value_def m ss(2) es(3))
qed

text \<open>C38.  The parser accepts the grammar of \<open>grammar.md\<close> and nothing else: a source parses to a model exactly when
  its tokens are those of a concrete syntax tree whose value is the model, with a comma allowed after the last
  argument and an empty pair of parentheses for the additions.\<close>

theorem parser_is_the_grammar:
  "parse (JStr s) = Inr m \<longleftrightarrow> (\<exists>ts p. tokenize (JStr s) = Inr ts \<and> shapes ts = program_shapes p \<and> m = model_js (program_value p))"
proof
  assume "parse (JStr s) = Inr m"
  then obtain ts d where t: "tokenize (JStr s) = Inr ts" and d: "program ts = Inr d" "m = model_js d"
    by (auto simp: parse_def res_bind_eq_Inr)
  from program_sound [OF d(1) tokens_of_source [OF t]] show "\<exists>ts p. tokenize (JStr s) = Inr ts \<and> shapes ts = program_shapes p \<and> m = model_js (program_value p)"
    using t d(2) by blast
next
  assume "\<exists>ts p. tokenize (JStr s) = Inr ts \<and> shapes ts = program_shapes p \<and> m = model_js (program_value p)"
  then show "parse (JStr s) = Inr m" using program_accepts by (auto simp: parse_def)
qed

end
