(* ===== verification/DslText.thy ===== *)
theory DslText
  imports DslGrammar
begin

text \<open>
  The serializer of the text form (\<open>frontend/src/dsl/serializer.js\<close>) and its contract with the parser
  (\<open>frontend/src/dsl/index.js\<close>).  \<open>serialize\<close> works on any value; \<open>view\<close> is the part of a model that
  it prints, with every value turned into a text.
\<close>

section \<open>Serializing\<close>

definition ONE_LINE_THRESHOLD :: nat where "ONE_LINE_THRESHOLD = 2"

definition arg_text :: "string \<times> string \<Rightarrow> string" where
  "arg_text a = fst a @ '': '' @ quote (snd a)"

definition inline_args :: "(string \<times> string) list \<Rightarrow> string" where
  "inline_args es = ''('' @ join_str '', '' (map arg_text es) @ '')''"

definition one_line :: "(string \<times> string) list \<Rightarrow> bool" where
  "one_line es \<longleftrightarrow> length es \<le> ONE_LINE_THRESHOLD \<and> length (inline_args es) \<le> 80"

definition render_texts :: "(string \<times> string) list \<Rightarrow> string" where
  "render_texts es =
     (if es = [] then ''()'' else if one_line es then inline_args es
      else ''('' @ [CHR 0x0A] @ join_str [CHR 0x0A] (map (\<lambda>a. ''  '' @ arg_text a @ '','') es) @ [CHR 0x0A] @ '')'')"

definition arg_entries :: "js \<Rightarrow> (string \<times> string) list" where
  "arg_entries v = map (apsnd js_string) (js_entries (js_or v (JObj [])))"

definition renderArgs :: "js \<Rightarrow> string" where
  "renderArgs v = render_texts (arg_entries v)"

text \<open>\<open>Array.prototype.join\<close> writes nothing for a nullish element.\<close>

definition join_part :: "js \<Rightarrow> string" where
  "join_part v = (if nullish v then [] else js_string v)"

definition addition_text :: "string \<Rightarrow> js \<Rightarrow> string list" where
  "addition_text keyword v = (if truthy v then [keyword @ '' '' @ quote (js_string v)] else [])"

definition serializeStep :: "js \<Rightarrow> string dsl_result" where
  "serializeStep node =
     (if nullish node then Inl (type_error ''Cannot read properties of undefined'')
      else
        (let adds = addition_text ''iterate'' (js_get node ''batchOver'') @ addition_text ''executeif'' (js_get node ''executeIf'');
             parts = [''step '' @ js_string (js_get node ''name'')] @ (if adds = [] then [] else [''('' @ join_str '', '' adds @ '')''])
                       @ [''='', join_part (js_get node ''action'')];
             ins = renderArgs (js_get node ''inputs''); outs = renderArgs (js_get node ''outputs'')
         in Inr (join_str '' '' parts @ ins @ (if arg_entries (js_get node ''outputs'') = [] then [] else '' : '' @ outs))))"

definition array_of :: "js \<Rightarrow> js list" where
  "array_of v = (case v of JArr vs \<Rightarrow> vs | _ \<Rightarrow> [])"

definition edge_line :: "js \<Rightarrow> string list" where
  "edge_line e =
     (if truthy (js_get e ''from'') \<and> truthy (js_get e ''to'') then [js_string (js_get e ''from'') @ '' --> '' @ js_string (js_get e ''to'')] else [])"

definition serialize :: "js \<Rightarrow> string dsl_result" where
  "serialize model =
     (if \<not> is_objlike model then Inl (type_error ''serialize: model must be an object'')
      else res_bind (res_map serializeStep (array_of (js_get model ''nodes''))) (\<lambda>steps.
        Inr (join_str [CHR 0x0A]
               ([quote (js_string (js_nullish (js_get model ''name'') (JStr [])))]
                @ (if steps = [] then [] else [[]]) @ steps
                @ (if array_of (js_get model ''edges'') = [] then [] else [[]]) @ concat (map edge_line (array_of (js_get model ''edges''))))
             @ [CHR 0x0A])))"


section \<open>What it prints\<close>

definition text_if :: "js \<Rightarrow> string option" where
  "text_if v = (if truthy v then Some (js_string v) else None)"

definition node_view :: "js \<Rightarrow> dsl_node" where
  "node_view n =
     \<lparr>dn_name = js_string (js_get n ''name''), dn_action = join_part (js_get n ''action''), dn_inputs = arg_entries (js_get n ''inputs''),
      dn_outputs = arg_entries (js_get n ''outputs''),
      dn_additions = \<lparr>ad_batchOver = text_if (js_get n ''batchOver''), ad_executeIf = text_if (js_get n ''executeIf'')\<rparr>\<rparr>"

definition edge_view :: "js \<Rightarrow> (string \<times> string) list" where
  "edge_view e =
     (if truthy (js_get e ''from'') \<and> truthy (js_get e ''to'') then [(js_string (js_get e ''from''), js_string (js_get e ''to''))] else [])"

definition view :: "js \<Rightarrow> dsl_model" where
  "view m =
     \<lparr>dm_name = js_string (js_nullish (js_get m ''name'') (JStr [])), dm_nodes = map node_view (array_of (js_get m ''nodes'')),
      dm_edges = concat (map edge_view (array_of (js_get m ''edges'')))\<rparr>"

definition adds_of :: "additions \<Rightarrow> (bool \<times> string) list" where
  "adds_of a = (case ad_batchOver a of None \<Rightarrow> [] | Some v \<Rightarrow> [(True, v)]) @ (case ad_executeIf a of None \<Rightarrow> [] | Some v \<Rightarrow> [(False, v)])"

definition add_text :: "bool \<times> string \<Rightarrow> string" where
  "add_text a = addition_keyword (fst a) @ '' '' @ quote (snd a)"

definition step_text :: "dsl_node \<Rightarrow> string" where
  "step_text n =
     ''step '' @ dn_name n @ (if adds_of (dn_additions n) = [] then [] else '' ('' @ join_str '', '' (map add_text (adds_of (dn_additions n))) @ '')'')
       @ '' = '' @ dn_action n @ render_texts (dn_inputs n) @ (if dn_outputs n = [] then [] else '' : '' @ render_texts (dn_outputs n))"

definition edge_text :: "string \<times> string \<Rightarrow> string" where
  "edge_text e = fst e @ '' --> '' @ snd e"

definition model_text :: "bool \<Rightarrow> dsl_model \<Rightarrow> string" where
  "model_text blank m =
     join_str [CHR 0x0A] ([quote (dm_name m)] @ (if dm_nodes m = [] then [] else [[]]) @ map step_text (dm_nodes m)
       @ (if blank then [[]] else []) @ map edge_text (dm_edges m)) @ [CHR 0x0A]"

text \<open>The models that can be printed: an object whose nodes are not null.\<close>

definition serializable :: "js \<Rightarrow> bool" where
  "serializable m \<longleftrightarrow> is_objlike m \<and> list_all (\<lambda>n. \<not> nullish n) (array_of (js_get m ''nodes''))"

lemma serializeStep_view: "\<not> nullish n \<Longrightarrow> serializeStep n = Inr (step_text (node_view n))"
  by (simp add: serializeStep_def step_text_def node_view_def renderArgs_def addition_text_def adds_of_def add_text_def text_if_def
      addition_keyword_def Let_def)

lemma edge_line_view: "edge_line e = map edge_text (edge_view e)"
  by (simp add: edge_line_def edge_view_def edge_text_def)

lemma serialize_view:
  assumes "serializable m"
  shows "serialize m = Inr (model_text (array_of (js_get m ''edges'') \<noteq> []) (view m))"
proof -
  have "res_map serializeStep (array_of (js_get m ''nodes'')) = Inr (map (\<lambda>n. step_text (node_view n)) (array_of (js_get m ''nodes'')))"
    by (rule res_map_all_Inr) (use assms in \<open>simp add: serializable_def list_all_iff serializeStep_view\<close>)
  moreover have "edge_line = (\<lambda>e. map edge_text (edge_view e))" by (rule ext) (rule edge_line_view)
  ultimately show ?thesis using assms
    by (simp add: serialize_def serializable_def model_text_def view_def map_concat comp_def)
qed


section \<open>Reading it back\<close>

definition plain_word :: "string \<Rightarrow> bool" where
  "plain_word w \<longleftrightarrow> ident w \<and> w \<notin> set KEYWORDS"

text \<open>A piece of text and its tokens, whatever follows, as long as no word runs on.\<close>

definition reads :: "string \<Rightarrow> shape list \<Rightarrow> bool" where
  "reads x xs \<longleftrightarrow> (\<forall>s ys. stops s \<longrightarrow> lexes s ys \<longrightarrow> lexes (x @ s) (xs @ ys))"

lemma stops_append: "x \<noteq> [] \<Longrightarrow> stops (x @ s) = stops x"
  by (cases x) auto

lemma reads_append: "reads x xs \<Longrightarrow> reads y ys \<Longrightarrow> stops y \<Longrightarrow> reads (x @ y) (xs @ ys)"
  unfolding reads_def by (cases "y = []") (auto simp: stops_append)

lemma lexes_of_reads:
  assumes "reads x xs"
  shows "lexes x (xs @ [(EOF, [])])"
proof -
  have "lexes (x @ []) (xs @ [(EOF, [])])" using assms lexes_Nil stops_simps(1) unfolding reads_def by blast
  then show ?thesis by simp
qed

lemma reads_Nil: "reads [] []"
  by (simp add: reads_def)

lemma reads_word: "plain_word w \<Longrightarrow> reads w [(IDENT, w)]"
  by (simp add: reads_def plain_word_def lexes_ident)

lemma reads_keyword: "w \<in> set KEYWORDS \<Longrightarrow> reads w [(KEYWORD, w)]"
  by (simp add: reads_def lexes_keyword)

lemma reads_quote: "\<not> backtick_trap v \<Longrightarrow> reads (quote v) [(STRING, v)]"
  by (simp add: reads_def lexes_quote)

text \<open>Prefixes that cannot run on.\<close>

lemma reads_space: "reads x xs \<Longrightarrow> reads (CHR '' '' # x) xs"
  by (simp add: reads_def lexes_space)

lemma reads_newline: "reads x xs \<Longrightarrow> reads (CHR 0x0A # x) xs"
  by (simp add: reads_def lexes_newline)

lemma reads_punct: "c \<in> set ''=:(),'' \<Longrightarrow> reads x xs \<Longrightarrow> reads (c # x) ((PUNCT, [c]) # xs)"
  unfolding reads_def append_Cons by (blast intro: lexes_punct)

lemma reads_arrow: "reads x xs \<Longrightarrow> reads (''-->'' @ x) ((ARROW, ''-->'') # xs)"
  unfolding reads_def append_assoc append_Cons [of "(ARROW, ''-->'')"] by (blast intro: lexes_arrow)

lemma stops_quote [simp]: "stops (quote v @ s)" "stops (quote v)"
  by (simp_all add: quote_def isIdentCont_def isIdentStart_def is_digit_def)

lemma stops_chars [simp]:
  "\<not> isIdentCont (CHR '' '')" "\<not> isIdentCont (CHR 0x0A)" "\<not> isIdentCont (CHR ''='')" "\<not> isIdentCont (CHR '':'')"
  "\<not> isIdentCont (CHR ''('')" "\<not> isIdentCont (CHR '')'')" "\<not> isIdentCont (CHR '','')"
  by (simp_all add: isIdentCont_def isIdentStart_def is_digit_def)

definition arg_plain :: "string \<times> string \<Rightarrow> bool" where
  "arg_plain a \<longleftrightarrow> plain_word (fst a) \<and> \<not> backtick_trap (snd a)"

lemma reads_arg: "arg_plain a \<Longrightarrow> reads (arg_text a) (arg_shapes a)"
proof -
  assume a: "arg_plain a"
  have "reads ('': '' @ quote (snd a)) [(PUNCT, '':''), (STRING, snd a)]"
    using a by (auto intro!: reads_punct reads_space reads_quote simp: arg_plain_def)
  from reads_append [OF reads_word this, of "fst a"] show ?thesis using a by (simp add: arg_text_def arg_shapes_def arg_plain_def)
qed

lemma reads_join:
  assumes "list_all (\<lambda>x. reads (f x) (g x)) xs"
  shows "reads (join_str '', '' (map f xs)) (comma_sep (map g xs))"
  using assms
proof (induction xs rule: induct_list012)
  case (3 x y xs)
  have "reads ('', '' @ join_str '', '' (map f (y # xs))) ((PUNCT, '','') # comma_sep (map g (y # xs)))"
    using 3 by (auto intro!: reads_punct reads_space)
  from reads_append [OF _ this, of "f x" "g x"] show ?case using 3(3) by simp
qed (auto simp: reads_Nil)

lemma reads_lines:
  assumes "list_all2 reads ls xs"
  shows "reads (join_str [CHR 0x0A] ls) (concat xs)"
  using assms
proof (induction ls arbitrary: xs rule: induct_list012)
  case 1
  then show ?case by (simp add: reads_Nil)
next
  case (2 l)
  then show ?case by (auto simp: list_all2_Cons1)
next
  case (3 l k ls)
  then obtain x y ys where xs: "xs = x # y # ys" "reads l x" "reads k y" "list_all2 reads ls ys" by (auto simp: list_all2_Cons1)
  have "reads (join_str [CHR 0x0A] (k # ls)) (concat (y # ys))" using 3(2) [of "y # ys"] xs by simp
  then have "reads (CHR 0x0A # join_str [CHR 0x0A] (k # ls)) (concat (y # ys))" by (rule reads_newline)
  from reads_append [OF xs(2) this] show ?case by (simp add: xs(1))
qed

lemma reads_close: "reads '')'' [(PUNCT, '')'')]"
  using reads_punct [OF _ reads_Nil, of "CHR '')''"] by simp

lemma comma_sep_closed:
  "xs \<noteq> [] \<Longrightarrow> comma_sep xs @ (PUNCT, '','') # r = concat (map (\<lambda>x. x @ [(PUNCT, '','')]) xs) @ r"
  by (induction xs rule: induct_list012) auto

lemma reads_texts:
  assumes "list_all arg_plain es"
  shows "reads (render_texts es) (args_shapes (es, \<not> one_line es))"
proof -
  have a: "list_all (\<lambda>x. reads (arg_text x) (arg_shapes x)) es" using assms by (simp add: list_all_iff reads_arg)
  consider "es = []" | "es \<noteq> []" "one_line es" | "es \<noteq> []" "\<not> one_line es" by blast
  then show ?thesis
  proof cases
    case 1
    then show ?thesis using reads_punct [OF _ reads_close, of "CHR ''(''"] by (simp add: render_texts_def args_shapes_def)
  next
    case 2
    have "reads (join_str '', '' (map arg_text es) @ '')'') (comma_sep (map arg_shapes es) @ [(PUNCT, '')'')])"
      by (rule reads_append [OF reads_join [OF a] reads_close]) simp
    from reads_punct [OF _ this, of "CHR ''(''"] show ?thesis using 2 by (simp add: render_texts_def inline_args_def args_shapes_def)
  next
    case 3
    have "reads (''  '' @ arg_text x @ '','') (arg_shapes x @ [(PUNCT, '','')])" if "x \<in> set es" for x
    proof -
      have "reads '','' [(PUNCT, '','')]" using reads_punct [OF _ reads_Nil, of "CHR '',''"] by simp
      then have "reads (arg_text x @ '','') (arg_shapes x @ [(PUNCT, '','')])"
        using reads_append [of "arg_text x" "arg_shapes x"] a that by (simp add: list_all_iff)
      then show ?thesis by (simp add: reads_space)
    qed
    then have "list_all2 reads (map (\<lambda>a. ''  '' @ arg_text a @ '','') es) (map (\<lambda>x. arg_shapes x @ [(PUNCT, '','')]) es)"
      by (simp add: list_all2_map1 list_all2_map2 list_all2_same)
    note l = reads_lines [OF this]
    have "reads ([CHR 0x0A] @ '')'') [(PUNCT, '')'')]" using reads_newline [OF reads_close] by simp
    from reads_append [OF l this] have "reads (join_str [CHR 0x0A] (map (\<lambda>a. ''  '' @ arg_text a @ '','') es) @ [CHR 0x0A] @ '')'')
       (concat (map (\<lambda>x. arg_shapes x @ [(PUNCT, '','')]) es) @ [(PUNCT, '')'')])" by simp
    from reads_punct [OF _ reads_newline [OF this], of "CHR ''(''"] show ?thesis
      using 3 by (simp add: render_texts_def args_shapes_def comma_sep_closed comp_def)
  qed
qed


definition args_plain :: "(string \<times> string) list \<Rightarrow> bool" where
  "args_plain es \<longleftrightarrow> list_all arg_plain es \<and> distinct (map fst es) \<and> ''__proto__'' \<notin> set (map fst es)"

definition node_plain :: "dsl_node \<Rightarrow> bool" where
  "node_plain n \<longleftrightarrow> plain_word (dn_name n) \<and> plain_word (dn_action n) \<and> args_plain (dn_inputs n) \<and> args_plain (dn_outputs n)
     \<and> list_all (\<lambda>a. \<not> backtick_trap (snd a)) (adds_of (dn_additions n))"

definition edge_plain :: "string \<times> string \<Rightarrow> bool" where
  "edge_plain e \<longleftrightarrow> plain_word (fst e) \<and> plain_word (snd e)"

definition printable :: "dsl_model \<Rightarrow> bool" where
  "printable m \<longleftrightarrow> \<not> backtick_trap (dm_name m) \<and> list_all node_plain (dm_nodes m) \<and> list_all edge_plain (dm_edges m)"

definition node_tree :: "dsl_node \<Rightarrow> step_tree" where
  "node_tree n =
     \<lparr>st_name = dn_name n, st_additions = (if adds_of (dn_additions n) = [] then None else Some (adds_of (dn_additions n))), st_action = dn_action n,
      st_inputs = (dn_inputs n, \<not> one_line (dn_inputs n)),
      st_outputs = (if dn_outputs n = [] then None else Some (dn_outputs n, \<not> one_line (dn_outputs n)))\<rparr>"

definition model_tree :: "dsl_model \<Rightarrow> program_tree" where
  "model_tree m = \<lparr>pt_name = dm_name m, pt_steps = map node_tree (dm_nodes m), pt_edges = dm_edges m\<rparr>"

lemma reads_add: "\<not> backtick_trap (snd a) \<Longrightarrow> reads (add_text a) (addition_shapes a)"
  using reads_append [OF reads_keyword reads_space [OF reads_quote], of "addition_keyword (fst a)" "snd a"]
  by (simp add: add_text_def addition_shapes_def addition_keyword_def KEYWORDS_def)

lemma stops_render: "stops (render_texts es @ s)" "stops (render_texts es)"
  by (simp_all add: render_texts_def inline_args_def)

lemma reads_step:
  assumes "node_plain n"
  shows "reads (step_text n) (step_shapes (node_tree n))"
proof -
  have a: "list_all arg_plain (dn_inputs n)" "list_all arg_plain (dn_outputs n)" "plain_word (dn_name n)" "plain_word (dn_action n)"
    "list_all (\<lambda>a. \<not> backtick_trap (snd a)) (adds_of (dn_additions n))"
    using assms by (simp_all add: node_plain_def args_plain_def)
  let ?outs = "if dn_outputs n = [] then [] else '' : '' @ render_texts (dn_outputs n)"
  let ?outsh = "case st_outputs (node_tree n) of None \<Rightarrow> [] | Some a \<Rightarrow> (PUNCT, '':'') # args_shapes a"
  have o: "reads ?outs ?outsh" using reads_texts [OF a(2)] by (auto simp: node_tree_def intro!: reads_punct reads_space reads_Nil)
  have "reads (render_texts (dn_inputs n) @ ?outs) (args_shapes (st_inputs (node_tree n)) @ ?outsh)"
    by (rule reads_append [OF _ o]) (use reads_texts [OF a(1)] in \<open>simp_all add: node_tree_def\<close>)
  from reads_append [OF reads_word this] have
    "reads (dn_action n @ render_texts (dn_inputs n) @ ?outs) ((IDENT, dn_action n) # args_shapes (st_inputs (node_tree n)) @ ?outsh)"
    using a(4) by (simp add: stops_render)
  then have t: "reads ('' = '' @ dn_action n @ render_texts (dn_inputs n) @ ?outs)
      ((PUNCT, ''='') # (IDENT, dn_action n) # args_shapes (st_inputs (node_tree n)) @ ?outsh)"
    by (auto intro!: reads_punct reads_space)
  let ?adds = "if adds_of (dn_additions n) = [] then [] else '' ('' @ join_str '', '' (map add_text (adds_of (dn_additions n))) @ '')''"
  have "reads ?adds (additions_shapes (st_additions (node_tree n)))"
  proof (cases "adds_of (dn_additions n) = []")
    case False
    have "list_all (\<lambda>x. reads (add_text x) (addition_shapes x)) (adds_of (dn_additions n))" using a(5) by (simp add: list_all_iff reads_add)
    from reads_append [OF reads_join [OF this] reads_close] show ?thesis
      using False by (auto simp: node_tree_def additions_shapes_def intro!: reads_space reads_punct)
  qed (simp add: node_tree_def additions_shapes_def reads_Nil)
  from reads_append [OF this t] have u: "reads (?adds @ '' = '' @ dn_action n @ render_texts (dn_inputs n) @ ?outs)
      (additions_shapes (st_additions (node_tree n)) @ (PUNCT, ''='') # (IDENT, dn_action n) # args_shapes (st_inputs (node_tree n)) @ ?outsh)"
    by simp
  have "reads (dn_name n @ ?adds @ '' = '' @ dn_action n @ render_texts (dn_inputs n) @ ?outs)
      ((IDENT, dn_name n) # additions_shapes (st_additions (node_tree n)) @ (PUNCT, ''='') # (IDENT, dn_action n) # args_shapes (st_inputs (node_tree n)) @ ?outsh)"
    using reads_append [OF reads_word u] a(3) by simp
  from reads_append [OF reads_keyword reads_space [OF this], of "''step''"]
  show ?thesis by (simp add: step_text_def step_shapes_def node_tree_def KEYWORDS_def)
qed

lemma reads_edge: "edge_plain e \<Longrightarrow> reads (edge_text e) (edge_shapes e)"
proof -
  assume e: "edge_plain e"
  have "reads (''-->'' @ '' '' @ snd e) ((ARROW, ''-->'') # [(IDENT, snd e)])"
    by (rule reads_arrow) (use e in \<open>simp add: edge_plain_def reads_space reads_word\<close>)
  then have "reads ('' '' @ ''-->'' @ '' '' @ snd e) ((ARROW, ''-->'') # [(IDENT, snd e)])" by (simp add: reads_space)
  from reads_append [OF reads_word this, of "fst e"] show ?thesis using e by (simp add: edge_text_def edge_shapes_def edge_plain_def)
qed

lemma model_text_tokens:
  assumes "printable m"
  shows "\<exists>ts. tokenize (JStr (model_text blank m)) = Inr ts \<and> shapes ts = program_shapes (model_tree m)"
proof -
  let ?gap = "\<lambda>b. if b then [[]] else [] :: string list" and ?none = "\<lambda>b. if b then [[]] else [] :: shape list list"
  have n: "list_all2 reads (map step_text (dm_nodes m)) (map step_shapes (map node_tree (dm_nodes m)))"
    using assms by (auto simp: printable_def list_all_iff list_all2_map1 list_all2_map2 list_all2_same reads_step)
  have e: "list_all2 reads (map edge_text (dm_edges m)) (map edge_shapes (dm_edges m))"
    using assms by (auto simp: printable_def list_all_iff list_all2_map1 list_all2_map2 list_all2_same reads_edge)
  have q: "reads (quote (dm_name m)) [(STRING, dm_name m)]" using assms by (simp add: printable_def reads_quote)
  have g: "list_all2 reads (?gap b) (?none b)" for b by (simp add: reads_Nil)
  have "list_all2 reads ([quote (dm_name m)] @ ?gap (dm_nodes m \<noteq> []) @ map step_text (dm_nodes m) @ ?gap blank @ map edge_text (dm_edges m))
     ([[(STRING, dm_name m)]] @ ?none (dm_nodes m \<noteq> []) @ map step_shapes (map node_tree (dm_nodes m)) @ ?none blank @ map edge_shapes (dm_edges m))"
    by (intro list_all2_appendI n e g) (simp add: q)
  note l = reads_lines [OF this]
  have "reads [CHR 0x0A] []" using reads_newline [OF reads_Nil] by simp
  note r = reads_append [OF l this]
  let ?x = "(STRING, dm_name m) # concat (map step_shapes (map node_tree (dm_nodes m))) @ concat (map edge_shapes (dm_edges m))"
  have "reads (model_text blank m) ?x"
    using r by (cases "dm_nodes m = []"; cases blank) (simp_all add: model_text_def comp_def)
  from lexes_of_reads [OF this] have "lexes (model_text blank m) (program_shapes (model_tree m))" by (simp add: program_shapes_def model_tree_def)
  then show ?thesis by (simp add: lexes_def tokenize_def)
qed

lemma args_value_plain: "args_plain es \<Longrightarrow> args_value (es, b) = es"
proof -
  assume a: "args_plain es"
  have "foldl (\<lambda>m (k, v). put_key k v m) m es = m @ es"
    if "distinct (map fst (m @ es))" "''__proto__'' \<notin> set (map fst es)" for m
    using that by (induction es arbitrary: m) (auto simp: put_key_def oset_fresh)
  from this [of "[]"] show ?thesis using a by (simp add: args_value_def args_plain_def)
qed

lemma model_tree_value: "printable m \<Longrightarrow> program_value (model_tree m) = m"
proof -
  assume p: "printable m"
  have "step_value (node_tree n) = n" if "node_plain n" for n
  proof -
    have "additions_value (st_additions (node_tree n)) = dn_additions n"
      by (cases "dn_additions n")
        (auto simp: additions_value_def node_tree_def adds_of_def no_additions_def put_addition_def addition_keyword_def split: option.splits)
    then show ?thesis using that by (simp add: step_value_def node_tree_def node_plain_def args_value_plain)
  qed
  then show ?thesis using p by (simp add: program_value_def model_tree_def printable_def list_all_iff map_idI)
qed

lemma parse_model_text: "printable m \<Longrightarrow> parse (JStr (model_text blank m)) = Inr (model_js m)"
  using model_text_tokens [of m blank] program_accepts [of _ "model_tree m"] by (auto simp: parse_def model_tree_value)

text \<open>The view of a parsed model is that model.\<close>

definition canonical_model :: "dsl_model \<Rightarrow> bool" where
  "canonical_model m \<longleftrightarrow> printable m
     \<and> list_all (\<lambda>n. ad_batchOver (dn_additions n) \<noteq> Some [] \<and> ad_executeIf (dn_additions n) \<noteq> Some []) (dm_nodes m)"

lemma arg_entries_texts: "arg_entries (texts_js es) = es"
  by (simp add: arg_entries_def texts_js_def js_or_def comp_def case_prod_beta)

lemma text_if_when: "v \<noteq> Some [] \<Longrightarrow> text_if (case v of None \<Rightarrow> JUndef | Some x \<Rightarrow> JStr x) = v"
  by (auto simp: text_if_def split: option.splits)

lemma plain_word_nonempty: "plain_word w \<Longrightarrow> w \<noteq> []"
  by (auto simp: plain_word_def ident_def)

lemma node_fields:
  "js_get (node_js n) ''name'' = JStr (dn_name n)" "js_get (node_js n) ''action'' = JStr (dn_action n)"
  "js_get (node_js n) ''inputs'' = texts_js (dn_inputs n)"
  "js_get (node_js n) ''outputs'' = (if dn_outputs n = [] then JUndef else texts_js (dn_outputs n))"
  "js_get (node_js n) ''batchOver'' = (case ad_batchOver (dn_additions n) of None \<Rightarrow> JUndef | Some x \<Rightarrow> JStr x)"
  "js_get (node_js n) ''executeIf'' = (case ad_executeIf (dn_additions n) of None \<Rightarrow> JUndef | Some x \<Rightarrow> JStr x)"
  by (simp_all add: node_js_def when_some_def split: option.splits)

lemma view_model_js:
  assumes "canonical_model m"
  shows "view (model_js m) = m" and "serializable (model_js m)" and "array_of (js_get (model_js m) ''edges'') \<noteq> [] \<longleftrightarrow> dm_edges m \<noteq> []"
proof -
  have n: "node_view (node_js n) = n" if "n \<in> set (dm_nodes m)" for n
  proof -
    have "ad_batchOver (dn_additions n) \<noteq> Some []" "ad_executeIf (dn_additions n) \<noteq> Some []"
      using assms that by (simp_all add: canonical_model_def list_all_iff)
    then show ?thesis
      unfolding node_view_def node_fields text_if_when [OF \<open>ad_batchOver (dn_additions n) \<noteq> Some []\<close>]
        text_if_when [OF \<open>ad_executeIf (dn_additions n) \<noteq> Some []\<close>]
      by (cases "dn_outputs n") (simp_all add: join_part_def arg_entries_texts, simp_all add: arg_entries_def js_or_def)
  qed
  have e: "edge_view (edge_js e) = [e]" if "e \<in> set (dm_edges m)" for e
  proof -
    have "fst e \<noteq> []" "snd e \<noteq> []"
      using assms that by (auto simp: canonical_model_def printable_def list_all_iff edge_plain_def dest!: plain_word_nonempty)
    then show ?thesis by (simp add: edge_view_def edge_js_def)
  qed
  have f: "js_get (model_js m) ''name'' = JStr (dm_name m)" "array_of (js_get (model_js m) ''nodes'') = map node_js (dm_nodes m)"
    "array_of (js_get (model_js m) ''edges'') = map edge_js (dm_edges m)" by (simp_all add: model_js_def array_of_def)
  have "concat (map edge_view (map edge_js es)) = es" if "set es \<subseteq> set (dm_edges m)" for es
    using that by (induction es) (simp_all add: e)
  then show "view (model_js m) = m" by (simp add: view_def f js_nullish_def map_idI n comp_def)
  show "serializable (model_js m)" using f(2) by (simp add: serializable_def list_all_iff node_js_def) (simp add: model_js_def)
  show "array_of (js_get (model_js m) ''edges'') \<noteq> [] \<longleftrightarrow> dm_edges m \<noteq> []" by (simp add: f(3))
qed

lemma serialize_model_js:
  assumes "canonical_model m"
  shows "serialize (model_js m) = Inr (model_text (dm_edges m \<noteq> []) m)"
  using serialize_view [OF view_model_js(2) [OF assms]] by (simp only: view_model_js [OF assms])


section \<open>Texts that are read back\<close>

text \<open>A printer and a reader of values: the reader undoes the printer on the values it is meant for.\<close>

locale text_codec =
  fixes printed :: "'a \<Rightarrow> string" and reader :: "string \<Rightarrow> 'e + 'a" and valid :: "'a \<Rightarrow> bool"
  assumes read_printed: "valid x \<Longrightarrow> reader (printed x) = Inr x"
begin

lemma printed_inj: "valid x \<Longrightarrow> valid y \<Longrightarrow> printed x = printed y \<Longrightarrow> x = y"
  by (metis read_printed sum.inject(2))

lemma reprint: "valid x \<Longrightarrow> reader (printed x) = Inr y \<Longrightarrow> printed y = printed x"
  using read_printed [of x] by simp

end

definition dsl_read :: "string \<Rightarrow> js dsl_result" where
  "dsl_read s = parse (JStr s)"

definition dsl_print :: "js \<Rightarrow> string" where
  "dsl_print m = (case serialize m of Inr t \<Rightarrow> t | Inl _ \<Rightarrow> [])"

definition dsl_valid :: "js \<Rightarrow> bool" where
  "dsl_valid m \<longleftrightarrow> m = model_js (view m) \<and> canonical_model (view m)"

interpretation dsl: text_codec dsl_print dsl_read dsl_valid
proof
  fix m
  assume v: "dsl_valid m"
  have "serialize m = Inr (model_text (dm_edges (view m) \<noteq> []) (view m))"
    using serialize_model_js [of "view m"] v by (simp add: dsl_valid_def)
  moreover have "printable (view m)" using v by (simp add: dsl_valid_def canonical_model_def)
  moreover have "model_js (view m) = m" using v by (simp add: dsl_valid_def)
  ultimately show "dsl_read (dsl_print m) = Inr m" using parse_model_text by (simp add: dsl_read_def dsl_print_def)
qed

interpretation json: text_codec json_text "\<lambda>s. case json_parse s of None \<Rightarrow> Inl () | Some v \<Rightarrow> Inr v" json_ok
  by unfold_locales (simp add: json_parse_text)

text \<open>C37.  The round trip of \<open>dsl/index.js\<close>: a model whose names, keys and edges are words of the language and none of
  whose values falls into the backtick trap is serialized, and parsing the text gives back what \<open>view\<close>
  says was printed; serializing that again gives a text that is read back to the same model.\<close>

theorem dsl_round_trip:
  assumes "serializable m" and "canonical_model (view m)"
  shows "\<exists>t. serialize m = Inr t \<and> parse (JStr t) = Inr (model_js (view m))
    \<and> (\<exists>t'. serialize (model_js (view m)) = Inr t' \<and> parse (JStr t') = Inr (model_js (view m)) \<and>
         ((array_of (js_get m ''edges'') = [] \<longleftrightarrow> dm_edges (view m) = []) \<longrightarrow> t' = t))"
proof -
  have "printable (view m)" using assms(2) by (simp add: canonical_model_def)
  then show ?thesis
    using serialize_view [OF assms(1)] serialize_model_js [OF assms(2)] parse_model_text by auto
qed

definition sample_model :: js where
  "sample_model = JObj [(''name'', JStr ''two steps''),
     (''nodes'', JArr [JObj [(''name'', JStr ''a''), (''action'', JStr ''http.request''), (''inputs'', JObj [(''url'', JStr (''say '' @ quoted ''hi''))])],
        JObj [(''name'', JStr ''b''), (''action'', JStr ''log''), (''executeIf'', JStr ''${a.ok}''), (''retry'', JNum 3),
          (''inputs'', JObj [(''m'', JNum 5)]), (''outputs'', JObj [(''x'', JStr ''y'')])]]),
     (''edges'', JArr [JObj [(''from'', JStr ''a''), (''to'', JStr ''b'')]])]"

lemma sample_canonical: "serializable sample_model" "canonical_model (view sample_model)"
  by code_simp+

theorem dsl_round_trip_witness:
  "\<exists>t. serialize sample_model = Inr t \<and> parse (JStr t) = Inr (model_js (view sample_model))"
  using dsl_round_trip [OF sample_canonical] by blast

text \<open>
  What the contract does not cover.  The view of the sample has lost the retries and made a text of the
  number.  A value in the backtick trap and a step called like a keyword give a text that is not a program; an edge
  written without blanks is not one either, although white space is said not to matter; and an
  escaped newline is not counted, so later positions are a line off.
\<close>

lemma view_forgets:
  "(case model_js (view sample_model) of m \<Rightarrow> (case array_of (js_get m ''nodes'') of [_, n] \<Rightarrow>
      js_get n ''retry'' = JUndef \<and> js_get (js_get n ''inputs'') ''m'' = JStr ''5'' | _ \<Rightarrow> False))"
  by code_simp

definition one_step :: "string \<Rightarrow> string \<Rightarrow> js" where
  "one_step name v = JObj [(''name'', JStr ''w''), (''nodes'', JArr [JObj [(''name'', JStr name), (''action'', JStr ''log''),
     (''inputs'', JObj [(''m'', JStr v)])]])]"

definition rejected :: "js dsl_result \<Rightarrow> bool" where
  "rejected r = (case r of Inl _ \<Rightarrow> True | Inr _ \<Rightarrow> False)"

lemma unreadable_texts:
  "rejected (dsl_read (dsl_print (one_step ''a'' (quoted ''C:'' @ [CHR 0x5C]))))"
  "rejected (dsl_read (dsl_print (one_step ''step'' ''v'')))"
  "rejected (dsl_read (quoted ''w'' @ '' a-->b''))"
  "\<not> rejected (dsl_read (quoted ''w'' @ '' a -->b''))"
  by code_simp+

lemma hidden_newline:
  "(case tokenize (JStr (quoted ([CHR 0x5C, CHR 0x0A]) @ ''a'')) of Inr [_, t, _] \<Rightarrow> tk_line t = 1 | _ \<Rightarrow> False)"
  "(case tokenize (JStr (quoted ([CHR 0x0A]) @ ''a'')) of Inr [_, t, _] \<Rightarrow> tk_line t = 2 | _ \<Rightarrow> False)"
  by code_simp+

end
