(* ===== verification/FlowModel.thy ===== *)
theory FlowModel
  imports DslText Dag
begin

text \<open>
  The model of the workflow editor (\<open>frontend/src/components/flow/flowModel.js\<close>) and its text tab
  (\<open>DslEditorTab.vue\<close>): loading a stored document, saving it, and applying an edited text to the model.
  A model is the object that the source builds.  \<open>Date.now()\<close> and the layout library dagre are arguments;
  the stored text is the indented JSON of the object that \<open>serializeModelToDsl\<close> returns here.
\<close>

section \<open>Loading\<close>

definition cannot_map :: js_error where
  "cannot_map = plain_error ''map is not a function''"

definition cannot_read :: js_error where
  "cannot_read = plain_error ''Cannot read properties of null''"

text \<open>\<open>(v || []).map(f)\<close>, where the function sees the index.\<close>

definition map_array :: "(nat \<Rightarrow> js \<Rightarrow> js js_result) \<Rightarrow> js \<Rightarrow> js js_result" where
  "map_array f v =
     (case js_or v (JArr []) of
        JArr vs \<Rightarrow> res_bind (res_map (\<lambda>(i, x). f i x) (enumerate 0 vs)) (\<lambda>ws. Inr (JArr ws))
      | _ \<Rightarrow> Inl cannot_map)"

definition or_text :: "js \<Rightarrow> string \<Rightarrow> js" where
  "or_text v s = js_or v (JStr s)"

text \<open>\<open>Object.assign(out, item)\<close>; a key \<open>__proto__\<close> sets the prototype instead.\<close>

definition assign :: "(string \<times> js) list \<Rightarrow> js \<Rightarrow> (string \<times> js) list" where
  "assign out item = foldl (\<lambda>m (k, v). if k = ''__proto__'' then m else oset k v m) out (js_entries item)"

definition kvFromAny :: "js \<Rightarrow> (string \<times> js) list" where
  "kvFromAny v =
     (if \<not> truthy v then []
      else case v of
        JArr items \<Rightarrow> foldl (\<lambda>out item. if is_objlike item then assign out item else out) [] items
      | _ \<Rightarrow> js_entries v)"

definition node_model :: "js \<Rightarrow> js" where
  "node_model n =
     JObj [(''name'', or_text (js_get n ''name'') []), (''action'', or_text (js_get n ''action'') []),
       (''description'', or_text (js_get n ''description'') []), (''inputs'', JObj (kvFromAny (js_get n ''inputs''))),
       (''outputs'', JObj (kvFromAny (js_get n ''outputs''))), (''executeIf'', or_text (js_get n ''executeIf'') []),
       (''retry'', js_or (js_get n ''retry'') (JNum 0)), (''retryDelay'', js_or (js_get n ''retryDelay'') (JNum 0)),
       (''onError'', or_text (js_get n ''onError'') ''terminate''), (''batchOver'', or_text (js_get n ''batchOver'') []),
       (''outputVar'', or_text (js_get n ''outputVar'') [])]"

definition normalizeNode :: "js \<Rightarrow> js js_result" where
  "normalizeNode n = (if nullish n then Inl cannot_read else Inr (node_model n))"

definition edge_copy :: "js \<Rightarrow> js js_result" where
  "edge_copy e = (if nullish e then Inl cannot_read else Inr (JObj [(''from'', js_get e ''from''), (''to'', js_get e ''to'')]))"

definition coordinate :: "js \<Rightarrow> nat \<Rightarrow> js" where
  "coordinate v i = (case v of JNum r \<Rightarrow> JNum r | _ \<Rightarrow> JNum (of_nat (100 + i * 24)))"

definition normalize_note :: "nat \<Rightarrow> nat \<Rightarrow> js \<Rightarrow> js js_result" where
  "normalize_note now i n =
     (if nullish n then Inl cannot_read
      else Inr (JObj [(''id'', JStr (js_string (js_or (js_get n ''id'') (JStr (''note-'' @ show_nat i @ ''-'' @ show_nat now))))),
        (''text'', JStr (js_string (or_text (js_get n ''text'') []))),
        (''x'', coordinate (js_get n ''x'') i), (''y'', coordinate (js_get n ''y'') i)]))"

definition default_meta :: "(string \<times> js) list" where
  "default_meta = [(''prompt'', JStr []), (''positions'', JObj []), (''notes'', JArr [])]"

definition normalize :: "nat \<Rightarrow> js \<Rightarrow> js js_result" where
  "normalize now doc =
     (let meta = omerge default_meta (js_entries (js_or (js_get doc ''meta'') (JObj []))) in
      res_bind (map_array (normalize_note now) (js_get (JObj meta) ''notes'')) (\<lambda>notes.
      res_bind (map_array (\<lambda>_. normalizeNode) (js_get doc ''nodes'')) (\<lambda>nodes.
      res_bind (map_array (\<lambda>_. edge_copy) (js_get doc ''edges'')) (\<lambda>edges.
        Inr (JObj [(''name'', or_text (js_get doc ''name'') ''untitled''), (''description'', or_text (js_get doc ''description'') []),
          (''data'', js_or (js_get doc ''data'') (JObj [])), (''meta'', JObj (oset ''notes'' notes meta)),
          (''nodes'', nodes), (''edges'', edges)])))))"

definition parseDslToModel :: "nat \<Rightarrow> js \<Rightarrow> js js_result" where
  "parseDslToModel now v =
     (if nullish v \<or> v = JStr [] then normalize now (JObj [])
      else case json_parse (js_string v) of
        None \<Rightarrow> Inl (plain_error ''Invalid JSON'')
      | Some doc \<Rightarrow> normalize now (js_or doc (JObj [])))"


section \<open>Saving\<close>

definition js_keep :: "bool \<Rightarrow> string \<Rightarrow> js \<Rightarrow> (string \<times> js) list" where
  "js_keep b k v = (if b then [(k, v)] else [])"

text \<open>\<open>v && Object.keys(v).length\<close>\<close>

definition has_keys :: "js \<Rightarrow> bool" where
  "has_keys v \<longleftrightarrow> truthy v \<and> js_entries v \<noteq> []"








section \<open>Names and positions\<close>

definition name_char :: "char \<Rightarrow> char" where
  "name_char c = (if isIdentStart c \<or> is_digit c \<or> c = CHR ''-'' then c else CHR ''_'')"

text \<open>\<open>taken\<close> are the names in use; the last resort carries the time and is not checked.\<close>

definition numbered_name :: "nat \<Rightarrow> string list \<Rightarrow> string \<Rightarrow> string" where
  "numbered_name now taken base =
     (if base \<notin> set taken then base
      else case find (\<lambda>i. base @ ''-'' @ show_nat i \<notin> set taken) [2..<1000] of
        Some i \<Rightarrow> base @ ''-'' @ show_nat i
      | None \<Rightarrow> base @ ''-'' @ show_nat now)"

definition uniqueNodeName :: "nat \<Rightarrow> string list \<Rightarrow> string \<Rightarrow> string" where
  "uniqueNodeName now taken pre =
     (let last_part = last (split_str ''.'' (if pre = [] then ''node'' else pre)) in
      numbered_name now taken (if last_part = [] then ''node'' else map name_char last_part))"

lemma find_untaken:
  assumes "finite A" and "card A < length xs" and "distinct xs" and "inj_on f (set xs)"
  shows "\<exists>i. find (\<lambda>i. f i \<notin> A) xs = Some i \<and> f i \<notin> A"
proof (cases "find (\<lambda>i. f i \<notin> A) xs")
  case None
  then have "f ` set xs \<subseteq> A" by (auto simp: find_None_iff)
  then have "card (f ` set xs) \<le> card A" using assms(1) by (rule card_mono [rotated])
  then show ?thesis using assms by (simp add: card_image distinct_card)
qed (auto simp: find_Some_iff)

lemma unique_name_is_new:
  assumes "card (set taken) < 998"
  shows "uniqueNodeName now taken pre \<notin> set taken"
proof -
  have "numbered_name now taken b \<notin> set taken" for b
  proof -
    have "\<exists>i. find (\<lambda>i. b @ ''-'' @ show_nat i \<notin> set taken) [2..<1000] = Some i \<and> b @ ''-'' @ show_nat i \<notin> set taken"
      by (rule find_untaken) (use assms in \<open>auto simp: inj_on_def dest: show_nat_inj simp del: upt_rec_numeral\<close>)
    then show ?thesis by (auto simp: numbered_name_def simp del: upt_rec_numeral)
  qed
  then show ?thesis by (simp add: uniqueNodeName_def Let_def)
qed

text \<open>A coordinate pair of an object, when both are numbers.\<close>

definition point_of :: "js \<Rightarrow> (rat \<times> rat) option" where
  "point_of p = (case (js_get p ''x'', js_get p ''y'') of (JNum x, JNum y) \<Rightarrow> Some (x, y) | _ \<Rightarrow> None)"

definition point_js :: "rat \<times> rat \<Rightarrow> js" where
  "point_js p = JObj [(''x'', JNum (fst p)), (''y'', JNum (snd p))]"

text \<open>Kept positions, then those of the layout for the nodes without one; an inherited name counts as present.\<close>

definition mergePositionsWithLayout :: "(string \<Rightarrow> (rat \<times> rat) option) \<Rightarrow> string list \<Rightarrow> js \<Rightarrow> (string, js) omap" where
  "mergePositionsWithLayout layout names existing =
     (let kept = concat (map (\<lambda>n. case point_of (js_get existing n) of Some p \<Rightarrow> [(n, point_js p)] | None \<Rightarrow> []) (remdups names));
          orphans = filter (\<lambda>n. \<not> obj_in n kept) names in
      foldl (\<lambda>m n. case layout n of Some (x, y) \<Rightarrow> oset n (point_js (x - 85, y - 30)) m | None \<Rightarrow> m) kept orphans)"

lemma kept_positions:
  assumes "n \<in> set names" and "point_of (js_get existing n) = Some p"
  shows "oget (mergePositionsWithLayout layout names existing) n = Some (point_js p)"
proof -
  define kept where "kept = concat (map (\<lambda>n. case point_of (js_get existing n) of Some p \<Rightarrow> [(n, point_js p)] | None \<Rightarrow> []) (remdups names))"
  have "oget (concat (map (\<lambda>n. case point_of (js_get existing n) of Some p \<Rightarrow> [(n, point_js p)] | None \<Rightarrow> []) ns)) n = Some (point_js p)"
    if "n \<in> set ns" for ns
    using that by (induction ns) (auto simp: assms(2) split: option.splits)
  from this [of "remdups names"] have k: "oget kept n = Some (point_js p)" using assms(1) by (simp add: kept_def)
  then have o: "n \<notin> set (filter (\<lambda>n. \<not> obj_in n kept) names)" by (force simp: obj_in_def dest: map_of_SomeD)
  have "oget (foldl (\<lambda>m n. case layout n of Some (x, y) \<Rightarrow> oset n (point_js (x - 85, y - 30)) m | None \<Rightarrow> m) m ns) n = oget m n"
    if "n \<notin> set ns" for m ns
    using that by (induction ns arbitrary: m) (auto split: option.splits)
  from this [OF o, of kept] k show ?thesis by (simp add: mergePositionsWithLayout_def kept_def Let_def)
qed


section \<open>Loading and saving a workflow\<close>











lemma map_of_keep [simp]:
  "map_of (js_keep b k v @ r) k' = (if b \<and> k' = k then Some v else map_of r k')"
  "map_of (js_keep b k v) k' = (if b \<and> k' = k then Some v else None)"
  by (simp_all add: js_keep_def)


lemma keep_value: "(case (if b then Some v else None) of Some w \<Rightarrow> w | None \<Rightarrow> JUndef) = (if b then v else JUndef)"
  by simp

























definition right :: "js_error + 'a \<Rightarrow> 'a \<Rightarrow> 'a" where
  "right r d = (case r of Inr x \<Rightarrow> x | Inl _ \<Rightarrow> d)"



section \<open>The text tab\<close>









text \<open>Inputs and outputs whose values have become texts.\<close>

definition as_texts :: "js \<Rightarrow> js" where
  "as_texts v = JObj (map (apsnd (JStr \<circ> js_string)) (js_entries v))"

definition textual :: "js \<Rightarrow> js" where
  "textual n = JObj (oset ''inputs'' (as_texts (js_get n ''inputs'')) (oset ''outputs'' (as_texts (js_get n ''outputs'')) (js_entries n)))"


lemma has_keys_texts: "has_keys (texts_js es) \<longleftrightarrow> es \<noteq> []"
  by (simp add: has_keys_def texts_js_def)














definition editor_sample :: js where
  "editor_sample = right (normalize 7 (JObj [(''name'', JStr ''w''),
     (''nodes'', JArr [JObj [(''name'', JStr ''a''), (''action'', JStr ''http.request''), (''retry'', JNum 2),
        (''inputs'', JObj [(''headers'', JObj [(''x'', JStr ''y'')]), (''timeout'', JNum 500)])],
       JObj [(''name'', JStr ''b''), (''action'', JStr ''log''), (''executeIf'', JStr ''${a.ok}'')]]),
     (''edges'', JArr [JObj [(''from'', JStr ''a''), (''to'', JStr ''b'')]])])) JUndef"


text \<open>An object among the inputs becomes the text that JavaScript gives every object.\<close>

lemma objects_lost_in_the_text:
  "(case array_of (js_get editor_sample ''nodes'') of n # _ \<Rightarrow> js_get (js_get (textual n) ''inputs'') ''headers'' = JStr ''[object Object]'' | [] \<Rightarrow> False)"
  by code_simp

end
