(* ===== verification/Spec2Isabelle.thy ===== *)
theory Spec2Isabelle
  imports ExecutorRuns Batch Worker MemoryStore Tags AuthMiddleware RateLimit PluginGrants Quotas
    DataSubject Routing Chunk Retention AgentTools Elevation Users FlowModel
begin

text \<open>
  A model of the backend of Daisy (\<open>src/backend/src\<close>) and of the workflow documents in its frontend.
  Daisy is a workflow engine: documents are parsed into a DAG, stored, queued, and run by workers;
  users and API keys reach them through permissions, quotas and grants; agents inside the workflows
  pass guardrails, compliance rules and model routes; a retention job cleans up; a designer edits the
  documents as a graph and as a text.  Every definition is a translation of a JavaScript function or
  handler; a thrown error is the left value of a sum (\<open>Errors\<close>), database tables are lists or
  insertion-ordered maps of rows, and whatever is not in the repository is an argument.

  The language (\<open>Prelude\<close>, \<open>JsValue\<close>, \<open>JsString\<close>, \<open>JsRegex\<close>, \<open>Sql\<close>).  Values with truthiness,
  conversions and property reads; the string methods; regular expressions with the backtracking
  semantics, one constructor per operator of a pattern; the statements of the handlers whose
  behaviour depends on the schema.  \<open>Prelude\<close> also holds the locales of a keyed store and of an
  upserted table.

  From a document to a run.
    \<^item> \<open>Workflow\<close> (\<open>dsl/schema.js\<close>), \<open>Expression\<close> (\<open>dsl/expression.js\<close>), \<open>Dag\<close> (\<open>dsl/parser.js\<close>,
      \<open>engine/scheduler.js\<close>): what \<open>parseDag\<close> accepts and the tables \<open>buildDag\<close> makes of it.  The
      countdown of indegrees is a locale, used by Kahn's algorithm and by the executor.
    \<^item> \<open>ExecLimits\<close> (\<open>engine/limits.js\<close>), \<open>NodeStateStore\<close> (\<open>engine/nodeStateStore.js\<close>), \<open>MemoryStore\<close>
      (\<open>engine/memoryStore.js\<close>), \<open>Tags\<close> (\<open>utils/tags.js\<close>): what a run reads and writes.
    \<^item> \<open>Executor\<close> (\<open>engine/executor.js\<close>): every stretch of \<open>executeDag\<close> between two awaits is a function
      on the state of the run; \<open>ExecutorRun\<close> closes them into a step relation in which calls in
      flight settle in any order.  \<open>ExecutorInv\<close>, \<open>ExecutorSafety\<close>, \<open>ExecutorProps\<close>, \<open>ExecutorEnd\<close>,
      \<open>ExecutorLive\<close> and \<open>ExecutorRuns\<close> prove the invariant, what outcomes mean, and that runs end.
    \<^item> \<open>Batch\<close> (\<open>engine/batch.js\<close>), \<open>Worker\<close> (\<open>worker.js\<close>), \<open>ExecApi\<close> (\<open>api/executions.js\<close>): the pool of
      a batch, one queue job, and the handlers that resume, skip, answer and delete executions.

  Who may do what.
    \<^item> \<open>Permissions\<close>, \<open>Quotas\<close>, \<open>PluginGrants\<close>, \<open>Tokens\<close>, \<open>ApiKeys\<close> (\<open>auth/*.js\<close>), \<open>Sessions\<close>
      (\<open>api/auth.js\<close>, \<open>auth/passwords.js\<close>), \<open>AuthMiddleware\<close> and \<open>RateLimit\<close> (\<open>middleware/*.js\<close>).
    \<^item> \<open>Elevation\<close> (\<open>api/jitGrants.js\<close>, \<open>api/customRoles.js\<close>, \<open>api/resourceGrants.js\<close>): the writes that give
      permissions, against the resolver that reads them; \<open>Users\<close> (\<open>api/users.js\<close>, \<open>api/workspaces.js\<close>): the
      last admin of a workspace, and the role that a token carries into another one.

  Agents and data.
    \<^item> \<open>TtlCache\<close>: the locale of the in-process caches; every answer was the source's within the time to
      live and since the last eviction.
    \<^item> \<open>PiiDetector\<close>, \<open>Guardrails\<close> (\<open>guardrails/**\<close>), \<open>Compliance\<close> (\<open>compliance/*.js\<close> and the two
      endpoints that write their settings), \<open>DataSubject\<close> (export and erasure in \<open>api/compliance.js\<close>
      over the schema of the migrations).
    \<^item> \<open>Routing\<close> (\<open>routing/dispatcher.js\<close>), \<open>Prompts\<close> (\<open>prompts/render.js\<close>), \<open>Chunk\<close> (\<open>rag/chunk.js\<close>).
    \<^item> \<open>Json\<close>: \<open>JSON.stringify\<close> and \<open>JSON.parse\<close>, with the round trip that the texts of models, the cache keys
      and the request bodies rest on.
    \<^item> \<open>Registry\<close> (\<open>plugins/registry.js\<close>): which plugin an action means, and how a call reaches it.
    \<^item> \<open>AgentUtil\<close> (\<open>plugins/agent/util.js\<close>, \<open>imageInput.js\<close>), \<open>PromptCache\<close> (\<open>cache.js\<close>), \<open>Pricing\<close> (\<open>pricing.js\<close>,
      \<open>usage.js\<close>), \<open>AgentCall\<close> (\<open>builtin/agent.js\<close>, \<open>structured.js\<close>): one call of an agent, from the guarded
      input to the metered, guarded and remembered answer.
    \<^item> \<open>ToolDispatch\<close> (\<open>toolDispatch.js\<close>) and \<open>AgentTools\<close> (\<open>builtin/agent.tools.js\<close>): a model that calls plugins.
    \<^item> \<open>Retention\<close> (\<open>retention/*.js\<close>): the locale of a bounded delete, interpreted on every policy.

  The designer (\<open>src/frontend/src\<close>).
    \<^item> \<open>DslLexer\<close> (\<open>dsl/lexer.js\<close>, and \<open>quote\<close> of the serializer), \<open>DslParser\<close> (\<open>dsl/parser.js\<close>): the text form of
      workflows, with the messages and positions of every error.  \<open>DslGrammar\<close> holds the grammar as
      trees with a value; the parser accepts its sentences and returns their values.
    \<^item> \<open>DslText\<close> (\<open>dsl/serializer.js\<close>): the printer, and the locale of a text codec, interpreted on this
      text and on JSON.
    \<^item> \<open>FlowModel\<close> (\<open>components/flow/flowModel.js\<close>, the functions of \<open>DslEditorTab.vue\<close>): what the designer keeps
      of a stored workflow, and what applying a text keeps of the model.

  This theory holds the properties that join components: acceptance and execution, the order and
  the end of runs, skips, resumption, answers, the worker's final status, and what is stored.  The
  properties of one component stand at the end of its theory.

  Bounds and fuel.  A global regular-expression scan has fuel length + 2 and a repetition the
  characters left plus its lower bound (\<open>match_all_fuel_enough\<close>, \<open>rep_ms\<close>): each step consumes a
  character or moves on.  Runs need no fuel: \<open>step_rank\<close> is a measure that every step lowers.  The
  resolution of roles and the drain of a retention policy recurse on their pass counters.

  Not modelled.  The rest of the web frontend (Vue components and pages); the HTTP plumbing of the routers, the web
  socket, the queue and Redis; telemetry, logging and the audit log's insert; the other built-in plugins
  and the clients of the model providers, of S3, of mail and of the vector stores (they only call
  services); the FEEL evaluator, Ajv, bcrypt, the JWT library, the hash functions and the
  moderation service, which are parameters with the behaviour the theorems name; SAML and OIDC
  redirects; triggers (croner, MQTT, IMAP); the self-healing diagnosis, which asks a model.
  Numbers are exact rationals instead of doubles, characters are bytes instead of UTF-16 units, and
  properties inherited from a prototype are read as undefined except where a theory says otherwise.
\<close>

text \<open>C8.  Acceptance of a workflow (\<open>parser.js\<close>, after the schema check): \<open>check_workflow\<close> returns a
  workflow exactly when the key-value lists normalise, the node names are distinct, every edge joins
  two different declared nodes, every required input is present and the graph has no cycle; what it
  returns is the input with the normalised nodes.\<close>

theorem workflow_accepted_iff:
  "check_workflow required w = Inr w' \<longleftrightarrow>
     (\<exists>ns. res_map normalize_node (w_nodes w) = Inr ns \<and> w' = w\<lparr>w_nodes := ns\<rparr> \<and>
       distinct (node_names w') \<and>
       list_all (\<lambda>e. e_from e \<in> set (node_names w') \<and> e_to e \<in> set (node_names w') \<and> e_from e \<noteq> e_to e) (w_edges w') \<and>
       list_all (required_present required) (w_nodes w') \<and> acyclic (edge_rel (w_edges w')))"
  unfolding check_workflow_iff well_formed_def graph_ok_def list_all_iff by blast








text \<open>C6.  An outcome, once recorded, is never rewritten or lost for the rest of the run.\<close>

theorem outcomes_are_final:
  assumes "run_state eng data nps s" "live s" "exec_reach eng s s'" "x_crash s' = None" "oget (x_results s) v = Some oc"
  shows "oget (x_results s') v = Some oc"
  using run_kept [OF assms(1-4) oget_mem_keys [OF assms(5)]] assms(5) by simp

theorem outcomes_are_final_witness:
  "\<exists>oc. oget (x_results (sample_run 30 [] [])) ''fetch'' = Some oc \<and> o_output oc = JNum 1"
proof -
  obtain oc where oc: "oget (x_results (sample_run 4 [] [])) ''fetch'' = Some oc" "o_output oc = JNum 1"
  proof -
    have "map_option o_output (oget (x_results (sample_run 4 [] [])) ''fetch'') = Some (JNum 1)" by code_simp
    then show ?thesis using that by auto
  qed
  have "oget (x_results (sample_run 30 [] [])) ''fetch'' = Some oc"
  proof (rule outcomes_are_final [OF sample_state(1) _ _ _ oc(1)])
    show "live (sample_run 4 [] [])" by code_simp
    have "sample_run 30 [] [] = drive 26 sample_eng sample_oracle (JStr ''t'') (sample_run 4 [] [])"
      by (simp add: sample_run_def drive_add)
    then show "exec_reach sample_eng (sample_run 4 [] []) (sample_run 30 [] [])" by (simp add: drive_reach)
    show "x_crash (sample_run 30 [] []) = None" by code_simp
  qed
  with oc(2) show ?thesis by blast
qed

text \<open>C5.  Resume: a node that the previous run left with status success, failed, skipped or waiting keeps its
  outcome at every moment of the resumed run and is never started again.\<close>

theorem resumed_nodes_not_rerun:
  assumes "run_state eng data nps s" "live s" "(v, oc) \<in> set nps" "v \<in> nds eng" "hydratable oc"
  shows "oget (x_results s) v = Some oc \<and> v \<notin> runs s"
  by (rule run_hydrated [OF assms])

theorem resumed_nodes_not_rerun_witness:
  "oget (x_results (sample_run 3 [] [(''fetch'', outcome0 ''success'')])) ''fetch'' = Some (outcome0 ''success'')
   \<and> ''fetch'' \<notin> runs (sample_run 3 [] [(''fetch'', outcome0 ''success'')])"
proof (rule resumed_nodes_not_rerun)
  have "live (start_run sample_eng [] [(''fetch'', outcome0 ''success'')])" by code_simp
  then show "run_state sample_eng [] [(''fetch'', outcome0 ''success'')] (sample_run 3 [] [(''fetch'', outcome0 ''success'')])"
    by (simp add: run_state_def sample_ok sample_reach)
  show "live (sample_run 3 [] [(''fetch'', outcome0 ''success'')])" by code_simp
  show "(''fetch'', outcome0 ''success'') \<in> set [(''fetch'', outcome0 ''success'')]" by simp
  show "''fetch'' \<in> nds sample_eng" by code_simp
  show "hydratable (outcome0 ''success'')" by code_simp
qed

text \<open>C1.  What the status success of a run promises: every node of the workflow succeeded or was skipped;
  none failed, waits, or was never reached.\<close>

theorem success_means_done:
  assumes "run_state eng data nps s" "x_status s = Some ''success''" "x_crash s = None" "v \<in> nds eng"
  shows "status_of s v = Some ''success'' \<or> status_of s v = Some ''skipped''"
proof -
  have eng: "engine_ok eng" and l0: "live (start_run eng data nps)" and r: "exec_reach eng (start_run eng data nps) s"
    using assms(1) by (simp_all add: run_state_def)
  obtain s1 where s1: "exec_reach eng (start_run eng data nps) s1" "live s1" "x_layer s1 = None"
      "x_ready s1 = [] \<or> x_aborting s1 \<noteq> None" "s = finish_run eng s1"
    using final_from [OF r eng l0] assms(2) by auto
  have c: "x_crash (finish_run eng s1) = None" using assms(3) s1(5) by simp
  note fe = finish_run_effect [OF eng c]
  have "overall_status s = ''success''" using fe(3) assms(2) s1(5) by simp
  then have ab: "x_aborting s = None" and nf: "''failed'' \<notin> set (map (o_status \<circ> snd) (x_results s))"
      and nw: "''waiting'' \<notin> set (map (o_status \<circ> snd) (x_results s))"
    by (auto simp: overall_status_def Let_def split: if_splits)
  have bad: "status_of s w \<noteq> Some ''failed'' \<and> status_of s w \<noteq> Some ''waiting''" for w
    using nf nw status_listed by blast
  have run1: "run_state eng data nps s1" using assms(1) s1(1) by (simp add: run_state_def)
  obtain D where D: "sched_inv eng (res (start_run eng data nps)) D s1" using run_inv [OF run1 s1(2)] by blast
  have kept: "status_of s w = status_of s1 w" if "w \<in> res s1" for w
  proof -
    from that have "oget (x_results s1) w \<noteq> None" by (simp add: oget_None_iff)
    then show ?thesis using fe(4) [of w] by (simp add: status_of_def s1(5))
  qed
  have ab1: "x_aborting s1 = None" using fe(2) ab s1(5) by simp
  have nw1: "status_of s1 w \<noteq> Some ''waiting''" if "w \<in> res s1" for w
    using kept [OF that] bad [of w] by simp
  have rdy: "x_ready s1 = []" using s1(4) ab1 by simp
  have "D = nds eng" by (rule end_all_done [OF eng D s1(3) rdy ab1 nw1])
  with D assms(4) have "v \<in> D" and core: "core_inv eng (res (start_run eng data nps)) D s1"
    by (simp_all add: sched_inv_def)
  then obtain st where st: "status_of s1 v = Some st" "terminal_status st" using core_done by blast
  have "v \<in> res s1" unfolding status_res using st(1) by blast
  then show ?thesis using kept bad [of v] st by (auto simp: terminal_status_def)
qed

theorem success_means_done_witness:
  "status_of (sample_run 30 [(''flag'', JBool False)] []) ''mail'' = Some ''success'' \<or>
   status_of (sample_run 30 [(''flag'', JBool False)] []) ''mail'' = Some ''skipped''"
proof (rule success_means_done [OF sample_state(2)])
  show "x_status (sample_run 30 [(''flag'', JBool False)] []) = Some ''success''" by (rule sample_flag_off)
  show "x_crash (sample_run 30 [(''flag'', JBool False)] []) = None" by code_simp
  show "''mail'' \<in> nds sample_eng" by code_simp
qed

text \<open>C10.  When a run ends, every node of the workflow has an outcome, the status is one of the four final ones,
  and it is failed exactly when the run was aborted by a node whose onError is terminate.\<close>

theorem every_node_reported:
  assumes "run_state eng data nps s" "x_status s = Some st" "x_crash s = None" "v \<in> nds eng"
  shows "(\<exists>oc. oget (x_results s) v = Some oc) \<and> st \<in> {''success'', ''partial'', ''waiting'', ''failed''}
    \<and> (st = ''failed'' \<longleftrightarrow> x_aborting s \<noteq> None)"
proof -
  have eng: "engine_ok eng" and l0: "live (start_run eng data nps)" and r: "exec_reach eng (start_run eng data nps) s"
    using assms(1) by (simp_all add: run_state_def)
  obtain s1 where s1: "s = finish_run eng s1" using final_from [OF r eng l0] assms(2) by auto
  have c: "x_crash (finish_run eng s1) = None" using assms(3) s1 by simp
  note fe = finish_run_effect [OF eng c]
  have "st = overall_status s" using fe(3) assms(2) s1 by simp
  moreover have "\<exists>oc. oget (x_results s) v = Some oc"
    using fe(4,5) [of v] assms(4) s1 by (cases "oget (x_results s1) v") (auto simp: status_of_def)
  ultimately show ?thesis by (auto simp: overall_status_def Let_def)
qed

theorem every_node_reported_witness:
  "(\<exists>oc. oget (x_results (sample_run 30 [] [])) ''mail'' = Some oc)
   \<and> ''success'' \<in> {''success'', ''partial'', ''waiting'', ''failed''}
   \<and> (''success'' = ''failed'' \<longleftrightarrow> x_aborting (sample_run 30 [] []) \<noteq> None)"
proof (rule every_node_reported [OF sample_state(1) sample_final(1)])
  show "x_crash (sample_run 30 [] []) = None" by code_simp
  show "''mail'' \<in> nds sample_eng" by code_simp
qed

text \<open>C11.  No item of a node is called more often than its retry budget plus one.\<close>

theorem retries_bounded:
  assumes "run_state eng data nps s" "live s" "oget (x_running s) v = Some j" "byName_of eng v = Some node"
    "i < length (j_items j)"
  shows "int (it_attempt (j_items j ! i)) \<le> max_retries eng node + 1"
proof -
  obtain D where "core_inv eng (res (start_run eng data nps)) D s"
    using run_inv [OF assms(1,2)] by (auto simp: sched_inv_def)
  then have "job_ok eng node j" using assms(3,4) by (simp add: core_inv_def jobs_ok_def)
  then show ?thesis using assms(5) by (simp add: job_ok_def item_ok_def list_all_length)
qed

theorem retries_bounded_witness:
  "\<exists>j. oget (x_running (sample_run 8 [] [])) ''store'' = Some j \<and> it_attempt (j_items j ! 0) = 2
     \<and> int (it_attempt (j_items j ! 0)) \<le> max_retries sample_eng (sample_node ''store'' [] []) + 1"
proof -
  have "map_option (\<lambda>j. (length (j_items j), it_attempt (j_items j ! 0))) (oget (x_running (sample_run 8 [] [])) ''store'') = Some (1, 2)"
    by code_simp
  then obtain j where j: "oget (x_running (sample_run 8 [] [])) ''store'' = Some j" "length (j_items j) = 1"
      "it_attempt (j_items j ! 0) = 2" by auto
  have l: "live (sample_run 8 [] [])" by code_simp
  have b: "byName_of sample_eng ''store'' = Some (sample_node ''store'' [] [])" by code_simp
  have "int (it_attempt (j_items j ! 0)) \<le> max_retries sample_eng (sample_node ''store'' [] []) + 1"
    by (rule retries_bounded [OF sample_state(1) l j(1) b]) (simp add: j(2))
  with j show ?thesis by blast
qed

text \<open>C3.  Termination, as a fact and not only if it returns: when no output variable is called \<open>nodes\<close> and the registry
  knows the actions, a run never throws, from every reachable state a final status can be reached,
  and there is no infinite sequence of steps, whatever the calls do.\<close>

theorem run_always_ends:
  assumes "engine_ok eng" "outputs_safe eng" "distinct (map fst nps)" "exec_reach eng (start_run eng data nps) s"
  shows "x_crash s = None \<and>
    (\<exists>s'. exec_reach eng s s' \<and> (\<exists>st. x_status s' = Some st) \<and> x_crash s' = None) \<and>
    \<not> (\<exists>f. f 0 = s \<and> (\<forall>i. exec_step eng (f i) (f (Suc i))))"
proof -
  have m: "mirrored s" using reach_mirrored [OF assms(4,1,2) start_mirrored [OF assms(1,2)]] .
  then have c: "x_crash s = None" by (simp add: mirrored_def)
  have l0: "live (start_run eng data nps)"
    using start_mirrored [OF assms(1,2), of data nps]
    by (simp add: live_def mirrored_def start_run_status)
  show ?thesis
  proof (cases "live s")
    case True
    have inv: "\<exists>D. sched_inv eng (res (start_run eng data nps)) D s"
      using run_inv [of eng data nps s] assms l0 True by (simp add: run_state_def)
    have "\<not> (\<exists>f. f 0 = s \<and> (\<forall>i. exec_step eng (f i) (f (Suc i))))"
      using no_infinite_run [OF assms(1), of "res (start_run eng data nps)"] inv by blast
    with run_ends_from [OF assms(1,2) inv True m] c show ?thesis by auto
  next
    case False
    then have "x_status s \<noteq> None" using c by (simp add: live_def)
    moreover have "\<not> (\<exists>f. f 0 = s \<and> (\<forall>i. exec_step eng (f i) (f (Suc i))))"
      using False step_live by metis
    ultimately show ?thesis using c by blast
  qed
qed

theorem run_always_ends_witness:
  "\<exists>s'. exec_reach sample_eng (sample_run 7 [] []) s' \<and> (\<exists>st. x_status s' = Some st) \<and> x_crash s' = None"
  using run_always_ends [OF sample_ok sample_safe _ sample_reach [where n = 7 and data = "[]" and nps = "[]"]] by simp

text \<open>C24.  Liveness of a run: every schedule of the event loop that never stops while a step is possible comes,
  after finitely many steps, to a state with a final status and no error, and stays there.\<close>

theorem every_schedule_finishes:
  assumes "engine_ok eng" "outputs_safe eng" "distinct (map fst nps)" "f 0 = start_run eng data nps"
    and "\<And>i. exec_step eng (f i) (f (Suc i)) \<or> f (Suc i) = f i \<and> \<not> (\<exists>s. exec_step eng (f i) s)"
  shows "\<exists>n st. x_status (f n) = Some st \<and> x_crash (f n) = None \<and> (\<forall>m \<ge> n. f m = f n)"
proof -
  have reach: "exec_reach eng (start_run eng data nps) (f i)" for i
  proof (induction i)
    case 0
    then show ?case using assms(4) by simp
  next
    case (Suc i)
    then show ?case using assms(5) [of i] by (auto intro: rtranclp.rtrancl_into_rtrancl)
  qed
  have crash: "x_crash (f i) = None" for i
    using reach_mirrored [OF reach assms(1,2) start_mirrored [OF assms(1,2)]] by (simp add: mirrored_def)
  have l0: "live (start_run eng data nps)"
    using start_mirrored [OF assms(1,2), of data nps] by (simp add: live_def mirrored_def start_run_status)
  have inv: "\<exists>D. sched_inv eng (res (start_run eng data nps)) D (f i)" if "live (f i)" for i
    using run_inv [of eng data nps "f i"] assms(1,3) reach that l0 by (simp add: run_state_def)
  have "\<exists>n. \<not> live (f n)"
  proof (rule ccontr)
    assume "\<nexists>n. \<not> live (f n)"
    then have l: "live (f i)" for i by blast
    have "exec_step eng (f i) (f (Suc i))" for i
      using assms(5) [of i] run_progress [OF assms(1) _ l] inv [OF l] by blast
    then show False using no_infinite_run [OF assms(1) inv [OF l]] by blast
  qed
  then obtain n where n: "\<not> live (f n)" by blast
  have stay: "f m = f n" if "m \<ge> n" for m
    using that
  proof (induction m rule: dec_induct)
    case (step m)
    then have "\<not> (\<exists>s. exec_step eng (f m) s)" using n step_live by metis
    then show ?case using assms(5) [of m] step.IH by auto
  qed simp
  from n crash obtain st where "x_status (f n) = Some st" by (auto simp: live_def)
  then show ?thesis using crash stay by blast
qed

theorem every_schedule_finishes_witness:
  "\<exists>(f :: nat \<Rightarrow> exec) n st. f 0 = start_run sample_eng [] [] \<and> x_status (f n) = Some st \<and> (\<forall>m \<ge> n. f m = f n)"
proof -
  let ?next = "\<lambda>s. if \<exists>s'. exec_step sample_eng s s' then SOME s'. exec_step sample_eng s s' else s"
  define f where "f = rec_nat (start_run sample_eng [] []) (\<lambda>_. ?next)"
  have f0: "f 0 = start_run sample_eng [] []" by (simp add: f_def)
  have step: "exec_step sample_eng (f i) (f (Suc i)) \<or> f (Suc i) = f i \<and> \<not> (\<exists>s. exec_step sample_eng (f i) s)" for i
    by (auto simp: f_def intro: someI)
  have "\<exists>n st. x_status (f n) = Some st \<and> x_crash (f n) = None \<and> (\<forall>m \<ge> n. f m = f n)"
    by (rule every_schedule_finishes [OF sample_ok sample_safe _ f0 step]) simp
  then obtain n st where "x_status (f n) = Some st" "\<forall>m \<ge> n. f m = f n" by blast
  then show ?thesis using f0 by blast
qed

definition inherited_wf :: workflow where
  "inherited_wf = sample_wf\<lparr>w_nodes := [sample_node ''fetch'' [] [], sample_node ''constructor'' [] []],
     w_edges := [\<lparr>e_from = ''fetch'', e_to = ''constructor''\<rparr>]\<rparr>"

definition inherited_run :: "nat \<Rightarrow> exec option" where
  "inherited_run n =
     (case new_engine (\<lambda>_. None) (\<lambda>_ _. Inr JUndef) (\<lambda>_. Inr None) inherited_wf [] of
        Inl _ \<Rightarrow> None
      | Inr eng \<Rightarrow> Some (drive n eng sample_oracle (JStr ''t'') (start_run eng [] [])))"

text \<open>A node whose name plain objects inherit is accepted by the parser but never run: the results are
  kept in a plain object, so \<open>nodeResults["constructor"]\<close> is truthy before the node has run.  The
  run ends with status success and without any outcome for the node, which is why \<open>engine_ok\<close> asks
  for plain names.\<close>

theorem inherited_name_never_runs:
  "check_workflow (\<lambda>_. None) inherited_wf = Inr inherited_wf \<and>
   map_option x_status (inherited_run 20) = Some (Some ''success'') \<and>
   map_option (\<lambda>s. okeys (x_results s)) (inherited_run 20) = Some [''fetch'']"
  by (intro conjI) code_simp+

section \<open>Pausing and resuming\<close>

definition execution_of :: "engine \<Rightarrow> jsctx \<Rightarrow> string \<Rightarrow> exec_db \<Rightarrow> exec" where
  "execution_of eng data i db = start_run eng data (initial_states i (db_nodes db))"

text \<open>C7.  Human in the loop, across the API, the node rows, the worker and the executor: when \<open>respond\<close>
  accepts an answer for a waiting node, the run that the worker then starts from the stored rows holds
  that node as a success whose output is the answer, at every moment, and never calls it again.\<close>

theorem answer_reaches_the_run:
  assumes "respond now u i node body db = (Inr v, db')" "i \<noteq> []" "node \<noteq> []" "distinct (okeys (db_nodes db'))"
    and "engine_ok eng" "node \<in> nds eng" "live (execution_of eng data i db')"
    and "exec_reach eng (execution_of eng data i db') s" "live s"
  shows "\<exists>oc. oget (x_results s) node = Some oc \<and> o_status oc = ''success'' \<and>
    o_output oc = respond_output body now \<and> node \<notin> runs s"
proof -
  obtain r where r: "oget (db_nodes db') (i, node) = Some r" "ns_status r = JStr ''success''"
      "ns_output r = respond_output body now"
    using respond_row [OF assms(1-3)] by blast
  let ?oc = "decode_outcome (loaded r)"
  have oc: "o_status ?oc = ''success''" "o_output ?oc = respond_output body now"
    using decode_loaded [OF r(2)] r(3) by simp_all
  have m: "(node, ?oc) \<in> set (initial_states i (db_nodes db'))"
    using initial_states_mem [OF r(1) assms(4)] by (rule map_of_SomeD)
  have "run_state eng data (initial_states i (db_nodes db')) s"
    using assms(5,7,8) initial_states_distinct [OF assms(4)] by (simp add: run_state_def execution_of_def)
  from run_hydrated [OF this assms(9) m assms(6)] oc show ?thesis
    by (auto simp: hydratable_def terminal_status_def)
qed

definition waiting_db :: exec_db where
  "waiting_db =
     \<lparr>db_execs = [(''e1'', blank_row\<lparr>er_status := ''waiting'', er_workspace := ''w'', er_project := ''p''\<rparr>)],
      db_nodes = [((''e1'', ''fetch''), ns_insert (JStr ''t'') (partial0\<lparr>np_status := JStr ''waiting''\<rparr>))],
      db_queue = []\<rparr>"

definition answered_db :: exec_db where
  "answered_db = snd (respond (JStr ''t'') \<lparr>c_workspace = ''w'', c_project = ''p''\<rparr> ''e1'' ''fetch'' (JStr ''yes'') waiting_db)"

theorem answer_reaches_the_run_witness:
  "\<exists>oc. oget (x_results (drive 5 sample_eng sample_oracle (JStr ''t'') (execution_of sample_eng [] ''e1'' answered_db))) ''fetch'' = Some oc
     \<and> o_status oc = ''success'' \<and> o_output oc = respond_output (JStr ''yes'') (JStr ''t'')
     \<and> ''fetch'' \<notin> runs (drive 5 sample_eng sample_oracle (JStr ''t'') (execution_of sample_eng [] ''e1'' answered_db))"
proof (rule answer_reaches_the_run [OF _ _ _ _ sample_ok])
  show "respond (JStr ''t'') \<lparr>c_workspace = ''w'', c_project = ''p''\<rparr> ''e1'' ''fetch'' (JStr ''yes'') waiting_db
      = (Inr (JObj [(''id'', JStr ''e1''), (''node'', JStr ''fetch''), (''status'', JStr ''queued'')]), answered_db)"
    by code_simp
  show "distinct (okeys (db_nodes answered_db))" by code_simp
  show "''fetch'' \<in> nds sample_eng" by code_simp
  show "live (execution_of sample_eng [] ''e1'' answered_db)" by code_simp
  show "live (drive 5 sample_eng sample_oracle (JStr ''t'') (execution_of sample_eng [] ''e1'' answered_db))" by code_simp
qed (simp_all add: drive_reach)



section \<open>The worker\<close>







end
